(* ===== verification/Mog_Prelude.thy ===== *)
theory Mog_Prelude
  imports Main "HOL-Library.Sublist"
begin

text \<open>
  What every component of the development shares: the error numbers the program tests for,
  the answers of the kernel to a system call, the two ways in which a C function does not
  return (a failed \<^verbatim>\<open>assert\<close>, or a loop that is still waiting for the kernel), the 64-bit
  wrap-around of \<^verbatim>\<open>off_t\<close>, and generic lemmas on lists.
\<close>

section \<open>Bytes and error numbers\<close>

type_synonym bytes = string

text \<open>
  The values of \<^verbatim>\<open>errno\<close> the sources compare with; every other value is \<open>EOTHER\<close>.
  \<^verbatim>\<open>EWOULDBLOCK\<close> equals \<^verbatim>\<open>EAGAIN\<close> on the platforms the program supports, and
  \<^verbatim>\<open>case_EAGAIN\<close> (\<^verbatim>\<open>util.h\<close>) covers both.
\<close>

datatype errno =
    EAGAIN | EINTR | ENOENT | EACCES | EPERM | EISDIR | EEXIST | EINVAL | ERANGE | ENOSPC
  | EFBIG | EMFILE | ENFILE | ENOMEM | ENOBUFS | ECONNRESET | ENOTCONN | ECONNABORTED
  | ENAMETOOLONG | EIO | EOVERFLOW | ENOTDIR | ELOOP | ENOSYS | ENODEV | EBADF | ENOTSOCK
  | EOPNOTSUPP | ESRCH | EBUSY | ECHILD | EFAULT | ESPIPE | ETIMEDOUT | EOTHER nat

section \<open>Calls that do not return\<close>

text \<open>
  A C function of the program either returns, or aborts the process in an \<^verbatim>\<open>assert\<close> (the
  program is built with assertions), or has not returned yet because the kernel has not
  answered all its system calls: the answers are a finite script, and a call that has used
  up the script is \<open>Starved\<close>.
\<close>

datatype 'a outcome = Ret 'a | Abort | Starved

fun obind :: "'a outcome \<Rightarrow> ('a \<Rightarrow> 'b outcome) \<Rightarrow> 'b outcome" where
  "obind (Ret x) f = f x"
| "obind Abort f = Abort"
| "obind Starved f = Starved"

definition assert_then :: "bool \<Rightarrow> 'a outcome \<Rightarrow> 'a outcome" where
  "assert_then b k = (if b then k else Abort)"

lemma assert_then_True [simp]: "assert_then True k = k"
  by (simp add: assert_then_def)

lemma assert_then_False [simp]: "assert_then False k = Abort"
  by (simp add: assert_then_def)

lemma assert_then_Ret [simp]: "assert_then b k = Ret x \<longleftrightarrow> b \<and> k = Ret x"
  by (simp add: assert_then_def)

lemma obind_Ret [simp]: "obind m f = Ret y \<longleftrightarrow> (\<exists>x. m = Ret x \<and> f x = Ret y)"
  by (cases m) auto

text \<open>Elimination rules that name the intermediate results.\<close>

lemma obindE: "obind m f = Ret y \<Longrightarrow> (\<And>a. m = Ret a \<Longrightarrow> f a = Ret y \<Longrightarrow> P) \<Longrightarrow> P"
  by auto

lemma obindE2: "obind m (\<lambda>(a, b). f a b) = Ret y \<Longrightarrow> (\<And>a b. m = Ret (a, b) \<Longrightarrow> f a b = Ret y \<Longrightarrow> P) \<Longrightarrow> P"
  by auto

lemma obindE3:
  "obind m (\<lambda>(a, b, c). f a b c) = Ret y \<Longrightarrow> (\<And>a b c. m = Ret (a, b, c) \<Longrightarrow> f a b c = Ret y \<Longrightarrow> P) \<Longrightarrow> P"
  by auto

lemma assert_thenE: "assert_then b k = Ret y \<Longrightarrow> (b \<Longrightarrow> k = Ret y \<Longrightarrow> P) \<Longrightarrow> P"
  by simp

lemma obind_Abort: "obind m f = Abort \<longleftrightarrow> m = Abort \<or> (\<exists>x. m = Ret x \<and> f x = Abort)"
  by (cases m) auto

lemma obind_Starved: "obind m f = Starved \<longleftrightarrow> m = Starved \<or> (\<exists>x. m = Ret x \<and> f x = Starved)"
  by (cases m) auto

section \<open>File offsets\<close>

text \<open>
  \<^verbatim>\<open>off_t\<close> is a signed 64-bit integer. Arithmetic on it is written over \<^typ>\<open>int\<close> with the
  two's complement wrap-around made explicit.
\<close>

definition wrap64 :: "int \<Rightarrow> int" where
  "wrap64 x = (x + 2 ^ 63) mod 2 ^ 64 - 2 ^ 63"

lemma wrap64_id [simp]: "- (2 ^ 63) \<le> x \<Longrightarrow> x < 2 ^ 63 \<Longrightarrow> wrap64 x = x"
  by (simp add: wrap64_def)

lemma wrap64_bounds: "- (2 ^ 63) \<le> wrap64 x" "wrap64 x < 2 ^ 63"
proof -
  have "0 \<le> (x + 2 ^ 63) mod (2 ^ 64 :: int)" and "(x + 2 ^ 63) mod (2 ^ 64 :: int) < 2 ^ 64"
    by simp_all
  then show "- (2 ^ 63) \<le> wrap64 x" "wrap64 x < 2 ^ 63"
    by (simp_all add: wrap64_def)
qed

section \<open>Lists\<close>

lemma take_min_length: "take (min n (length xs)) xs = take n xs"
  by (cases "n \<le> length xs") (simp_all add: min_def)

lemma drop_min_length: "drop (min n (length xs)) xs = drop n xs"
  by (cases "n \<le> length xs") (simp_all add: min_def)

lemma take_drop_append_drop [simp]: "take w (drop k xs) @ drop (k + w) xs = drop k xs"
proof -
  have "take w (drop k xs) @ drop w (drop k xs) = drop k xs" by (rule append_take_drop_id)
  then show ?thesis by (simp only: drop_drop add.commute)
qed

lemma concat_replicate_Nil: "concat (replicate n []) = []"
  by (induction n) auto

section \<open>Printing numbers\<close>

text \<open>The conversions \<^verbatim>\<open>%d\<close>, \<^verbatim>\<open>%x\<close> and \<^verbatim>\<open>%08x\<close> of \<^verbatim>\<open>printf\<close> on natural numbers.\<close>

definition digit_char :: "nat \<Rightarrow> char" where
  "digit_char n = char_of (if n < 10 then 48 + n else 87 + n)"

fun nat_str :: "nat \<Rightarrow> nat \<Rightarrow> bytes" where
  "nat_str b n = (if b < 2 \<or> n < b then [digit_char n] else nat_str b (n div b) @ [digit_char (n mod b)])"

declare nat_str.simps [simp del]

definition pad_zero :: "nat \<Rightarrow> bytes \<Rightarrow> bytes" where
  "pad_zero k s = replicate (k - length s) (CHR ''0'') @ s"

definition int_str :: "int \<Rightarrow> bytes" where
  "int_str i = (if i < 0 then CHR ''-'' # nat_str 10 (nat (- i)) else nat_str 10 (nat i))"

lemma of_char_digit_char: "n < 36 \<Longrightarrow> of_char (digit_char n) = (if n < 10 then 48 + n else 87 + n)"
  by (simp add: digit_char_def)

lemma digit_char_simps [simp]:
  "digit_char 0 = CHR ''0''" "digit_char (Suc 0) = CHR ''1''" "digit_char 1 = CHR ''1''" "digit_char 2 = CHR ''2''"
  "digit_char 3 = CHR ''3''" "digit_char 4 = CHR ''4''" "digit_char 5 = CHR ''5''" "digit_char 6 = CHR ''6''"
  "digit_char 7 = CHR ''7''" "digit_char 8 = CHR ''8''" "digit_char 9 = CHR ''9''"
  by (simp_all add: digit_char_def char_of_def bit_0)

lemma set_nat_str: "2 \<le> b \<Longrightarrow> set (nat_str b n) \<subseteq> digit_char ` {..<b}"
proof (induction b n rule: nat_str.induct)
  case (1 b n)
  have "nat_str b n = (if n < b then [digit_char n] else nat_str b (n div b) @ [digit_char (n mod b)])"
    using 1(2) nat_str.simps [of b n] by simp
  moreover have "n mod b \<in> {..<b}"
    using 1(2) by simp
  ultimately show ?case
    using 1 by (auto split: if_splits)
qed

lemma nat_str_not_Nil [simp]: "nat_str b n \<noteq> []"
  by (subst nat_str.simps) simp

end
