(* ===== verification/Mog_Hash.thy ===== *)
theory Mog_Hash
  imports Mog_Prelude "HOL-Library.Multiset"
begin

text \<open>
  \<^verbatim>\<open>lib/hash.c\<close>: the chained hash table in which the program keeps its devices, mount entries,
  utilisation records, services, configurations, processes and inherited listeners. Every one
  of those tables supplies a hasher and a comparator over one key of its entries; the locale
  \<open>hash_client\<close> states that contract, and the components interpret it for their own entries.
  Under the contract the table is a finite map from keys to entries.
\<close>

section \<open>Model\<close>

text \<open>
  The tuning parameters enter only through \<^verbatim>\<open>float\<close> expressions over bucket counts; each
  expression is a function of the record: \<open>tn_full u n\<close> is
  \<^verbatim>\<open>n_buckets_used > growth_threshold * n_buckets\<close>, \<open>tn_grown n\<close> is
  \<^verbatim>\<open>n_buckets * growth_factor * growth_threshold\<close>, \<open>tn_scaled c\<close> is
  \<^verbatim>\<open>candidate / growth_threshold\<close>, \<open>tn_sparse u n\<close> is
  \<^verbatim>\<open>n_buckets_used < shrink_threshold * n_buckets\<close> and \<open>tn_shrunk n\<close> is
  \<^verbatim>\<open>n_buckets * shrink_factor * growth_threshold\<close>. The program always passes a null
  tuning pointer, that is the valid default tuning with \<^verbatim>\<open>is_n_buckets\<close> false.
\<close>

record hash_tuning =
  tn_full :: "nat \<Rightarrow> nat \<Rightarrow> bool"
  tn_grown :: "nat \<Rightarrow> nat"
  tn_scaled :: "nat \<Rightarrow> nat"
  tn_sparse :: "nat \<Rightarrow> nat \<Rightarrow> bool"
  tn_shrunk :: "nat \<Rightarrow> nat"

text \<open>
  A bucket is the list of its entries, the bucket head first and then the overflow chain; the
  empty list is a bucket whose \<^verbatim>\<open>data\<close> is null. \<open>ht_free\<close> counts the recycled entries on
  \<^verbatim>\<open>free_entry_list\<close>, and \<open>ht_mem\<close> lists the answers of the allocator to come (an exhausted
  list means that allocation succeeds).
\<close>

record 'e hash_table =
  ht_bucket :: "'e list list"
  ht_n_buckets_used :: nat
  ht_n_entries :: nat
  ht_tuning :: hash_tuning
  ht_hasher :: "'e \<Rightarrow> nat \<Rightarrow> nat"
  ht_comparator :: "'e \<Rightarrow> 'e \<Rightarrow> bool"
  ht_free :: nat
  ht_mem :: "bool list"

abbreviation ht_n_buckets :: "'e hash_table \<Rightarrow> nat" where
  "ht_n_buckets t \<equiv> length (ht_bucket t)"

definition SIZE_MAX :: nat where
  "SIZE_MAX = 2 ^ 64 - 1"

definition malloc_ok :: "'e hash_table \<Rightarrow> bool \<times> 'e hash_table" where
  "malloc_ok t = (case ht_mem t of [] \<Rightarrow> (True, t) | b # bs \<Rightarrow> (b, t\<lparr>ht_mem := bs\<rparr>))"

definition safe_hasher :: "'e hash_table \<Rightarrow> 'e \<Rightarrow> nat outcome" where
  "safe_hasher t e =
     (let n = ht_hasher t e (ht_n_buckets t) in if n < ht_n_buckets t then Ret n else Abort)"

definition hash_lookup :: "'e hash_table \<Rightarrow> 'e \<Rightarrow> 'e option outcome" where
  "hash_lookup t e =
     obind (safe_hasher t e) (\<lambda>n. Ret (List.find (ht_comparator t e) (ht_bucket t ! n)))"

text \<open>
  The walk of \<^verbatim>\<open>hash_do_for_each\<close>: the processor may update the entry it is given and its own
  data, and stops the walk by returning false.
\<close>

fun for_each_list :: "('e \<Rightarrow> 's \<Rightarrow> bool \<times> 'e \<times> 's) \<Rightarrow> 'e list \<Rightarrow> 's \<Rightarrow> nat \<times> bool \<times> 'e list \<times> 's" where
  "for_each_list proc [] s = (0, True, [], s)"
| "for_each_list proc (e # es) s =
     (case proc e s of
        (False, e', s') \<Rightarrow> (0, False, e' # es, s')
      | (True, e', s') \<Rightarrow>
          (case for_each_list proc es s' of (n, go, es', s'') \<Rightarrow> (Suc n, go, e' # es', s'')))"

fun for_each_bucket ::
  "('e \<Rightarrow> 's \<Rightarrow> bool \<times> 'e \<times> 's) \<Rightarrow> 'e list list \<Rightarrow> 's \<Rightarrow> nat \<times> 'e list list \<times> 's" where
  "for_each_bucket proc [] s = (0, [], s)"
| "for_each_bucket proc (b # bs) s =
     (case for_each_list proc b s of
        (n, False, b', s') \<Rightarrow> (n, b' # bs, s')
      | (n, True, b', s') \<Rightarrow>
          (case for_each_bucket proc bs s' of (m, bs', s'') \<Rightarrow> (n + m, b' # bs', s'')))"

definition hash_do_for_each ::
  "'e hash_table \<Rightarrow> ('e \<Rightarrow> 's \<Rightarrow> bool \<times> 'e \<times> 's) \<Rightarrow> 's \<Rightarrow> nat \<times> 'e hash_table \<times> 's" where
  "hash_do_for_each t proc s =
     (case for_each_bucket proc (ht_bucket t) s of (n, bs, s') \<Rightarrow> (n, t\<lparr>ht_bucket := bs\<rparr>, s'))"

text \<open>The hash of a NUL-terminated string.\<close>

fun hash_string_loop :: "nat \<Rightarrow> string \<Rightarrow> nat \<Rightarrow> nat" where
  "hash_string_loop v [] n = v"
| "hash_string_loop v (c # cs) n = hash_string_loop ((v * 31 + of_char c) mod 2 ^ 64 mod n) cs n"

definition hash_string :: "string \<Rightarrow> nat \<Rightarrow> nat" where
  "hash_string s n = hash_string_loop 0 s n"

text \<open>
  Trial division by odd numbers; \<open>d\<close> is \<^verbatim>\<open>divisor\<close> and \<open>sq\<close> is its square. The square can
  only exceed a \<^verbatim>\<open>size_t\<close> for candidates next to \<open>SIZE_MAX\<close>, all of which
  \<^verbatim>\<open>compute_bucket_size\<close> refuses.
\<close>

function is_prime_loop :: "nat \<Rightarrow> nat \<Rightarrow> nat \<Rightarrow> bool" where
  "is_prime_loop c d sq =
     (if sq < c \<and> c mod d \<noteq> 0 then is_prime_loop c (d + 2) (sq + 4 * (d + 1))
      else c mod d \<noteq> 0)"
  by pat_completeness auto
termination
  by (relation "measure (\<lambda>(c, d, sq). c - sq)") auto

definition is_prime :: "nat \<Rightarrow> bool" where
  "is_prime c = is_prime_loop c 3 9"

text \<open>The candidates are odd and at most \<open>SIZE_MAX\<close>, so the search stops there at the latest.\<close>

function next_prime_loop :: "nat \<Rightarrow> nat" where
  "next_prime_loop c = (if c < SIZE_MAX \<and> \<not> is_prime c then next_prime_loop (c + 2) else c)"
  by pat_completeness auto
termination
  by (relation "measure (\<lambda>c. SIZE_MAX - c)") auto

declare is_prime_loop.simps [simp del] next_prime_loop.simps [simp del]

definition next_prime :: "nat \<Rightarrow> nat" where
  "next_prime c = (let c1 = max c 10 in next_prime_loop (if even c1 then c1 + 1 else c1))"

definition compute_bucket_size :: "nat \<Rightarrow> hash_tuning \<Rightarrow> nat" where
  "compute_bucket_size cand tn =
     (if SIZE_MAX \<le> tn_scaled tn cand then 0
      else let c = next_prime (tn_scaled tn cand) in if SIZE_MAX div 8 < c then 0 else c)"

text \<open>\<open>None\<close> is a null result (no memory).\<close>

definition hash_initialize ::
  "bool list \<Rightarrow> nat \<Rightarrow> hash_tuning \<Rightarrow> ('e \<Rightarrow> nat \<Rightarrow> nat) \<Rightarrow> ('e \<Rightarrow> 'e \<Rightarrow> bool) \<Rightarrow> 'e hash_table option" where
  "hash_initialize mem cand tn hasher cmp =
     (let n = compute_bucket_size cand tn;
          t = \<lparr>ht_bucket = replicate n [], ht_n_buckets_used = 0, ht_n_entries = 0, ht_tuning = tn,
               ht_hasher = hasher, ht_comparator = cmp, ht_free = 0, ht_mem = mem\<rparr>
      in case malloc_ok t of (ok1, t1) \<Rightarrow>
           if \<not> ok1 \<or> n = 0 then None
           else (case malloc_ok t1 of (ok2, t2) \<Rightarrow> if ok2 then Some t2 else None))"

definition hash_clear :: "'e hash_table \<Rightarrow> 'e hash_table" where
  "hash_clear t = t\<lparr>ht_bucket := map (\<lambda>_. []) (ht_bucket t), ht_n_buckets_used := 0,
     ht_n_entries := 0, ht_free := ht_free t + sum_list (map (\<lambda>b. length b - 1) (ht_bucket t))\<rparr>"

definition allocate_entry :: "'e hash_table \<Rightarrow> bool \<times> 'e hash_table" where
  "allocate_entry t = (if ht_free t > 0 then (True, t\<lparr>ht_free := ht_free t - 1\<rparr>) else malloc_ok t)"

text \<open>
  \<^verbatim>\<open>hash_find_entry\<close>: the matching entry and the index of its bucket; when deleting, the first
  match is unlinked, and a chain of more than one entry gives one entry back to the free list.
  A comparator that decides equality of keys is reflexive, so the pointer comparison the code
  makes first never changes the result.
\<close>

fun remove_first :: "('e \<Rightarrow> bool) \<Rightarrow> 'e list \<Rightarrow> 'e list" where
  "remove_first p [] = []"
| "remove_first p (x # xs) = (if p x then xs else x # remove_first p xs)"

definition hash_find_entry ::
  "'e hash_table \<Rightarrow> 'e \<Rightarrow> bool \<Rightarrow> ('e option \<times> nat \<times> 'e hash_table) outcome" where
  "hash_find_entry t e del =
     obind (safe_hasher t e) (\<lambda>n.
       let chain = ht_bucket t ! n in
       case List.find (ht_comparator t e) chain of
         None \<Rightarrow> Ret (None, n, t)
       | Some d \<Rightarrow>
           if del
           then Ret (Some d, n, t\<lparr>ht_bucket := (ht_bucket t)[n := remove_first (ht_comparator t e) chain],
                    ht_free := ht_free t + (if length chain > 1 then 1 else 0)\<rparr>)
           else Ret (Some d, n, t))"

text \<open>A new entry goes right behind the head of a non-empty bucket.\<close>

fun chain_add :: "'e \<Rightarrow> 'e list \<Rightarrow> 'e list" where
  "chain_add d [] = [d]"
| "chain_add d (h # ov) = h # d # ov"

fun transfer_overflow :: "'e hash_table \<Rightarrow> 'e list \<Rightarrow> 'e hash_table outcome" where
  "transfer_overflow dst [] = Ret dst"
| "transfer_overflow dst (d # ds) =
     obind (safe_hasher dst d) (\<lambda>n.
       let c = ht_bucket dst ! n; fresh = (if c = [] then 1 else 0) in
       transfer_overflow (dst\<lparr>ht_bucket := (ht_bucket dst)[n := chain_add d c],
         ht_n_buckets_used := ht_n_buckets_used dst + fresh, ht_free := ht_free dst + fresh\<rparr>) ds)"

definition transfer_head :: "'e hash_table \<Rightarrow> 'e \<Rightarrow> (bool \<times> 'e hash_table) outcome" where
  "transfer_head dst d =
     obind (safe_hasher dst d) (\<lambda>n.
       let c = ht_bucket dst ! n in
       if c \<noteq> []
       then (case allocate_entry dst of
               (False, dst') \<Rightarrow> Ret (False, dst')
             | (True, dst') \<Rightarrow> Ret (True, dst'\<lparr>ht_bucket := (ht_bucket dst')[n := chain_add d c]\<rparr>))
       else Ret (True, dst\<lparr>ht_bucket := (ht_bucket dst)[n := [d]],
                  ht_n_buckets_used := ht_n_buckets_used dst + 1\<rparr>))"

fun transfer_buckets ::
  "nat list \<Rightarrow> 'e hash_table \<Rightarrow> 'e hash_table \<Rightarrow> bool \<Rightarrow> (bool \<times> 'e hash_table \<times> 'e hash_table) outcome" where
  "transfer_buckets [] dst src safe = Ret (True, dst, src)"
| "transfer_buckets (i # is) dst src safe =
     (case ht_bucket src ! i of
        [] \<Rightarrow> transfer_buckets is dst src safe
      | h # ov \<Rightarrow>
          obind (transfer_overflow dst ov) (\<lambda>dst1.
            let src1 = src\<lparr>ht_bucket := (ht_bucket src)[i := [h]]\<rparr> in
            if safe then transfer_buckets is dst1 src1 safe
            else obind (transfer_head dst1 h) (\<lambda>(ok, dst2).
              if \<not> ok then Ret (False, dst2, src1)
              else transfer_buckets is dst2
                (src1\<lparr>ht_bucket := (ht_bucket src1)[i := []],
                   ht_n_buckets_used := ht_n_buckets_used src1 - 1\<rparr>) safe)))"

definition transfer_entries ::
  "'e hash_table \<Rightarrow> 'e hash_table \<Rightarrow> bool \<Rightarrow> (bool \<times> 'e hash_table \<times> 'e hash_table) outcome" where
  "transfer_entries dst src safe = transfer_buckets [0..<ht_n_buckets src] dst src safe"

definition hash_rehash :: "'e hash_table \<Rightarrow> nat \<Rightarrow> (bool \<times> 'e hash_table) outcome" where
  "hash_rehash t cand =
     (let new_size = compute_bucket_size cand (ht_tuning t) in
      if new_size = 0 then Ret (False, t)
      else if new_size = ht_n_buckets t then Ret (True, t)
      else (case malloc_ok t of
              (False, t1) \<Rightarrow> Ret (False, t1)
            | (True, t1) \<Rightarrow>
                obind (transfer_entries
                         (t1\<lparr>ht_bucket := replicate new_size [], ht_n_buckets_used := 0, ht_n_entries := 0\<rparr>)
                         t1 False) (\<lambda>(ok, new, old).
                  if ok then Ret (True, new\<lparr>ht_n_entries := ht_n_entries old\<rparr>)
                  else let old1 = old\<lparr>ht_free := ht_free new, ht_mem := ht_mem new\<rparr> in
                    obind (transfer_entries old1 new True) (\<lambda>(ok1, old2, new2).
                      if \<not> ok1 then Abort
                      else obind (transfer_entries old2 new2 False) (\<lambda>(ok2, old3, new3).
                        if \<not> ok2 then Abort else Ret (False, old3))))))"

text \<open>
  \<^verbatim>\<open>hash_insert_if_absent\<close>: result \<open>-1\<close> (no memory), \<open>0\<close> with the matching entry, or \<open>1\<close>.
\<close>

definition insert_at :: "'e hash_table \<Rightarrow> nat \<Rightarrow> 'e \<Rightarrow> int \<times> 'e option \<times> 'e hash_table" where
  "insert_at t n e =
     (if ht_bucket t ! n \<noteq> []
      then (case allocate_entry t of
              (False, t1) \<Rightarrow> (-1, None, t1)
            | (True, t1) \<Rightarrow> (1, None, t1\<lparr>ht_bucket := (ht_bucket t1)[n := chain_add e (ht_bucket t1 ! n)],
                              ht_n_entries := ht_n_entries t1 + 1\<rparr>))
      else (1, None, t\<lparr>ht_bucket := (ht_bucket t)[n := [e]], ht_n_entries := ht_n_entries t + 1,
                ht_n_buckets_used := ht_n_buckets_used t + 1\<rparr>))"

definition hash_insert_if_absent ::
  "'e hash_table \<Rightarrow> 'e \<Rightarrow> (int \<times> 'e option \<times> 'e hash_table) outcome" where
  "hash_insert_if_absent t e =
     obind (hash_find_entry t e False) (\<lambda>(data, n, t).
       case data of
         Some d \<Rightarrow> Ret (0, Some d, t)
       | None \<Rightarrow>
           if tn_full (ht_tuning t) (ht_n_buckets_used t) (ht_n_buckets t)
           then if SIZE_MAX \<le> tn_grown (ht_tuning t) (ht_n_buckets t) then Ret (-1, None, t)
                else obind (hash_rehash t (tn_grown (ht_tuning t) (ht_n_buckets t))) (\<lambda>(ok, t1).
                  if \<not> ok then Ret (-1, None, t1)
                  else obind (hash_find_entry t1 e False) (\<lambda>(data1, n1, t1).
                    if data1 \<noteq> None then Abort else Ret (insert_at t1 n1 e)))
           else Ret (insert_at t n e))"

text \<open>\<open>None\<close> is a null result (no memory).\<close>

definition hash_insert :: "'e hash_table \<Rightarrow> 'e \<Rightarrow> ('e option \<times> 'e hash_table) outcome" where
  "hash_insert t e =
     obind (hash_insert_if_absent t e) (\<lambda>(err, matched, t').
       Ret (if err = -1 then None else if err = 0 then matched else Some e, t'))"

definition hash_delete :: "'e hash_table \<Rightarrow> 'e \<Rightarrow> ('e option \<times> 'e hash_table) outcome" where
  "hash_delete t e =
     obind (hash_find_entry t e True) (\<lambda>(data, n, t1).
       case data of
         None \<Rightarrow> Ret (None, t1)
       | Some d \<Rightarrow>
           let t2 = t1\<lparr>ht_n_entries := ht_n_entries t1 - 1\<rparr> in
           if ht_bucket t2 ! n \<noteq> [] then Ret (Some d, t2)
           else let t3 = t2\<lparr>ht_n_buckets_used := ht_n_buckets_used t2 - 1\<rparr> in
             if tn_sparse (ht_tuning t3) (ht_n_buckets_used t3) (ht_n_buckets t3)
             then obind (hash_rehash t3 (tn_shrunk (ht_tuning t3) (ht_n_buckets t3))) (\<lambda>(ok, t4).
                    Ret (Some d, if ok then t4 else t4\<lparr>ht_free := 0\<rparr>))
             else Ret (Some d, t3))"


text \<open>
  A write through the pointer a lookup returned: the fields of the entries selected by \<open>p\<close>
  change in place.
\<close>

definition hash_modify :: "('e \<Rightarrow> bool) \<Rightarrow> ('e \<Rightarrow> 'e) \<Rightarrow> 'e hash_table \<Rightarrow> 'e hash_table" where
  "hash_modify p f t = t\<lparr>ht_bucket := map (map (\<lambda>e. if p e then f e else e)) (ht_bucket t)\<rparr>"

section \<open>The table as a finite map\<close>

definition ht_entries :: "'e hash_table \<Rightarrow> 'e list" where
  "ht_entries t = concat (ht_bucket t)"

definition ht_abs :: "('e \<Rightarrow> 'k) \<Rightarrow> 'e hash_table \<Rightarrow> 'k \<rightharpoonup> 'e" where
  "ht_abs key t k = List.find (\<lambda>e. key e = k) (ht_entries t)"

definition placed :: "('e \<Rightarrow> nat \<Rightarrow> nat) \<Rightarrow> 'e list list \<Rightarrow> bool" where
  "placed h bs \<longleftrightarrow> (\<forall>i < length bs. \<forall>e \<in> set (bs ! i). h e (length bs) = i)"

definition used_count :: "'e list list \<Rightarrow> nat" where
  "used_count bs = length (filter (\<lambda>b. b \<noteq> []) bs)"

text \<open>
  The invariant: there is a bucket, every entry is in the bucket its key hashes to, no key occurs
  twice, and the two counters are those \<^verbatim>\<open>hash_table_ok\<close> recounts.
\<close>

definition hash_table_ok :: "'e hash_table \<Rightarrow> bool" where
  "hash_table_ok t \<longleftrightarrow>
     used_count (ht_bucket t) = ht_n_buckets_used t \<and> length (ht_entries t) = ht_n_entries t"

definition ht_ok :: "('e \<Rightarrow> nat \<Rightarrow> nat) \<Rightarrow> ('e \<Rightarrow> 'e \<Rightarrow> bool) \<Rightarrow> ('e \<Rightarrow> 'k) \<Rightarrow> 'e hash_table \<Rightarrow> bool" where
  "ht_ok h cmp key t \<longleftrightarrow>
     0 < ht_n_buckets t \<and> ht_hasher t = h \<and> ht_comparator t = cmp \<and> placed h (ht_bucket t) \<and>
     distinct (map key (ht_entries t)) \<and> hash_table_ok t"

subsection \<open>List lemmas\<close>

lemma mset_chain_add [simp]: "mset (chain_add d c) = add_mset d (mset c)"
  by (cases c) auto

lemma set_chain_add [simp]: "set (chain_add d c) = insert d (set c)"
  by (cases c) auto

lemma chain_add_not_Nil [simp]: "chain_add d c \<noteq> []"
  by (cases c) auto

lemma mset_concat_update:
  "n < length bs \<Longrightarrow> mset (concat (bs[n := c])) + mset (bs ! n) = mset (concat bs) + mset c"
  by (induction bs arbitrary: n) (auto simp: nth_Cons' less_Suc_eq_0_disj split: nat.splits)

lemma mset_concat_add:
  "n < length bs \<Longrightarrow> mset (concat (bs[n := chain_add d (bs ! n)])) = add_mset d (mset (concat bs))"
  using mset_concat_update [of n bs "chain_add d (bs ! n)"] by auto

lemma used_count_simps [simp]:
  "used_count [] = 0"
  "used_count (b # bs) = (if b = [] then 0 else 1) + used_count bs"
  by (simp_all add: used_count_def)

lemma used_count_update:
  "n < length bs \<Longrightarrow>
     used_count (bs[n := c]) + (if bs ! n = [] then 0 else 1) = used_count bs + (if c = [] then 0 else 1)"
proof (induction bs arbitrary: n)
  case (Cons b bs)
  show ?case
  proof (cases n)
    case (Suc m)
    then show ?thesis
      using Cons.IH [of m] Cons.prems by simp
  qed simp
qed simp

lemma placed_update:
  "placed h bs \<Longrightarrow> n < length bs \<Longrightarrow> (\<And>e. e \<in> set c \<Longrightarrow> h e (length bs) = n) \<Longrightarrow> placed h (bs[n := c])"
  by (auto simp: placed_def nth_list_update)

lemma placed_replicate [simp]: "placed h (replicate n [])"
  by (simp add: placed_def)

lemma used_count_replicate [simp]: "used_count (replicate n []) = 0"
  by (simp add: used_count_def)

lemma find_first_unique:
  "distinct (map key xs) \<Longrightarrow> List.find (\<lambda>e. key e = k) xs = Some x \<longleftrightarrow> x \<in> set xs \<and> key x = k"
  by (induction xs) auto

lemma find_None_iff2: "List.find (\<lambda>e. key e = k) xs = None \<longleftrightarrow> k \<notin> key ` set xs"
  by (induction xs) auto

lemma ht_abs_Some:
  "distinct (map key (ht_entries t)) \<Longrightarrow>
     ht_abs key t k = Some e \<longleftrightarrow> e \<in> set (ht_entries t) \<and> key e = k"
  by (simp add: ht_abs_def find_first_unique)

lemma ht_abs_None: "ht_abs key t k = None \<longleftrightarrow> k \<notin> key ` set (ht_entries t)"
  by (simp add: ht_abs_def find_None_iff2)

lemma ht_abs_insert:
  assumes "distinct (map key (ht_entries t'))" "distinct (map key (ht_entries t))"
    "key e \<notin> key ` set (ht_entries t)" "set (ht_entries t') = insert e (set (ht_entries t))"
  shows "ht_abs key t' = (ht_abs key t)(key e \<mapsto> e)"
proof
  fix k
  have "ht_abs key t' k = Some x \<longleftrightarrow> ((ht_abs key t)(key e \<mapsto> e)) k = Some x" for x
    using assms by (auto simp: ht_abs_Some image_def)
  then show "ht_abs key t' k = ((ht_abs key t)(key e \<mapsto> e)) k"
    by (metis not_None_eq)
qed

text \<open>With distinct keys the map depends only on the multiset of entries.\<close>

lemma ht_abs_mset_cong:
  assumes "distinct (map key (ht_entries t))" "mset (ht_entries t') = mset (ht_entries t)"
  shows "distinct (map key (ht_entries t'))" "ht_abs key t' = ht_abs key t"
proof -
  have "mset (map key (ht_entries t')) = mset (map key (ht_entries t))"
    using assms(2) by simp
  then show d: "distinct (map key (ht_entries t'))"
    using assms(1) mset_eq_imp_distinct_iff by blast
  have "set (ht_entries t') = set (ht_entries t)"
    using assms(2) by (rule mset_eq_setD)
  then have "ht_abs key t' k = Some e \<longleftrightarrow> ht_abs key t k = Some e" for k e
    using d assms(1) by (simp add: ht_abs_Some)
  then show "ht_abs key t' = ht_abs key t"
    by (metis (no_types, opaque_lifting) ext not_Some_eq)
qed

lemma next_prime_loop_ge: "c \<le> next_prime_loop c"
  by (induction c rule: next_prime_loop.induct) (subst next_prime_loop.simps, auto)

lemma next_prime_ge: "max c 10 \<le> next_prime c"
proof -
  let ?d = "if even (max c 10) then max c 10 + 1 else max c 10"
  have "max c 10 \<le> ?d"
    by (cases "even (max c 10)") (simp_all only: if_True if_False le_add1 order_refl)
  also have "?d \<le> next_prime_loop ?d"
    by (rule next_prime_loop_ge)
  finally show ?thesis
    by (simp only: next_prime_def Let_def)
qed


definition ht_core :: "('e \<Rightarrow> nat \<Rightarrow> nat) \<Rightarrow> 'e hash_table \<Rightarrow> bool" where
  "ht_core h t \<longleftrightarrow> 0 < ht_n_buckets t \<and> ht_hasher t = h \<and> placed h (ht_bucket t) \<and>
     ht_n_buckets_used t = used_count (ht_bucket t)"

definition ht_frame :: "'e hash_table \<Rightarrow> 'e hash_table \<Rightarrow> bool" where
  "ht_frame t t' \<longleftrightarrow> ht_n_buckets t' = ht_n_buckets t \<and> ht_comparator t' = ht_comparator t \<and>
     ht_tuning t' = ht_tuning t \<and> ht_n_entries t' = ht_n_entries t \<and> ht_mem t' = ht_mem t"

lemma ht_frame_refl [simp]: "ht_frame t t"
  by (simp add: ht_frame_def)

lemma ht_frame_trans: "ht_frame t t' \<Longrightarrow> ht_frame t' t'' \<Longrightarrow> ht_frame t t''"
  by (simp add: ht_frame_def)

lemma malloc_ok_mem_Nil [simp]: "ht_mem t = [] \<Longrightarrow> malloc_ok t = (True, t)"
  by (simp add: malloc_ok_def)

lemma allocate_entry_mem_Nil:
  "ht_mem t = [] \<Longrightarrow> allocate_entry t = (True, t\<lparr>ht_free := ht_free t - 1\<rparr>)"
  by (simp add: allocate_entry_def)

text \<open>A walk that never stops and updates every entry independently of its own data.\<close>

lemma for_each_list_map:
  "for_each_list (\<lambda>e s. (True, f e, g e s)) es s = (length es, True, map f es, fold g es s)"
  by (induction es arbitrary: s) auto

lemma for_each_bucket_map:
  "for_each_bucket (\<lambda>e s. (True, f e, g e s)) bs s =
     (length (concat bs), map (map f) bs, fold g (concat bs) s)"
  by (induction bs arbitrary: s) (auto simp: for_each_list_map)

lemma hash_do_for_each_map:
  "hash_do_for_each t (\<lambda>e s. (True, f e, g e s)) s =
     (length (ht_entries t), t\<lparr>ht_bucket := map (map f) (ht_bucket t)\<rparr>, fold g (ht_entries t) s)"
  by (simp add: hash_do_for_each_def for_each_bucket_map ht_entries_def)

text \<open>Updates in place that keep the keys keep the table well formed.\<close>

lemma used_count_map [simp]: "used_count (map (map f) bs) = used_count bs"
  by (induction bs) auto

lemma find_map_key:
  "(\<And>e. key (f e) = key e) \<Longrightarrow>
     List.find (\<lambda>e. key e = k) (map f xs) = map_option f (List.find (\<lambda>e. key e = k) xs)"
  by (induction xs) auto

text \<open>
  Memory suffices: every allocation succeeds and no growth of the table runs into the limits of
  \<^verbatim>\<open>size_t\<close>. The program exits when this fails.
\<close>

definition mem_ok :: "'e hash_table \<Rightarrow> bool" where
  "mem_ok t \<longleftrightarrow> ht_mem t = [] \<and>
     (\<forall>u n. tn_full (ht_tuning t) u n \<longrightarrow>
        tn_grown (ht_tuning t) n < SIZE_MAX \<and>
        compute_bucket_size (tn_grown (ht_tuning t) n) (ht_tuning t) \<noteq> 0)"

text \<open>A concrete tuning that grows an 11-bucket table once.\<close>

definition demo_tuning :: hash_tuning where
  "demo_tuning = \<lparr>tn_full = (\<lambda>u n. n = 11 \<and> 8 < u), tn_grown = (\<lambda>n. n + 1),
     tn_scaled = (\<lambda>c. c + c div 4), tn_sparse = (\<lambda>_ _. False), tn_shrunk = (\<lambda>n. n)\<rparr>"

lemma demo_sizes: "compute_bucket_size 12 demo_tuning = 17" "compute_bucket_size 7 demo_tuning = 11"
  by (simp_all add: compute_bucket_size_def demo_tuning_def next_prime_def next_prime_loop.simps is_prime_def is_prime_loop.simps SIZE_MAX_def Let_def)

lemma demo_mem_ok: "ht_mem t = [] \<Longrightarrow> ht_tuning t = demo_tuning \<Longrightarrow> mem_ok t"
  using demo_sizes by (simp add: mem_ok_def) (simp add: demo_tuning_def SIZE_MAX_def)

subsection \<open>The contract of a table's user\<close>

text \<open>
  What every table of the program promises the hash code: the comparator decides equality of the
  key, the hasher depends on the key alone and stays below the number of buckets.
\<close>

locale hash_client =
  fixes h :: "'e \<Rightarrow> nat \<Rightarrow> nat" and cmp :: "'e \<Rightarrow> 'e \<Rightarrow> bool" and key :: "'e \<Rightarrow> 'k"
  assumes cmp_key: "cmp a b \<longleftrightarrow> key a = key b"
    and h_key: "key a = key b \<Longrightarrow> h a n = h b n"
    and h_less: "0 < n \<Longrightarrow> h a n < n"
begin

lemma safe_hasher_Ret:
  "0 < ht_n_buckets t \<Longrightarrow> ht_hasher t = h \<Longrightarrow> safe_hasher t e = Ret (h e (ht_n_buckets t))"
  by (simp add: safe_hasher_def h_less)

lemma core_add:
  assumes "ht_core h t" "n = h e (ht_n_buckets t)"
    "u = ht_n_buckets_used t + (if ht_bucket t ! n = [] then 1 else 0)"
    "ht_bucket t' = (ht_bucket t)[n := chain_add e (ht_bucket t ! n)]"
    "ht_n_buckets_used t' = u" "ht_hasher t' = ht_hasher t"
  shows "ht_core h t'" "mset (ht_entries t') = add_mset e (mset (ht_entries t))"
proof -
  have n: "n < ht_n_buckets t"
    using assms(1,2) by (simp add: ht_core_def h_less)
  have "placed h (ht_bucket t')"
    unfolding assms(4) using assms(1,2) n
    by (intro placed_update) (auto simp: ht_core_def placed_def)
  moreover have "used_count (ht_bucket t') = u"
    using used_count_update [OF n, of "chain_add e (ht_bucket t ! n)"] assms(1,3,4)
    by (auto simp: ht_core_def split: if_splits)
  ultimately show "ht_core h t'"
    using assms by (simp add: ht_core_def)
  show "mset (ht_entries t') = add_mset e (mset (ht_entries t))"
    unfolding ht_entries_def assms(4) by (rule mset_concat_add [OF n])
qed

lemma transfer_overflow_ok:
  "ht_core h dst \<Longrightarrow>
     \<exists>dst'. transfer_overflow dst ds = Ret dst' \<and> ht_core h dst' \<and> ht_frame dst dst' \<and>
       mset (ht_entries dst') = mset ds + mset (ht_entries dst)"
proof (induction ds arbitrary: dst)
  case (Cons d ds)
  let ?n = "h d (ht_n_buckets dst)"
  let ?fresh = "if ht_bucket dst ! ?n = [] then 1 else 0 :: nat"
  let ?dst = "dst\<lparr>ht_bucket := (ht_bucket dst)[?n := chain_add d (ht_bucket dst ! ?n)],
    ht_n_buckets_used := ht_n_buckets_used dst + ?fresh, ht_free := ht_free dst + ?fresh\<rparr>"
  have step: "transfer_overflow dst (d # ds) = transfer_overflow ?dst ds"
    using Cons.prems by (simp add: safe_hasher_Ret ht_core_def Let_def)
  have "ht_core h ?dst" "mset (ht_entries ?dst) = add_mset d (mset (ht_entries dst))"
    by (rule core_add [OF Cons.prems refl refl]; simp)+
  moreover have "ht_frame dst ?dst"
    by (simp add: ht_frame_def)
  ultimately show ?case
    using Cons.IH [of ?dst] step by (auto intro: ht_frame_trans)
qed simp

lemma transfer_head_ok:
  assumes "ht_core h dst" "ht_mem dst = []"
  shows "\<exists>dst'. transfer_head dst d = Ret (True, dst') \<and> ht_core h dst' \<and> ht_frame dst dst' \<and>
    mset (ht_entries dst') = add_mset d (mset (ht_entries dst))"
proof (cases "ht_bucket dst ! h d (ht_n_buckets dst) = []")
  case True
  let ?n = "h d (ht_n_buckets dst)"
  let ?dst = "dst\<lparr>ht_bucket := (ht_bucket dst)[?n := [d]],
    ht_n_buckets_used := ht_n_buckets_used dst + 1\<rparr>"
  have "transfer_head dst d = Ret (True, ?dst)"
    using assms True by (simp add: transfer_head_def safe_hasher_Ret ht_core_def Let_def)
  moreover have "ht_core h ?dst" "mset (ht_entries ?dst) = add_mset d (mset (ht_entries dst))"
    by (rule core_add [where e = d, OF assms(1) refl refl]; simp add: True)+
  ultimately show ?thesis
    by (auto simp: ht_frame_def)
next
  case False
  let ?n = "h d (ht_n_buckets dst)"
  let ?dst = "dst\<lparr>ht_free := ht_free dst - 1,
    ht_bucket := (ht_bucket dst)[?n := chain_add d (ht_bucket dst ! ?n)]\<rparr>"
  have "transfer_head dst d = Ret (True, ?dst)"
    using assms False
    by (simp add: transfer_head_def safe_hasher_Ret ht_core_def Let_def allocate_entry_mem_Nil)
  moreover have "ht_core h ?dst" "mset (ht_entries ?dst) = add_mset d (mset (ht_entries dst))"
    by (rule core_add [where e = d, OF assms(1) refl refl]; simp add: False)+
  ultimately show ?thesis
    by (auto simp: ht_frame_def)
qed

text \<open>A full pass moves every entry of the buckets it visits.\<close>

lemma transfer_buckets_ok:
  assumes "ht_core h dst" "ht_mem dst = []" "distinct is" "\<forall>i \<in> set is. i < ht_n_buckets src"
  shows "\<exists>dst' src'. transfer_buckets is dst src False = Ret (True, dst', src') \<and>
    ht_core h dst' \<and> ht_frame dst dst' \<and> ht_n_entries src' = ht_n_entries src \<and>
    mset (ht_entries dst') = mset (concat (map (\<lambda>i. ht_bucket src ! i) is)) + mset (ht_entries dst)"
  using assms
proof (induction "is" arbitrary: dst src)
  case (Cons i "is")
  show ?case
  proof (cases "ht_bucket src ! i")
    case Nil
    then show ?thesis
      using Cons.IH [OF Cons.prems(1,2)] Cons.prems(3,4) by simp
  next
    case bucket: (Cons hd ov)
    obtain dst1 where dst1: "transfer_overflow dst ov = Ret dst1" "ht_core h dst1" "ht_frame dst dst1"
      "mset (ht_entries dst1) = mset ov + mset (ht_entries dst)"
      using transfer_overflow_ok [OF Cons.prems(1)] by blast
    have m1: "ht_mem dst1 = []"
      using dst1(3) Cons.prems(2) by (simp add: ht_frame_def)
    obtain dst2 where dst2: "transfer_head dst1 hd = Ret (True, dst2)" "ht_core h dst2"
      "ht_frame dst1 dst2" "mset (ht_entries dst2) = add_mset hd (mset (ht_entries dst1))"
      using transfer_head_ok [OF dst1(2) m1] by blast
    let ?src = "src\<lparr>ht_bucket := (ht_bucket src)[i := []], ht_n_buckets_used := ht_n_buckets_used src - 1\<rparr>"
    have m2: "ht_mem dst2 = []"
      using dst2(3) m1 by (simp add: ht_frame_def)
    have rest: "map (\<lambda>j. ht_bucket ?src ! j) is = map (\<lambda>j. ht_bucket src ! j) is"
      using Cons.prems(3) by (auto intro: nth_list_update_neq)
    have ix: "distinct is" "\<forall>j \<in> set is. j < ht_n_buckets ?src"
      using Cons.prems(3,4) by auto
    obtain dst3 src3 where "transfer_buckets is dst2 ?src False = Ret (True, dst3, src3)"
      "ht_core h dst3" "ht_frame dst2 dst3" "ht_n_entries src3 = ht_n_entries src"
      "mset (ht_entries dst3) =
         mset (concat (map (\<lambda>j. ht_bucket src ! j) is)) + mset (ht_entries dst2)"
      using Cons.IH [OF dst2(2) m2 ix] unfolding rest by auto
    then show ?thesis
      using dst1 dst2 bucket by (auto simp: Let_def intro: ht_frame_trans)
  qed
qed simp

lemma hash_rehash_ok:
  assumes t: "ht_ok h cmp key t" "ht_mem t = []"
  obtains ok t' where "hash_rehash t c = Ret (ok, t')" "ht_ok h cmp key t'"
    "ht_abs key t' = ht_abs key t" "ht_mem t' = []" "ht_tuning t' = ht_tuning t" "\<not> ok \<Longrightarrow> t' = t"
proof (cases "compute_bucket_size c (ht_tuning t) \<in> {0, ht_n_buckets t}")
  case True
  then show ?thesis
    using that [of "compute_bucket_size c (ht_tuning t) \<noteq> 0" t] t
    by (auto simp: hash_rehash_def Let_def)
next
  case False
  let ?n = "compute_bucket_size c (ht_tuning t)"
  let ?new = "t\<lparr>ht_bucket := replicate ?n [], ht_n_buckets_used := 0, ht_n_entries := 0\<rparr>"
  have "ht_core h ?new"
    using t False by (simp add: ht_core_def ht_ok_def)
  moreover have "concat (map (\<lambda>i. ht_bucket t ! i) [0..<ht_n_buckets t]) = ht_entries t"
    by (simp add: map_nth ht_entries_def)
  moreover have "ht_entries ?new = []"
    by (simp add: ht_entries_def)
  ultimately obtain new old where n: "transfer_entries ?new t False = Ret (True, new, old)"
    "ht_core h new" "ht_frame ?new new" "ht_n_entries old = ht_n_entries t"
    "mset (ht_entries new) = mset (ht_entries t)"
    using transfer_buckets_ok [of ?new "[0..<ht_n_buckets t]" t] t(2)
    by (auto simp: transfer_entries_def)
  let ?t = "new\<lparr>ht_n_entries := ht_n_entries old\<rparr>"
  have same: "mset (ht_entries ?t) = mset (ht_entries t)"
    using n(5) by (simp add: ht_entries_def)
  have d: "distinct (map key (ht_entries t))"
    using t(1) by (simp add: ht_ok_def)
  have len: "length (ht_entries ?t) = length (ht_entries t)"
    using same by (metis size_mset)
  have "hash_rehash t c = Ret (True, ?t)"
    using n(1) False t(2) by (simp add: hash_rehash_def Let_def)
  moreover have "ht_ok h cmp key ?t"
    using t(1) n(2,3,4) len ht_abs_mset_cong(1) [OF d same] False
    by (simp add: ht_ok_def ht_core_def ht_frame_def hash_table_ok_def)
  ultimately show ?thesis
    using that [of True ?t] n(3) t(2) ht_abs_mset_cong(2) [OF d same] by (simp add: ht_frame_def)
qed

lemma hash_rehash_True:
  assumes "ht_ok h cmp key t" "ht_mem t = []" "compute_bucket_size c (ht_tuning t) \<noteq> 0"
    "hash_rehash t c = Ret (ok, t')"
  shows ok
proof (rule ccontr)
  assume "\<not> ok"
  let ?n = "compute_bucket_size c (ht_tuning t)"
  let ?new = "t\<lparr>ht_bucket := replicate ?n [], ht_n_buckets_used := 0, ht_n_entries := 0\<rparr>"
  have "ht_core h ?new"
    using assms(1,3) by (simp add: ht_core_def ht_ok_def)
  then obtain new old where "transfer_entries ?new t False = Ret (True, new, old)"
    using transfer_buckets_ok [of ?new "[0..<ht_n_buckets t]" t] assms(2)
    by (auto simp: transfer_entries_def)
  then show False
    using assms \<open>\<not> ok\<close> by (auto simp: hash_rehash_def Let_def split: if_splits)
qed

text \<open>A bucket holds all entries of the keys that hash to it.\<close>

lemma find_bucket:
  assumes "ht_ok h cmp key t"
  shows "List.find (cmp e) (ht_bucket t ! h e (ht_n_buckets t)) = ht_abs key t (key e)"
proof -
  let ?n = "h e (ht_n_buckets t)" and ?bs = "ht_bucket t"
  have n: "?n < length ?bs"
    using assms by (simp add: ht_ok_def h_less)
  have p: "placed h ?bs" and d: "distinct (map key (ht_entries t))"
    using assms by (simp_all add: ht_ok_def)
  have c: "cmp e = (\<lambda>x. key x = key e)"
    by (auto simp: cmp_key)
  have sub: "x \<in> set (?bs ! ?n)" if x: "x \<in> set (ht_entries t)" "key x = key e" for x
  proof -
    obtain b where "b \<in> set ?bs" "x \<in> set b"
      using x(1) by (auto simp: ht_entries_def)
    then obtain i where i: "i < length ?bs" "x \<in> set (?bs ! i)"
      by (auto simp: in_set_conv_nth)
    then have "h x (length ?bs) = i"
      using p by (simp add: placed_def)
    then show ?thesis
      using i(2) h_key [OF x(2)] by simp
  qed
  have sup: "set (?bs ! ?n) \<subseteq> set (ht_entries t)"
    using nth_mem [OF n] by (auto simp: ht_entries_def)
  have "distinct (map key (?bs ! ?n))"
    using d n by (auto simp: ht_entries_def map_concat distinct_concat_iff)
  then have "List.find (cmp e) (?bs ! ?n) = Some x \<longleftrightarrow> ht_abs key t (key e) = Some x" for x
    unfolding c using sub sup d by (auto simp: find_first_unique ht_abs_Some)
  then show ?thesis
    by (metis not_None_eq)
qed

lemma find_entry_False:
  "ht_ok h cmp key t \<Longrightarrow>
     hash_find_entry t e False = Ret (ht_abs key t (key e), h e (ht_n_buckets t), t)"
  using find_bucket [of t e]
  by (auto simp: hash_find_entry_def safe_hasher_Ret ht_ok_def Let_def split: option.split)

lemma hash_lookup_abs:
  "ht_ok h cmp key t \<Longrightarrow> hash_lookup t e = Ret (ht_abs key t (key e))"
  using find_bucket [of t e] by (simp add: hash_lookup_def safe_hasher_Ret ht_ok_def)

lemma ok_core: "ht_ok h cmp key t \<Longrightarrow> ht_core h t"
  by (simp add: ht_ok_def ht_core_def hash_table_ok_def)

lemma insert_at_ok:
  assumes t: "ht_ok h cmp key t" "ht_mem t = []" and new: "ht_abs key t (key e) = None"
  obtains t' where "insert_at t (h e (ht_n_buckets t)) e = (1, None, t')" "ht_ok h cmp key t'"
    "ht_abs key t' = (ht_abs key t)(key e \<mapsto> e)" "ht_mem t' = []"
proof -
  let ?n = "h e (ht_n_buckets t)"
  let ?t = "snd (snd (insert_at t ?n e))"
  have r: "insert_at t ?n e = (1, None, ?t)"
    using t(2) by (simp add: insert_at_def allocate_entry_mem_Nil)
  have fields: "ht_bucket ?t = (ht_bucket t)[?n := chain_add e (ht_bucket t ! ?n)]"
    "ht_n_buckets_used ?t = ht_n_buckets_used t + (if ht_bucket t ! ?n = [] then 1 else 0)"
    "ht_hasher ?t = ht_hasher t" "ht_comparator ?t = ht_comparator t" "ht_mem ?t = ht_mem t"
    "ht_n_entries ?t = ht_n_entries t + 1"
    using t(2) by (simp_all add: insert_at_def allocate_entry_mem_Nil)
  have core: "ht_core h ?t" and ms: "mset (ht_entries ?t) = add_mset e (mset (ht_entries t))"
    using core_add [OF ok_core [OF t(1)] refl refl fields(1,2,3)] by simp_all
  have sets: "set (ht_entries ?t) = insert e (set (ht_entries t))"
    using arg_cong [OF ms, of set_mset] by simp
  have "mset (map key (ht_entries ?t)) = mset (map key (e # ht_entries t))"
    using ms by simp
  moreover have "distinct (map key (e # ht_entries t))"
    using t(1) new by (simp add: ht_ok_def ht_abs_None)
  ultimately have d: "distinct (map key (ht_entries ?t))"
    using mset_eq_imp_distinct_iff by blast
  have "length (ht_entries ?t) = Suc (length (ht_entries t))"
    using arg_cong [OF ms, of size] by simp
  then have "ht_ok h cmp key ?t"
    using t(1) core d fields by (simp add: ht_ok_def ht_core_def hash_table_ok_def)
  moreover have "ht_abs key ?t = (ht_abs key t)(key e \<mapsto> e)"
    using ht_abs_insert [OF d _ _ sets] t(1) new by (simp add: ht_ok_def ht_abs_None)
  ultimately show ?thesis
    using that [OF r] fields(5) t(2) by simp
qed

text \<open>
  Inserting a key that is present returns the entry of the table and changes nothing; inserting
  an absent key adds it, with or without growing the table, unless the grown size is beyond
  what \<^verbatim>\<open>size_t\<close> can count.
\<close>

lemma hash_insert_if_absent_present:
  "ht_ok h cmp key t \<Longrightarrow> ht_abs key t (key e) = Some d \<Longrightarrow>
     hash_insert_if_absent t e = Ret (0, Some d, t)"
  by (simp add: hash_insert_if_absent_def find_entry_False)

lemma hash_insert_if_absent_absent:
  assumes t: "ht_ok h cmp key t" "ht_mem t = []" and new: "ht_abs key t (key e) = None"
  obtains t' where "hash_insert_if_absent t e = Ret (1, None, t')" "ht_ok h cmp key t'"
      "ht_abs key t' = (ht_abs key t)(key e \<mapsto> e)" "ht_mem t' = []"
    | "hash_insert_if_absent t e = Ret (-1, None, t)"
proof (cases "tn_full (ht_tuning t) (ht_n_buckets_used t) (ht_n_buckets t)")
  case False
  then show ?thesis
    using that(1) insert_at_ok [OF t new] new
    by (auto simp: hash_insert_if_absent_def find_entry_False [OF t(1)])
next
  case True
  let ?c = "tn_grown (ht_tuning t) (ht_n_buckets t)"
  obtain ok t1 where r: "hash_rehash t ?c = Ret (ok, t1)" "ht_ok h cmp key t1"
    "ht_abs key t1 = ht_abs key t" "ht_mem t1 = []" "\<not> ok \<Longrightarrow> t1 = t"
    using hash_rehash_ok [OF t] by blast
  have new1: "ht_abs key t1 (key e) = None"
    using new r(3) by simp
  obtain t2 where "insert_at t1 (h e (ht_n_buckets t1)) e = (1, None, t2)" "ht_ok h cmp key t2"
    "ht_abs key t2 = (ht_abs key t1)(key e \<mapsto> e)" "ht_mem t2 = []"
    using insert_at_ok [OF r(2,4) new1] .
  then show ?thesis
    using that r True new new1
    by (cases ok; cases "SIZE_MAX \<le> ?c")
       (simp_all add: hash_insert_if_absent_def find_entry_False [OF t(1)] find_entry_False [OF r(2)])
qed

lemma remove_first_mset:
  "List.find p xs = Some d \<Longrightarrow> add_mset d (mset (remove_first p xs)) = mset xs"
  by (induction xs) (auto split: if_splits)

lemma core_remove:
  assumes t: "ht_ok h cmp key t" and d: "ht_abs key t (key e) = Some d"
    and n: "n = h e (ht_n_buckets t)"
    and b: "ht_bucket t' = (ht_bucket t)[n := remove_first (cmp e) (ht_bucket t ! n)]"
    and u: "ht_n_buckets_used t' = ht_n_buckets_used t - (if ht_bucket t' ! n = [] then 1 else 0)"
    and f: "ht_n_entries t' = ht_n_entries t - 1" "ht_hasher t' = ht_hasher t"
      "ht_comparator t' = ht_comparator t"
  shows "ht_ok h cmp key t'" "ht_abs key t' = (ht_abs key t)(key e := None)"
proof -
  let ?c = "ht_bucket t ! n" and ?c' = "remove_first (cmp e) (ht_bucket t ! n)"
  have len: "n < length (ht_bucket t)"
    using t n by (simp add: ht_ok_def h_less)
  have fd: "List.find (cmp e) ?c = Some d"
    using find_bucket [OF t] d n by simp
  have mc: "add_mset d (mset ?c') = mset ?c"
    by (rule remove_first_mset [OF fd])
  have ms: "add_mset d (mset (ht_entries t')) = mset (ht_entries t)"
    using mset_concat_update [OF len, of ?c'] unfolding ht_entries_def b mc [symmetric] by simp
  have ne: "?c \<noteq> []"
    using mc by auto
  have "used_count (ht_bucket t') = ht_n_buckets_used t'"
    using used_count_update [OF len, of ?c'] t ne len unfolding u
    by (auto simp: b ht_ok_def hash_table_ok_def)
  moreover have "length (ht_entries t') = ht_n_entries t'"
    using arg_cong [OF ms, of size] t f by (simp add: ht_ok_def hash_table_ok_def)
  moreover have "placed h (ht_bucket t')"
    unfolding b
  proof (rule placed_update)
    show "placed h (ht_bucket t)" "n < length (ht_bucket t)"
      using t len by (simp_all add: ht_ok_def)
    fix x assume "x \<in> set ?c'"
    then have "x \<in> set ?c"
      using arg_cong [OF mc, of set_mset] by auto
    then show "h x (length (ht_bucket t)) = n"
      using t len by (simp add: ht_ok_def placed_def)
  qed
  moreover have dist: "distinct (map key (d # ht_entries t'))"
  proof -
    have "mset (map key (d # ht_entries t')) = mset (map key (ht_entries t))"
      using ms by (metis mset.simps(2) mset_map)
    then show ?thesis
      using t mset_eq_imp_distinct_iff unfolding ht_ok_def by blast
  qed
  ultimately show "ht_ok h cmp key t'"
    using t f b by (simp add: ht_ok_def hash_table_ok_def)
  have sets: "set (ht_entries t) = insert d (set (ht_entries t'))"
    using arg_cong [OF ms, of set_mset] by simp
  have kd: "key d = key e" and dt: "distinct (map key (ht_entries t))"
    using t d by (simp_all add: ht_ok_def ht_abs_Some)
  show "ht_abs key t' = (ht_abs key t)(key e := None)"
    using ht_abs_insert [OF dt _ _ sets] dist kd by (auto simp: ht_abs_None)
qed

lemma hash_delete_absent:
  "ht_ok h cmp key t \<Longrightarrow> ht_abs key t (key e) = None \<Longrightarrow> hash_delete t e = Ret (None, t)"
  using find_bucket [of t e]
  by (simp add: hash_delete_def hash_find_entry_def safe_hasher_Ret ht_ok_def Let_def)

lemma ht_free_update [simp]:
  "ht_ok h cmp key (t\<lparr>ht_free := n\<rparr>) = ht_ok h cmp key t"
  "ht_abs key (t\<lparr>ht_free := n\<rparr>) = ht_abs key t"
  by (auto simp: ht_ok_def hash_table_ok_def ht_entries_def ht_abs_def)

lemma hash_delete_present:
  assumes t: "ht_ok h cmp key t" "ht_mem t = []" and d: "ht_abs key t (key e) = Some d"
  obtains t' where "hash_delete t e = Ret (Some d, t')" "ht_ok h cmp key t'"
    "ht_abs key t' = (ht_abs key t)(key e := None)" "ht_mem t' = []" "ht_tuning t' = ht_tuning t"
proof -
  let ?n = "h e (ht_n_buckets t)"
  let ?bs = "(ht_bucket t)[?n := remove_first (cmp e) (ht_bucket t ! ?n)]"
  let ?fr = "ht_free t + (if length (ht_bucket t ! ?n) > 1 then 1 else 0)"
  let ?t2 = "t\<lparr>ht_bucket := ?bs, ht_free := ?fr, ht_n_entries := ht_n_entries t - 1\<rparr>"
  let ?t3 = "?t2\<lparr>ht_n_buckets_used := ht_n_buckets_used t - (if ?bs ! ?n = [] then 1 else 0)\<rparr>"
  have find: "hash_find_entry t e True = Ret (Some d, ?n, t\<lparr>ht_bucket := ?bs, ht_free := ?fr\<rparr>)"
    using find_bucket [OF t(1), of e] d t(1)
    by (simp add: hash_find_entry_def safe_hasher_Ret ht_ok_def Let_def)
  have ok3: "ht_ok h cmp key ?t3" "ht_abs key ?t3 = (ht_abs key t)(key e := None)"
    by (rule core_remove [OF t(1) d refl]; simp)+
  have m3: "ht_mem ?t3 = []"
    using t(2) by simp
  show ?thesis
  proof (cases "?bs ! ?n = [] \<and>
      tn_sparse (ht_tuning ?t3) (ht_n_buckets_used ?t3) (ht_n_buckets ?t3)")
    case False
    then have "hash_delete t e = Ret (Some d, ?t3)"
      by (auto simp: hash_delete_def find Let_def)
    then show ?thesis
      using that [OF _ ok3 m3] by simp
  next
    case True
    let ?c = "tn_shrunk (ht_tuning ?t3) (ht_n_buckets ?t3)"
    obtain ok t4 where r: "hash_rehash ?t3 ?c = Ret (ok, t4)" "ht_ok h cmp key t4"
      "ht_abs key t4 = ht_abs key ?t3" "ht_mem t4 = []" "ht_tuning t4 = ht_tuning ?t3"
      using hash_rehash_ok [OF ok3(1) m3] by blast
    have "hash_delete t e = Ret (Some d, if ok then t4 else t4\<lparr>ht_free := 0\<rparr>)"
    proof -
      have "?bs ! ?n = []"
        and "tn_sparse (ht_tuning t) (ht_n_buckets_used t - 1) (ht_n_buckets t)"
        using True by auto
      then show ?thesis
        using r(1) by (simp add: hash_delete_def find Let_def)
    qed
    then show ?thesis
      using that r(2-5) ok3(2) by (cases ok) auto
  qed
qed

lemma insert_at_tuning: "ht_tuning (snd (snd (insert_at t n e))) = ht_tuning t"
  by (auto simp: insert_at_def allocate_entry_def malloc_ok_def split: list.splits bool.splits)

text \<open>Inserting an absent key while memory suffices.\<close>

lemma hash_insert_new:
  assumes t: "ht_ok h cmp key t" "mem_ok t" and new: "ht_abs key t (key e) = None"
  obtains t' where "hash_insert_if_absent t e = Ret (1, None, t')" "ht_ok h cmp key t'"
    "ht_abs key t' = (ht_abs key t)(key e \<mapsto> e)" "mem_ok t'"
proof (cases "tn_full (ht_tuning t) (ht_n_buckets_used t) (ht_n_buckets t)")
  have m: "ht_mem t = []"
    using t(2) by (simp add: mem_ok_def)
  case False
  obtain t' where "insert_at t (h e (ht_n_buckets t)) e = (1, None, t')" "ht_ok h cmp key t'"
    "ht_abs key t' = (ht_abs key t)(key e \<mapsto> e)" "ht_mem t' = []"
    using insert_at_ok [OF t(1) m new] .
  then show ?thesis
    using that [of t'] False new t(2) insert_at_tuning [of t "h e (ht_n_buckets t)" e]
    by (simp add: hash_insert_if_absent_def find_entry_False [OF t(1)] mem_ok_def)
next
  have m: "ht_mem t = []"
    using t(2) by (simp add: mem_ok_def)
  case True
  let ?c = "tn_grown (ht_tuning t) (ht_n_buckets t)"
  obtain ok t1 where r: "hash_rehash t ?c = Ret (ok, t1)" "ht_ok h cmp key t1"
    "ht_abs key t1 = ht_abs key t" "ht_mem t1 = []" "ht_tuning t1 = ht_tuning t"
    using hash_rehash_ok [OF t(1) m] by blast
  have grow: "?c < SIZE_MAX" "compute_bucket_size ?c (ht_tuning t) \<noteq> 0"
    using t(2) True by (auto simp: mem_ok_def)
  have ok
    using r(1) grow(2) hash_rehash_True [OF t(1) m] by fastforce
  have new1: "ht_abs key t1 (key e) = None"
    using new r(3) by simp
  obtain t2 where i: "insert_at t1 (h e (ht_n_buckets t1)) e = (1, None, t2)" "ht_ok h cmp key t2"
    "ht_abs key t2 = (ht_abs key t1)(key e \<mapsto> e)" "ht_mem t2 = []"
    using insert_at_ok [OF r(2,4) new1] .
  have "ht_tuning t2 = ht_tuning t"
    using insert_at_tuning [of t1 "h e (ht_n_buckets t1)" e] i(1) r(5) by simp
  then have "mem_ok t2"
    using i(4) t(2) by (simp add: mem_ok_def)
  moreover have "hash_insert_if_absent t e = Ret (1, None, t2)"
    using r(1) i(1) grow(1) True new new1 \<open>ok\<close>
    by (simp add: hash_insert_if_absent_def find_entry_False [OF t(1)] find_entry_False [OF r(2)])
  ultimately show ?thesis
    using that i(2,3) r(3) by simp
qed

lemma modify_all_ok:
  assumes "ht_ok h cmp key t" "\<And>e. key (f e) = key e"
  shows "ht_ok h cmp key (t\<lparr>ht_bucket := map (map f) (ht_bucket t)\<rparr>)"
    "ht_abs key (t\<lparr>ht_bucket := map (map f) (ht_bucket t)\<rparr>) k = map_option f (ht_abs key t k)"
proof -
  have "key \<circ> f = key"
    using assms(2) by auto
  moreover have "h (f e) n = h e n" for e n
    by (rule h_key [OF assms(2)])
  ultimately show "ht_ok h cmp key (t\<lparr>ht_bucket := map (map f) (ht_bucket t)\<rparr>)"
    using assms(1) by (auto simp: ht_ok_def hash_table_ok_def ht_entries_def placed_def map_concat
        [symmetric])
  show "ht_abs key (t\<lparr>ht_bucket := map (map f) (ht_bucket t)\<rparr>) k = map_option f (ht_abs key t k)"
    by (simp add: ht_abs_def ht_entries_def map_concat [symmetric] find_map_key [of key f, OF assms(2)])
qed

lemma ht_ok_same_keys:
  assumes "ht_ok h cmp key t" "map (map key) bs = map (map key) (ht_bucket t)"
  shows "ht_ok h cmp key (t\<lparr>ht_bucket := bs\<rparr>)"
proof -
  have len: "length bs = ht_n_buckets t"
    using arg_cong [OF assms(2), of length] by simp
  have bucket: "map key (bs ! i) = map key (ht_bucket t ! i)" if "i < length bs" for i
    using arg_cong [OF assms(2), of "\<lambda>x. x ! i"] that len by simp
  have "placed h bs"
    unfolding placed_def
  proof (intro allI impI ballI)
    fix i e assume i: "i < length bs" and e: "e \<in> set (bs ! i)"
    then have "key e \<in> key ` set (ht_bucket t ! i)"
      using bucket [OF i] by (metis image_eqI image_set)
    then obtain e' where "e' \<in> set (ht_bucket t ! i)" "key e = key e'"
      by auto
    then show "h e (length bs) = i"
      using assms(1) i len h_key [of e e'] by (simp add: ht_ok_def placed_def)
  qed
  moreover have keys: "map key (concat bs) = map key (concat (ht_bucket t))"
    using arg_cong [OF assms(2), of concat] by (simp add: map_concat)
  moreover have "length (concat bs) = length (concat (ht_bucket t))"
    using arg_cong [OF keys, of length] by simp
  moreover have "used_count bs = used_count (ht_bucket t)"
    using arg_cong [OF assms(2), of used_count] by simp
  ultimately show ?thesis
    using assms(1) len by (simp add: ht_ok_def hash_table_ok_def ht_entries_def)
qed

lemma hash_initialize_ok:
  assumes "compute_bucket_size n tn \<noteq> 0"
  obtains t where "hash_initialize [] n tn h cmp = Some t" "ht_ok h cmp key t"
    "ht_abs key t = Map.empty" "ht_mem t = []" "ht_tuning t = tn" "ht_entries t = []"
proof -
  let ?t = "\<lparr>ht_bucket = replicate (compute_bucket_size n tn) [], ht_n_buckets_used = 0,
    ht_n_entries = 0, ht_tuning = tn, ht_hasher = h, ht_comparator = cmp, ht_free = 0, ht_mem = []\<rparr>"
  have "hash_initialize [] n tn h cmp = Some ?t"
    using assms by (simp add: hash_initialize_def Let_def malloc_ok_def)
  moreover have "ht_ok h cmp key ?t" "ht_abs key ?t = Map.empty" "ht_entries ?t = []"
    using assms by (simp_all add: ht_ok_def hash_table_ok_def ht_entries_def ht_abs_def fun_eq_iff)
  ultimately show ?thesis
    using that by simp
qed

lemma mem_ok_bucket [simp]: "mem_ok (t\<lparr>ht_bucket := bs\<rparr>) = mem_ok t"
  by (simp add: mem_ok_def)

lemma hash_modify_ok:
  assumes "ht_ok h cmp key t" "\<And>e. key (f e) = key e"
  shows "ht_ok h cmp key (hash_modify (\<lambda>e. key e = k) f t)"
    "ht_abs key (hash_modify (\<lambda>e. key e = k) f t) =
       (ht_abs key t)(k := map_option f (ht_abs key t k))"
proof -
  have k: "key (if key e = k then f e else e) = key e" for e
    using assms(2) by simp
  show "ht_ok h cmp key (hash_modify (\<lambda>e. key e = k) f t)"
    unfolding hash_modify_def by (rule modify_all_ok(1) [OF assms(1) k])
  show "ht_abs key (hash_modify (\<lambda>e. key e = k) f t) =
      (ht_abs key t)(k := map_option f (ht_abs key t k))"
  proof
    fix j
    have "ht_abs key t j = Some e \<Longrightarrow> key e = j" for e
      using assms(1) by (simp add: ht_ok_def ht_abs_Some)
    then show "ht_abs key (hash_modify (\<lambda>e. key e = k) f t) j =
        ((ht_abs key t)(k := map_option f (ht_abs key t k))) j"
      unfolding hash_modify_def modify_all_ok(2) [OF assms(1) k]
      by (cases "ht_abs key t j") auto
  qed
qed

end

end
