(* ===== verification/Mog_Ioutil.thy ===== *)
theory Mog_Ioutil
  imports Mog_Hash
begin

text \<open>
  \<^verbatim>\<open>ioutil.c\<close>: the table from device numbers to the last utilisation string that
  \<^verbatim>\<open>iostat\<close> reported, and its mark-and-sweep cleanup: \<^verbatim>\<open>mog_iou_cleanup_begin\<close> clears the
  mark of every record, each use of a device sets it again, and \<^verbatim>\<open>mog_iou_cleanup_finish\<close>
  deletes the records that stayed unmarked. Every operation runs under \<^verbatim>\<open>iou_lock\<close>, so it is
  one step here.
\<close>

section \<open>Model\<close>

text \<open>
  \<open>io_free_next\<close> names the record linked behind this one on the free list by its device number.
\<close>

record ioutil =
  io_st_dev :: nat
  io_in_use :: bool
  io_free_next :: "nat option"
  io_util :: string

definition iou_hash :: "ioutil \<Rightarrow> nat \<Rightarrow> nat" where
  "iou_hash iou tablesize = io_st_dev iou mod tablesize"

definition iou_cmp :: "ioutil \<Rightarrow> ioutil \<Rightarrow> bool" where
  "iou_cmp a b \<longleftrightarrow> io_st_dev a = io_st_dev b"

definition iou_constructor :: "bool list \<Rightarrow> hash_tuning \<Rightarrow> ioutil hash_table outcome" where
  "iou_constructor mem tn =
     (case hash_initialize mem 7 tn iou_hash iou_cmp of None \<Rightarrow> Abort | Some t \<Rightarrow> Ret t)"

definition cleanup_begin_i :: "ioutil \<Rightarrow> unit \<Rightarrow> bool \<times> ioutil \<times> unit" where
  "cleanup_begin_i iou unused = (True, iou\<lparr>io_in_use := False\<rparr>, unused)"

definition mog_iou_cleanup_begin :: "ioutil hash_table \<Rightarrow> ioutil hash_table" where
  "mog_iou_cleanup_begin t = fst (snd (hash_do_for_each t cleanup_begin_i ()))"

text \<open>
  The free list under construction, head first; \<open>Abort\<close> once the assertion on \<^verbatim>\<open>free_next\<close>
  has failed.
\<close>

definition freelist_append ::
  "ioutil \<Rightarrow> ioutil list outcome \<Rightarrow> bool \<times> ioutil \<times> ioutil list outcome" where
  "freelist_append iou fl =
     (if io_in_use iou then (True, iou, fl)
      else if io_free_next iou \<noteq> None then (False, iou, Abort)
      else (case fl of
              Ret free_head \<Rightarrow>
                let iou' = iou\<lparr>io_free_next :=
                  (case free_head of [] \<Rightarrow> None | nx # _ \<Rightarrow> Some (io_st_dev nx))\<rparr>
                in (True, iou', Ret (iou' # free_head))
            | _ \<Rightarrow> (False, iou, fl)))"

fun release_freelist :: "ioutil list \<Rightarrow> ioutil hash_table \<Rightarrow> ioutil hash_table outcome" where
  "release_freelist [] t = Ret t"
| "release_freelist (fl # nx) t =
     obind (hash_delete t fl) (\<lambda>(found, t').
       if found = Some fl then release_freelist nx t' else Abort)"

definition mog_iou_cleanup_finish :: "ioutil hash_table \<Rightarrow> ioutil hash_table outcome" where
  "mog_iou_cleanup_finish t =
     (case hash_do_for_each t freelist_append (Ret []) of
        (_, t', fl) \<Rightarrow> obind fl (\<lambda>l. release_freelist l t'))"

definition iou_lookup_key :: "nat \<Rightarrow> ioutil" where
  "iou_lookup_key st_dev = \<lparr>io_st_dev = st_dev, io_in_use = False, io_free_next = None, io_util = ''''\<rparr>"

text \<open>
  The new record's \<^verbatim>\<open>in_use\<close> is set by the assignment after the branch; a result other than 1
  of the insertion fails the \<^verbatim>\<open>CHECK\<close>.
\<close>

definition iou_vivify :: "nat \<Rightarrow> ioutil hash_table \<Rightarrow> ioutil hash_table outcome" where
  "iou_vivify st_dev t =
     obind (hash_lookup t (iou_lookup_key st_dev)) (\<lambda>iou.
       obind (case iou of
                Some _ \<Rightarrow> Ret t
              | None \<Rightarrow>
                  obind (hash_insert_if_absent t
                           \<lparr>io_st_dev = st_dev, io_in_use = False, io_free_next = None, io_util = ''-''\<rparr>)
                    (\<lambda>(r, _, t'). if r = 1 then Ret t' else Abort))
         (\<lambda>t1. Ret (hash_modify (\<lambda>e. io_st_dev e = st_dev) (\<lambda>e. e\<lparr>io_in_use := True\<rparr>) t1)))"

text \<open>The pointer \<^verbatim>\<open>iou_vivify\<close> returns is the record of its device number.\<close>

definition mog_iou_read :: "nat \<Rightarrow> ioutil hash_table \<Rightarrow> (string \<times> ioutil hash_table) outcome" where
  "mog_iou_read st_dev t =
     obind (iou_vivify st_dev t) (\<lambda>t1.
       obind (hash_lookup t1 (iou_lookup_key st_dev)) (\<lambda>iou.
         case iou of Some e \<Rightarrow> Ret (io_util e, t1) | None \<Rightarrow> Abort))"

definition mog_iou_write :: "nat \<Rightarrow> string \<Rightarrow> ioutil hash_table \<Rightarrow> ioutil hash_table outcome" where
  "mog_iou_write st_dev buf t =
     obind (iou_vivify st_dev t) (\<lambda>t1.
       Ret (hash_modify (\<lambda>e. io_st_dev e = st_dev) (\<lambda>e. e\<lparr>io_util := buf\<rparr>) t1))"

definition mog_iou_active :: "nat \<Rightarrow> ioutil hash_table \<Rightarrow> ioutil hash_table outcome" where
  "mog_iou_active st_dev t = iou_vivify st_dev t"

interpretation iou: hash_client iou_hash iou_cmp io_st_dev
  by unfold_locales (auto simp: iou_hash_def iou_cmp_def)

section \<open>Abstract state\<close>

text \<open>What the table means: for each device number the mark and the utilisation string.\<close>

definition iou_abs :: "ioutil hash_table \<Rightarrow> nat \<rightharpoonup> bool \<times> string" where
  "iou_abs t d = map_option (\<lambda>e. (io_in_use e, io_util e)) (ht_abs io_st_dev t d)"

definition iou_ok :: "ioutil hash_table \<Rightarrow> bool" where
  "iou_ok t \<longleftrightarrow> ht_ok iou_hash iou_cmp io_st_dev t \<and> mem_ok t \<and>
     (\<forall>e \<in> set (ht_entries t). io_free_next e = None)"

text \<open>The uses of devices between the two halves of a cleanup.\<close>

datatype iou_op = Iou_active nat | Iou_read nat | Iou_write nat string

fun iou_op_dev :: "iou_op \<Rightarrow> nat" where
  "iou_op_dev (Iou_active d) = d"
| "iou_op_dev (Iou_read d) = d"
| "iou_op_dev (Iou_write d _) = d"

fun iou_step :: "iou_op \<Rightarrow> ioutil hash_table \<Rightarrow> ioutil hash_table outcome" where
  "iou_step (Iou_active d) t = mog_iou_active d t"
| "iou_step (Iou_read d) t = obind (mog_iou_read d t) (\<lambda>(_, t'). Ret t')"
| "iou_step (Iou_write d buf) t = mog_iou_write d buf t"

fun iou_run :: "iou_op list \<Rightarrow> ioutil hash_table \<Rightarrow> ioutil hash_table outcome" where
  "iou_run [] t = Ret t"
| "iou_run (opn # ops) t = obind (iou_step opn t) (iou_run ops)"

text \<open>The specification over the map.\<close>

definition viv :: "nat \<Rightarrow> (nat \<rightharpoonup> bool \<times> string) \<Rightarrow> nat \<rightharpoonup> bool \<times> string" where
  "viv d m = m(d \<mapsto> (True, case m d of None \<Rightarrow> ''-'' | Some (_, u) \<Rightarrow> u))"

fun spec_step :: "iou_op \<Rightarrow> (nat \<rightharpoonup> bool \<times> string) \<Rightarrow> nat \<rightharpoonup> bool \<times> string" where
  "spec_step (Iou_active d) m = viv d m"
| "spec_step (Iou_read d) m = viv d m"
| "spec_step (Iou_write d buf) m = (viv d m)(d \<mapsto> (True, buf))"

lemma ht_abs_Some_set:
  "ht_ok h cmp key t \<Longrightarrow> ht_abs key t k = Some e \<longleftrightarrow> e \<in> set (ht_entries t) \<and> key e = k"
  by (simp add: ht_ok_def ht_abs_Some)

lemma free_next_abs:
  "ht_ok iou_hash iou_cmp io_st_dev t \<Longrightarrow>
     (\<forall>e \<in> set (ht_entries t). io_free_next e = None) \<longleftrightarrow>
     (\<forall>d e. ht_abs io_st_dev t d = Some e \<longrightarrow> io_free_next e = None)"
  by (auto simp: ht_abs_Some_set)

lemma iou_modify:
  assumes "iou_ok t" "\<And>e. io_st_dev (f e) = io_st_dev e" "\<And>e. io_free_next (f e) = io_free_next e"
  shows "iou_ok (hash_modify (\<lambda>e. io_st_dev e = d) f t)"
    "ht_abs io_st_dev (hash_modify (\<lambda>e. io_st_dev e = d) f t) =
       (ht_abs io_st_dev t)(d := map_option f (ht_abs io_st_dev t d))"
proof -
  have ok: "ht_ok iou_hash iou_cmp io_st_dev t"
    using assms(1) by (simp add: iou_ok_def)
  note m = iou.hash_modify_ok [of t f d, OF ok assms(2)]
  show "ht_abs io_st_dev (hash_modify (\<lambda>e. io_st_dev e = d) f t) =
       (ht_abs io_st_dev t)(d := map_option f (ht_abs io_st_dev t d))"
    by (rule m(2))
  have "mem_ok (hash_modify (\<lambda>e. io_st_dev e = d) f t)"
    using assms(1) by (simp add: iou_ok_def hash_modify_def mem_ok_def)
  then show "iou_ok (hash_modify (\<lambda>e. io_st_dev e = d) f t)"
    using assms(1,3) m(1) unfolding iou_ok_def free_next_abs [OF m(1)] free_next_abs [OF ok] m(2)
    by auto
qed

lemma iou_vivify_ok:
  assumes "iou_ok t"
  obtains t' where "iou_vivify d t = Ret t'" "iou_ok t'" "iou_abs t' = viv d (iou_abs t)"
proof -
  have ok: "ht_ok iou_hash iou_cmp io_st_dev t" "mem_ok t"
    using assms by (simp_all add: iou_ok_def)
  let ?new = "\<lparr>io_st_dev = d, io_in_use = False, io_free_next = None, io_util = ''-''\<rparr>"
  let ?mark = "hash_modify (\<lambda>e. io_st_dev e = d) (\<lambda>e. e\<lparr>io_in_use := True\<rparr>)"
  have mark: "iou_ok (?mark t1)"
    "ht_abs io_st_dev (?mark t1) = (ht_abs io_st_dev t1)
       (d := map_option (\<lambda>e. e\<lparr>io_in_use := True\<rparr>) (ht_abs io_st_dev t1 d))" if "iou_ok t1" for t1
    by (rule iou_modify [OF that]; simp)+
  show ?thesis
  proof (cases "ht_abs io_st_dev t d")
    case (Some e)
    have "iou_vivify d t = Ret (?mark t)"
      by (simp add: iou_vivify_def iou.hash_lookup_abs [OF ok(1)] iou_lookup_key_def Some)
    then show ?thesis
      using that mark [OF assms] Some by (simp add: iou_abs_def viv_def fun_eq_iff)
  next
    case None
    then obtain t1 where t1: "hash_insert_if_absent t ?new = Ret (1, None, t1)"
      "ht_ok iou_hash iou_cmp io_st_dev t1" "ht_abs io_st_dev t1 = (ht_abs io_st_dev t)(d \<mapsto> ?new)"
      "mem_ok t1"
      using iou.hash_insert_new [OF ok, of ?new] by auto
    have ok1: "iou_ok t1"
      using assms t1(2,4) unfolding iou_ok_def free_next_abs [OF ok(1)] free_next_abs [OF t1(2)] t1(3)
      by auto
    have "iou_vivify d t = Ret (?mark t1)"
      by (simp add: iou_vivify_def iou.hash_lookup_abs [OF ok(1)] iou_lookup_key_def None t1(1))
    then show ?thesis
      using that mark [OF ok1] t1(3) None by (simp add: iou_abs_def viv_def fun_eq_iff)
  qed
qed

lemma iou_step_ok:
  assumes "iou_ok t"
  obtains t' where "iou_step opn t = Ret t'" "iou_ok t'" "iou_abs t' = spec_step opn (iou_abs t)"
proof -
  obtain t1 where t1: "iou_vivify (iou_op_dev opn) t = Ret t1" "iou_ok t1"
    "iou_abs t1 = viv (iou_op_dev opn) (iou_abs t)"
    using iou_vivify_ok [OF assms] .
  have ok: "ht_ok iou_hash iou_cmp io_st_dev t1"
    using t1(2) by (simp add: iou_ok_def)
  show ?thesis
  proof (cases opn)
    case (Iou_active d)
    then show ?thesis
      using that t1 by (simp add: mog_iou_active_def)
  next
    case (Iou_read d)
    have "\<exists>e. ht_abs io_st_dev t1 d = Some e"
      using fun_cong [OF t1(3), of d] Iou_read by (auto simp: iou_abs_def viv_def)
    then have "iou_step opn t = Ret t1"
      using t1(1) Iou_read
      by (auto simp: mog_iou_read_def iou.hash_lookup_abs [OF ok] iou_lookup_key_def)
    then show ?thesis
      using that t1 Iou_read by simp
  next
    case (Iou_write d buf)
    let ?t = "hash_modify (\<lambda>e. io_st_dev e = d) (\<lambda>e. e\<lparr>io_util := buf\<rparr>) t1"
    have m: "iou_ok ?t" "ht_abs io_st_dev ?t =
        (ht_abs io_st_dev t1)(d := map_option (\<lambda>e. e\<lparr>io_util := buf\<rparr>) (ht_abs io_st_dev t1 d))"
      by (rule iou_modify [OF t1(2)]; simp)+
    have "iou_abs ?t = (iou_abs t1)(d \<mapsto> (True, buf))"
      using fun_cong [OF t1(3), of d] m(2) Iou_write by (auto simp: iou_abs_def viv_def fun_eq_iff)
    then show ?thesis
      using that m(1) t1 Iou_write by (simp add: mog_iou_write_def)
  qed
qed

lemma iou_run_ok:
  "iou_ok t \<Longrightarrow>
     \<exists>t'. iou_run ops t = Ret t' \<and> iou_ok t' \<and> iou_abs t' = fold spec_step ops (iou_abs t)"
proof (induction ops arbitrary: t)
  case (Cons opn ops)
  obtain t1 where t1: "iou_step opn t = Ret t1" "iou_ok t1" "iou_abs t1 = spec_step opn (iou_abs t)"
    using iou_step_ok [OF Cons.prems] .
  then show ?case
    using Cons.IH [OF t1(2)] by simp
qed simp

subsection \<open>Cleanup\<close>

lemma cleanup_begin_ok:
  assumes "iou_ok t"
  shows "iou_ok (mog_iou_cleanup_begin t)"
    "iou_abs (mog_iou_cleanup_begin t) d = map_option (\<lambda>(_, u). (False, u)) (iou_abs t d)"
proof -
  let ?f = "\<lambda>e. e\<lparr>io_in_use := False\<rparr>"
  have eq: "mog_iou_cleanup_begin t = t\<lparr>ht_bucket := map (map ?f) (ht_bucket t)\<rparr>"
    using hash_do_for_each_map [of t ?f "\<lambda>_ s. s" "()"]
    by (simp add: mog_iou_cleanup_begin_def cleanup_begin_i_def [abs_def])
  have ok: "ht_ok iou_hash iou_cmp io_st_dev t"
    using assms by (simp add: iou_ok_def)
  have m: "ht_ok iou_hash iou_cmp io_st_dev (mog_iou_cleanup_begin t)"
    "ht_abs io_st_dev (mog_iou_cleanup_begin t) k = map_option ?f (ht_abs io_st_dev t k)" for k
    unfolding eq by (rule iou.modify_all_ok [OF ok]; simp)+
  have "mem_ok (mog_iou_cleanup_begin t)"
    using assms by (simp add: eq iou_ok_def mem_ok_def)
  then show "iou_ok (mog_iou_cleanup_begin t)"
    using assms m(1) unfolding iou_ok_def free_next_abs [OF m(1)] free_next_abs [OF ok] m(2) by auto
  show "iou_abs (mog_iou_cleanup_begin t) d = map_option (\<lambda>(_, u). (False, u)) (iou_abs t d)"
    by (cases "ht_abs io_st_dev t d") (simp_all add: iou_abs_def m(2))
qed

text \<open>Building the free list only links the unmarked records; it changes no key, mark or string.\<close>

definition unlinked :: "ioutil \<Rightarrow> ioutil" where
  "unlinked e = e\<lparr>io_free_next := None\<rparr>"

definition link_ok :: "ioutil \<Rightarrow> ioutil \<Rightarrow> bool" where
  "link_ok e e' \<longleftrightarrow> unlinked e' = e \<and> (io_in_use e \<longrightarrow> e' = e)"

lemma freelist_list:
  "\<forall>e \<in> set es. io_free_next e = None \<Longrightarrow>
     \<exists>es'. for_each_list freelist_append es (Ret fl) =
             (length es, True, es', Ret (rev (filter (\<lambda>e. \<not> io_in_use e) es') @ fl)) \<and>
           list_all2 link_ok es es'"
proof (induction es arbitrary: fl)
  case (Cons e es)
  have nxt: "\<forall>e \<in> set es. io_free_next e = None"
    using Cons.prems by simp
  show ?case
  proof (cases "io_in_use e")
    case True
    have "freelist_append e (Ret fl) = (True, e, Ret fl)" "link_ok e e"
      using True Cons.prems by (simp_all add: freelist_append_def link_ok_def unlinked_def)
    moreover obtain es' where "for_each_list freelist_append es (Ret fl) =
        (length es, True, es', Ret (rev (filter (\<lambda>e. \<not> io_in_use e) es') @ fl))" "list_all2 link_ok es es'"
      using Cons.IH [OF nxt] by blast
    ultimately show ?thesis
      using True by (intro exI [of _ "e # es'"]) simp
  next
    case False
    let ?e = "e\<lparr>io_free_next := (case fl of [] \<Rightarrow> None | nx # _ \<Rightarrow> Some (io_st_dev nx))\<rparr>"
    have "freelist_append e (Ret fl) = (True, ?e, Ret (?e # fl))" "link_ok e ?e"
      using False Cons.prems by (simp_all add: freelist_append_def link_ok_def unlinked_def Let_def)
    moreover obtain es' where "for_each_list freelist_append es (Ret (?e # fl)) =
        (length es, True, es', Ret (rev (filter (\<lambda>e. \<not> io_in_use e) es') @ ?e # fl))"
      "list_all2 link_ok es es'"
      using Cons.IH [OF nxt] by blast
    ultimately show ?thesis
      using False by (intro exI [of _ "?e # es'"]) simp
  qed
qed simp

lemma freelist_buckets:
  "\<forall>e \<in> set (concat bs). io_free_next e = None \<Longrightarrow>
     \<exists>bs'. for_each_bucket freelist_append bs (Ret fl) =
             (length (concat bs), bs', Ret (rev (filter (\<lambda>e. \<not> io_in_use e) (concat bs')) @ fl)) \<and>
           list_all2 (list_all2 link_ok) bs bs'"
proof (induction bs arbitrary: fl)
  case (Cons b bs)
  obtain b' where b': "for_each_list freelist_append b (Ret fl) =
      (length b, True, b', Ret (rev (filter (\<lambda>e. \<not> io_in_use e) b') @ fl))" "list_all2 link_ok b b'"
    using freelist_list [of b fl] Cons.prems by auto
  obtain bs' where "for_each_bucket freelist_append bs (Ret (rev (filter (\<lambda>e. \<not> io_in_use e) b') @ fl)) =
      (length (concat bs), bs', Ret (rev (filter (\<lambda>e. \<not> io_in_use e) (concat bs')) @
         rev (filter (\<lambda>e. \<not> io_in_use e) b') @ fl))" "list_all2 (list_all2 link_ok) bs bs'"
    using Cons.IH [of "rev (filter (\<lambda>e. \<not> io_in_use e) b') @ fl"] Cons.prems by auto
  then show ?case
    using b' by (intro exI [of _ "b' # bs'"]) simp
qed simp

lemma release_ok:
  assumes "ht_ok iou_hash iou_cmp io_st_dev t" "mem_ok t" "distinct (map io_st_dev fl)"
    "\<forall>e \<in> set fl. ht_abs io_st_dev t (io_st_dev e) = Some e"
  shows "\<exists>t'. release_freelist fl t = Ret t' \<and> ht_ok iou_hash iou_cmp io_st_dev t' \<and> mem_ok t' \<and>
    ht_abs io_st_dev t' = (ht_abs io_st_dev t) |` (- io_st_dev ` set fl)"
  using assms
proof (induction fl arbitrary: t)
  case (Cons e fl)
  have m: "ht_mem t = []"
    using Cons.prems(2) by (simp add: mem_ok_def)
  have e: "ht_abs io_st_dev t (io_st_dev e) = Some e"
    using Cons.prems(4) by simp
  obtain t1 where t1: "hash_delete t e = Ret (Some e, t1)" "ht_ok iou_hash iou_cmp io_st_dev t1"
    "ht_abs io_st_dev t1 = (ht_abs io_st_dev t)(io_st_dev e := None)" "ht_mem t1 = []"
    "ht_tuning t1 = ht_tuning t"
    by (rule iou.hash_delete_present [OF Cons.prems(1) m e])
  have m1: "mem_ok t1"
    using Cons.prems(2) unfolding mem_ok_def t1(4,5) by simp
  have d: "distinct (map io_st_dev fl)" "io_st_dev e \<notin> io_st_dev ` set fl"
    using Cons.prems(3) by auto
  have rest: "\<forall>e' \<in> set fl. ht_abs io_st_dev t1 (io_st_dev e') = Some e'"
    using Cons.prems(4) d(2) unfolding t1(3) by (metis fun_upd_other imageI list.set_intros(2))
  have "((ht_abs io_st_dev t)(io_st_dev e := None)) |` (- io_st_dev ` set fl) =
      (ht_abs io_st_dev t) |` (- io_st_dev ` set (e # fl))"
    by (auto simp: restrict_map_def fun_eq_iff)
  moreover obtain t' where "release_freelist fl t1 = Ret t'" "ht_ok iou_hash iou_cmp io_st_dev t'"
    "mem_ok t'" "ht_abs io_st_dev t' = (ht_abs io_st_dev t1) |` (- io_st_dev ` set fl)"
    using Cons.IH [OF t1(2) m1 d(1) rest] by blast
  ultimately show ?case
    unfolding t1(3) by (intro exI [of _ t']) (simp add: t1(1))
qed (simp add: restrict_map_def)


lemma link_ok_fields:
  "link_ok e e' \<Longrightarrow> io_st_dev e' = io_st_dev e \<and> io_in_use e' = io_in_use e \<and> io_util e' = io_util e"
  by (auto simp: link_ok_def unlinked_def)

lemma marked_same: "list_all2 link_ok xs ys \<Longrightarrow> io_in_use e \<Longrightarrow> e \<in> set ys \<longleftrightarrow> e \<in> set xs"
  by (induction rule: list_all2_induct) (auto simp: link_ok_def unlinked_def)

lemma list_all2_concat_intro: "list_all2 (list_all2 r) xs ys \<Longrightarrow> list_all2 r (concat xs) (concat ys)"
  by (induction rule: list_all2_induct) (auto intro: list_all2_appendI)

lemma list_all2_map_eq: "list_all2 r xs ys \<Longrightarrow> (\<And>x y. r x y \<Longrightarrow> f y = f x) \<Longrightarrow> map f ys = map f xs"
  by (induction rule: list_all2_induct) auto

lemma cleanup_finish_ok:
  assumes "iou_ok t"
  shows "\<exists>t'. mog_iou_cleanup_finish t = Ret t' \<and> iou_ok t' \<and>
    iou_abs t' = (\<lambda>d. case iou_abs t d of Some (True, u) \<Rightarrow> Some (True, u) | _ \<Rightarrow> None)"
proof -
  have ok: "ht_ok iou_hash iou_cmp io_st_dev t" and mem: "mem_ok t"
    and nxt: "\<forall>e \<in> set (concat (ht_bucket t)). io_free_next e = None"
    using assms by (simp_all add: iou_ok_def ht_entries_def)
  obtain bs where bs: "for_each_bucket freelist_append (ht_bucket t) (Ret []) =
      (length (concat (ht_bucket t)), bs, Ret (rev (filter (\<lambda>e. \<not> io_in_use e) (concat bs))))"
    "list_all2 (list_all2 link_ok) (ht_bucket t) bs"
    using freelist_buckets [OF nxt, of "[]"] by auto
  let ?t = "t\<lparr>ht_bucket := bs\<rparr>" and ?fl = "rev (filter (\<lambda>e. \<not> io_in_use e) (concat bs))"
  have keys: "map (map io_st_dev) bs = map (map io_st_dev) (ht_bucket t)"
    by (rule list_all2_map_eq [OF bs(2)]) (erule list_all2_map_eq, simp add: link_ok_fields)
  have ok1: "ht_ok iou_hash iou_cmp io_st_dev ?t"
    by (rule iou.ht_ok_same_keys [OF ok keys])
  have links: "list_all2 link_ok (ht_entries t) (ht_entries ?t)"
    using list_all2_concat_intro [OF bs(2)] by (simp add: ht_entries_def)
  have dist: "distinct (map io_st_dev (ht_entries ?t))"
    using ok1 by (simp add: ht_ok_def)
  have fl: "distinct (map io_st_dev ?fl)" "\<forall>e \<in> set ?fl. ht_abs io_st_dev ?t (io_st_dev e) = Some e"
    using dist
    by (simp_all add: ht_abs_Some distinct_map_filter flip: rev_map)
      (simp_all add: ht_entries_def distinct_map_filter)
  obtain t' where t': "release_freelist ?fl ?t = Ret t'" "ht_ok iou_hash iou_cmp io_st_dev t'"
    "mem_ok t'" "ht_abs io_st_dev t' = (ht_abs io_st_dev ?t) |` (- io_st_dev ` set ?fl)"
    using release_ok [OF ok1 _ fl] mem by auto
  have run: "mog_iou_cleanup_finish t = Ret t'"
    using bs(1) t'(1) by (simp add: mog_iou_cleanup_finish_def hash_do_for_each_def)
  have kept: "ht_abs io_st_dev t' d = Some e \<longleftrightarrow> ht_abs io_st_dev t d = Some e \<and> io_in_use e" for d e
  proof -
    have "ht_abs io_st_dev t' d = Some e \<longleftrightarrow> e \<in> set (ht_entries ?t) \<and> io_st_dev e = d \<and> io_in_use e"
    proof -
      have "io_st_dev e \<in> io_st_dev ` set ?fl \<longleftrightarrow> \<not> io_in_use e" if "e \<in> set (ht_entries ?t)"
        using that dist by (auto simp: ht_entries_def distinct_map inj_on_def)
      then show ?thesis
        unfolding t'(4) using ht_abs_Some [OF dist] by (auto simp: restrict_map_def)
    qed
    also have "\<dots> \<longleftrightarrow> e \<in> set (ht_entries t) \<and> io_st_dev e = d \<and> io_in_use e"
      using marked_same [OF links] by blast
    finally show ?thesis
      by (auto simp: ht_abs_Some_set [OF ok])
  qed
  have "iou_ok t'"
    using t'(2,3) assms unfolding iou_ok_def free_next_abs [OF t'(2)] free_next_abs [OF ok]
    by (auto simp: kept)
  moreover have "iou_abs t' d = (case iou_abs t d of Some (True, u) \<Rightarrow> Some (True, u) | _ \<Rightarrow> None)" for d
  proof -
    have "ht_abs io_st_dev t' d =
        (case ht_abs io_st_dev t d of None \<Rightarrow> None | Some e \<Rightarrow> if io_in_use e then Some e else None)"
      using kept [of d] by (cases "ht_abs io_st_dev t d") (simp_all, (metis not_None_eq)+)
    then show ?thesis
      by (simp add: iou_abs_def split: option.split)
  qed
  ultimately show ?thesis
    using run by auto
qed

lemma fold_spec_step:
  assumes "\<And>d. map_option snd (m d) = map_option snd (m0 d)"
  shows "fold spec_step ops m0 d =
      (if d \<in> iou_op_dev ` set ops then fold spec_step ops m d else m0 d)"
    and "d \<in> iou_op_dev ` set ops \<Longrightarrow> \<exists>u. fold spec_step ops m d = Some (True, u)"
    and "map_option snd (fold spec_step ops m d) = map_option snd (fold spec_step ops m0 d)"
proof (induction ops arbitrary: d rule: rev_induct)
  case Nil
  {
    case 1
    show ?case by simp
  next
    case 2
    then show ?case by simp
  next
    case 3
    show ?case using assms by simp
  }
next
  case (snoc opn ops)
  have same: "viv e (fold spec_step ops m) d =
      (if d = e then viv e (fold spec_step ops m0) d else fold spec_step ops m d)" for e d
    using snoc.IH(3) [of e]
    by (cases "fold spec_step ops m e"; cases "fold spec_step ops m0 e") (auto simp: viv_def)
  {
    case 1
    show ?case
      using same snoc.IH(1) [of d] by (cases opn) (auto simp: viv_def)
  next
    case 2
    then show ?case
      using snoc.IH(2) [of d] by (cases opn) (auto simp: viv_def)
  next
    case 3
    show ?case
      using snoc.IH(3) [of d] same by (cases opn) (auto simp: viv_def)
  }
qed


lemma iou_constructor_ok:
  assumes "compute_bucket_size 7 tn \<noteq> 0" "\<And>t :: ioutil hash_table. ht_mem t = [] \<Longrightarrow> ht_tuning t = tn \<Longrightarrow> mem_ok t"
  obtains t where "iou_constructor [] tn = Ret t" "iou_ok t" "iou_abs t = Map.empty"
proof -
  obtain t where "hash_initialize [] 7 tn iou_hash iou_cmp = Some t"
    "ht_ok iou_hash iou_cmp io_st_dev t" "ht_abs io_st_dev t = Map.empty" "ht_mem t = []"
    "ht_tuning t = tn" "ht_entries t = []"
    using iou.hash_initialize_ok [OF assms(1)] by blast
  then show ?thesis
    using that [of t] assms(2) [of t] by (simp add: iou_constructor_def iou_ok_def iou_abs_def fun_eq_iff)
qed


end
