(* ===== verification/Mog_Trywrite.thy ===== *)
theory Mog_Trywrite
  imports Mog_Prelude
begin

text \<open>
  \<^verbatim>\<open>trywrite.c\<close>: non-blocking output. \<^verbatim>\<open>mog_trywritev\<close> and \<^verbatim>\<open>mog_trysend\<close> try to hand a whole
  response to the kernel and stash what the kernel did not take in a \<^verbatim>\<open>struct mog_wbuf\<close>, which
  \<^verbatim>\<open>mog_tryflush\<close> drains later. The contract is that no byte is lost, repeated or reordered;
  it is stated once in the locale \<open>buffered_writer\<close> and both entry points interpret it.
\<close>

section \<open>Model\<close>

text \<open>
  One answer of the kernel to \<^verbatim>\<open>write\<close>, \<^verbatim>\<open>writev\<close> or \<^verbatim>\<open>send\<close>: it takes at most the given
  number of bytes (never more than it was offered), or fails with an \<^verbatim>\<open>errno\<close>.
  \<open>sk_sent\<close> is what the kernel has taken so far on the socket, \<open>sk_script\<close> its answers to come.
\<close>

datatype wres = Wrote nat | WErr errno

record sock =
  sk_sent :: bytes
  sk_script :: "wres list"

record mog_wbuf =
  wb_len :: nat
  wb_off :: nat
  wb_buf :: bytes

text \<open>A \<^verbatim>\<open>struct mog_wbuf *\<close>: \<^verbatim>\<open>NULL\<close>, the sentinel \<^verbatim>\<open>MOG_WR_ERROR\<close>, or a buffer.\<close>

datatype wbuf_ptr = WNull | WError | WBuf mog_wbuf

datatype mog_write_state = MOG_WRSTATE_ERR | MOG_WRSTATE_DONE | MOG_WRSTATE_BUSY

definition wbuf_newv :: "nat \<Rightarrow> bytes list \<Rightarrow> mog_wbuf" where
  "wbuf_newv tot iov = \<lparr>wb_len = tot, wb_off = 0, wb_buf = concat iov\<rparr>"

definition wbuf_new :: "bytes \<Rightarrow> nat \<Rightarrow> mog_wbuf" where
  "wbuf_new buf len = wbuf_newv len [take len buf]"

text \<open>The loop over the kernel's answers in \<^verbatim>\<open>mog_tryflush\<close>, from buffer offset \<open>wb_off\<close>.\<close>

fun tryflush_loop ::
  "wres list \<Rightarrow> bytes \<Rightarrow> mog_wbuf \<Rightarrow> (mog_write_state \<times> wbuf_ptr \<times> sock) outcome" where
  "tryflush_loop [] sent b = Starved"
| "tryflush_loop (WErr e # ks) sent b =
     (if e = EAGAIN then Ret (MOG_WRSTATE_BUSY, WBuf b, \<lparr>sk_sent = sent, sk_script = ks\<rparr>)
      else if e = EINTR then tryflush_loop ks sent b
      else Ret (MOG_WRSTATE_ERR, WNull, \<lparr>sk_sent = sent, sk_script = ks\<rparr>))"
| "tryflush_loop (Wrote n # ks) sent b =
     (let len = wb_len b - wb_off b; w = min n len;
          sent' = sent @ take w (drop (wb_off b) (wb_buf b))
      in if w = len then Ret (MOG_WRSTATE_DONE, WNull, \<lparr>sk_sent = sent', sk_script = ks\<rparr>)
         else tryflush_loop ks sent' (b\<lparr>wb_off := wb_off b + w\<rparr>))"

definition mog_tryflush :: "mog_wbuf \<Rightarrow> sock \<Rightarrow> (mog_write_state \<times> wbuf_ptr \<times> sock) outcome" where
  "mog_tryflush b sk = tryflush_loop (sk_script sk) (sk_sent sk) b"

text \<open>Skipping the iovecs the kernel took completely and shortening the partial one.\<close>

fun advance_iov :: "nat \<Rightarrow> bytes list \<Rightarrow> bytes list" where
  "advance_iov w [] = []"
| "advance_iov w (v # vs) =
     (if w = 0 then v # vs
      else if w < length v then drop w v # vs
      else advance_iov (w - length v) vs)"

fun trywritev_loop ::
  "wres list \<Rightarrow> bytes \<Rightarrow> nat \<Rightarrow> bytes list \<Rightarrow> (wbuf_ptr \<times> sock) outcome" where
  "trywritev_loop [] sent tot iov = Starved"
| "trywritev_loop (WErr e # ks) sent tot iov =
     (if e = EAGAIN then Ret (WBuf (wbuf_newv tot iov), \<lparr>sk_sent = sent, sk_script = ks\<rparr>)
      else if e = EINTR then trywritev_loop ks sent tot iov
      else Ret (WError, \<lparr>sk_sent = sent, sk_script = ks\<rparr>))"
| "trywritev_loop (Wrote n # ks) sent tot iov =
     (let w = min n (length (concat iov)); sent' = sent @ take w (concat iov)
      in if w = tot then Ret (WNull, \<lparr>sk_sent = sent', sk_script = ks\<rparr>)
         else trywritev_loop ks sent' (tot - w) (advance_iov w iov))"

definition mog_trywritev :: "bytes list \<Rightarrow> sock \<Rightarrow> (wbuf_ptr \<times> sock) outcome" where
  "mog_trywritev iov sk =
     (let tot = sum_list (map length iov)
      in if tot = 0 then Ret (WNull, sk)
         else trywritev_loop (sk_script sk) (sk_sent sk) tot iov)"

text \<open>\<^verbatim>\<open>mog_trysend\<close> where \<^verbatim>\<open>MSG_MORE\<close> is available (Linux); the flag does not change what is sent.\<close>

fun trysend_loop :: "wres list \<Rightarrow> bytes \<Rightarrow> bytes \<Rightarrow> (wbuf_ptr \<times> sock) outcome" where
  "trysend_loop [] sent buf = Starved"
| "trysend_loop (WErr e # ks) sent buf =
     (if e = EAGAIN
      then Ret (WBuf (wbuf_new buf (length buf)), \<lparr>sk_sent = sent, sk_script = ks\<rparr>)
      else if e = EINTR then trysend_loop ks sent buf
      else Ret (WError, \<lparr>sk_sent = sent, sk_script = ks\<rparr>))"
| "trysend_loop (Wrote n # ks) sent buf =
     (let w = min n (length buf); sent' = sent @ take w buf
      in if w = length buf then Ret (WNull, \<lparr>sk_sent = sent', sk_script = ks\<rparr>)
         else trysend_loop ks sent' (drop w buf))"

definition mog_trysend :: "bool \<Rightarrow> bytes \<Rightarrow> sock \<Rightarrow> (wbuf_ptr \<times> sock) outcome" where
  "mog_trysend msg_more buf sk =
     (if msg_more
      then (if buf = [] then Ret (WNull, sk) else trysend_loop (sk_script sk) (sk_sent sk) buf)
      else mog_trywritev [buf] sk)"

section \<open>Conservation of bytes\<close>

text \<open>What a buffer still owes the peer, and when a buffer is well formed.\<close>

fun pending :: "wbuf_ptr \<Rightarrow> bytes" where
  "pending WNull = []"
| "pending WError = []"
| "pending (WBuf b) = drop (wb_off b) (wb_buf b)"

fun wbuf_ok :: "wbuf_ptr \<Rightarrow> bool" where
  "wbuf_ok (WBuf b) \<longleftrightarrow> wb_len b = length (wb_buf b) \<and> wb_off b < wb_len b"
| "wbuf_ok _ \<longleftrightarrow> True"

definition wr_conserves :: "bytes \<Rightarrow> bytes \<Rightarrow> wbuf_ptr \<Rightarrow> sock \<Rightarrow> bool" where
  "wr_conserves sent msg r sk' \<longleftrightarrow>
     (if r = WError then sk_sent sk' \<in> (\<lambda>k. sent @ take k msg) ` {..<length msg}
      else wbuf_ok r \<and> sk_sent sk' @ pending r = sent @ msg)"

lemma concat_advance_iov: "concat (advance_iov w iov) = drop w (concat iov)"
  by (induction w iov rule: advance_iov.induct) auto

lemma trywritev_loop_conserves:
  assumes "trywritev_loop ks sent tot iov = Ret (r, sk')"
    and "tot = length (concat iov)" and "0 < tot"
  shows "wr_conserves sent (concat iov) r sk'"
  using assms
proof (induction ks sent tot iov rule: trywritev_loop.induct)
  case (2 e ks sent tot iov)
  then show ?case
    by (force simp: wr_conserves_def wbuf_newv_def split: if_splits)
next
  case (3 n ks sent tot iov)
  define w where "w = min n (length (concat iov))"
  show ?case
  proof (cases "w = tot")
    case True
    with 3 show ?thesis
      by (auto simp: wr_conserves_def w_def Let_def)
  next
    case False
    let ?iov = "advance_iov w iov" and ?sent = "sent @ take w (concat iov)"
    have w: "w < length (concat iov)"
      using False 3 by (auto simp: w_def)
    have "wr_conserves ?sent (concat ?iov) r sk'"
      using 3 False w by (auto simp: w_def [symmetric] Let_def concat_advance_iov)
    then have c: "wr_conserves ?sent (drop w (concat iov)) r sk'"
      by (simp add: concat_advance_iov)
    show ?thesis
    proof (cases "r = WError")
      case True
      with c obtain k where k: "k < length (concat iov) - w"
        "sk_sent sk' = sent @ take (w + k) (concat iov)"
        by (auto simp: wr_conserves_def take_add)
      then have "w + k < length (concat iov)" by simp
      with k(2) True show ?thesis by (auto simp: wr_conserves_def)
    next
      case False
      with c show ?thesis by (simp add: wr_conserves_def)
    qed
  qed
qed simp

text \<open>\<^verbatim>\<open>mog_trysend\<close> behaves as \<^verbatim>\<open>mog_trywritev\<close> on a single iovec.\<close>

lemma trysend_loop_eq:
  "buf \<noteq> [] \<Longrightarrow> trysend_loop ks sent buf = trywritev_loop ks sent (length buf) [buf]"
proof (induction ks sent buf rule: trysend_loop.induct)
  case (2 e ks sent buf)
  then show ?case by (simp add: wbuf_new_def)
next
  case (3 n ks sent buf)
  then show ?case
    by (auto simp: Let_def drop_min_length min_def not_le)
qed simp

lemma trysend_loop_conserves:
  assumes "trysend_loop ks sent buf = Ret (r, sk')" and "buf \<noteq> []"
  shows "wr_conserves sent buf r sk'"
proof -
  from assms have "trywritev_loop ks sent (length buf) [buf] = Ret (r, sk')"
    by (simp add: trysend_loop_eq)
  from trywritev_loop_conserves [OF this] assms(2) show ?thesis by simp
qed

lemma tryflush_loop_conserves:
  assumes "tryflush_loop ks sent b = Ret (st, r, sk')" and "wbuf_ok (WBuf b)"
  shows "case st of
      MOG_WRSTATE_DONE \<Rightarrow> r = WNull \<and> sk_sent sk' = sent @ pending (WBuf b)
    | MOG_WRSTATE_BUSY \<Rightarrow> r \<noteq> WError \<and> r \<noteq> WNull \<and> wbuf_ok r
        \<and> sk_sent sk' @ pending r = sent @ pending (WBuf b)
    | MOG_WRSTATE_ERR \<Rightarrow> r = WNull \<and> prefix (sk_sent sk') (sent @ pending (WBuf b))"
  using assms
proof (induction ks sent b rule: tryflush_loop.induct)
  case (2 e ks sent b)
  then show ?case by (auto split: if_splits)
next
  case (3 n ks sent b)
  define w where "w = min n (wb_len b - wb_off b)"
  show ?case
  proof (cases "w = wb_len b - wb_off b")
    case True
    with 3 show ?thesis by (auto simp: w_def Let_def)
  next
    case False
    let ?b = "b\<lparr>wb_off := wb_off b + w\<rparr>" and ?sent = "sent @ take w (drop (wb_off b) (wb_buf b))"
    have "w < wb_len b - wb_off b" using False by (simp add: w_def)
    then have ok: "wbuf_ok (WBuf ?b)" using 3 by simp
    have p: "?sent @ pending (WBuf ?b) = sent @ pending (WBuf b)"
      by simp
    have "tryflush_loop ks ?sent ?b = Ret (st, r, sk')"
      using 3(2) False by (simp add: w_def [symmetric] Let_def)
    from 3(1) [OF refl w_def refl False this ok] show ?thesis
      unfolding p .
  qed
qed simp

section \<open>The interface of the writers\<close>

text \<open>
  What \<^verbatim>\<open>http.c\<close>, \<^verbatim>\<open>http_get.c\<close> and \<^verbatim>\<open>mgmt.c\<close> rely on: a first attempt \<open>start\<close> to send
  the message \<open>msg m\<close>. A client that keeps the returned buffer and calls \<^verbatim>\<open>mog_tryflush\<close>
  whenever the socket is writable delivers exactly the message.
\<close>

text \<open>Flushing again after each time the socket filled up.\<close>

fun flush_again :: "nat \<Rightarrow> wbuf_ptr \<Rightarrow> sock \<Rightarrow> (mog_write_state \<times> wbuf_ptr \<times> sock) outcome" where
  "flush_again n WNull sk = Ret (MOG_WRSTATE_DONE, WNull, sk)"
| "flush_again n WError sk = Ret (MOG_WRSTATE_ERR, WError, sk)"
| "flush_again 0 (WBuf b) sk = Ret (MOG_WRSTATE_BUSY, WBuf b, sk)"
| "flush_again (Suc n) (WBuf b) sk =
     obind (mog_tryflush b sk) (\<lambda>(st, r, sk').
       if st = MOG_WRSTATE_BUSY then flush_again n r sk' else Ret (st, r, sk'))"

locale buffered_writer =
  fixes start :: "'m \<Rightarrow> sock \<Rightarrow> (wbuf_ptr \<times> sock) outcome"
    and msg :: "'m \<Rightarrow> bytes"
  assumes start_conserves:
    "start m sk = Ret (r, sk') \<Longrightarrow> wr_conserves (sk_sent sk) (msg m) r sk'"
begin

lemma flush_again_conserves:
  "flush_again n r sk = Ret (st, r', sk') \<Longrightarrow> wbuf_ok r \<Longrightarrow> r \<noteq> WError \<Longrightarrow>
   (if st = MOG_WRSTATE_ERR then prefix (sk_sent sk') (sk_sent sk @ pending r)
    else wbuf_ok r' \<and> r' \<noteq> WError \<and> sk_sent sk' @ pending r' = sk_sent sk @ pending r
      \<and> (st = MOG_WRSTATE_DONE \<longrightarrow> r' = WNull))"
proof (induction n r sk rule: flush_again.induct)
  case (4 n b sk)
  then obtain st1 r1 sk1 where f: "mog_tryflush b sk = Ret (st1, r1, sk1)"
    and k: "(if st1 = MOG_WRSTATE_BUSY then flush_again n r1 sk1 else Ret (st1, r1, sk1))
      = Ret (st, r', sk')"
    by auto
  note t = tryflush_loop_conserves [OF f [unfolded mog_tryflush_def] 4(3)]
  show ?case
  proof (cases "st1 = MOG_WRSTATE_BUSY")
    case True
    with k t have "flush_again n r1 sk1 = Ret (st, r', sk')" and "wbuf_ok r1" and "r1 \<noteq> WError"
      by simp_all
    from 4(1) [OF True this] t True show ?thesis by (simp split: if_splits)
  next
    case False
    with k t show ?thesis by (cases st1) auto
  qed
qed simp_all

lemma delivers_all:
  assumes "start m sk = Ret (r, sk1)" and "flush_again n r sk1 = Ret (MOG_WRSTATE_DONE, r', sk')"
  shows "sk_sent sk' = sk_sent sk @ msg m"
proof -
  have "r \<noteq> WError" using assms(2) by (cases r) auto
  with start_conserves [OF assms(1)] have "wbuf_ok r" "sk_sent sk1 @ pending r = sk_sent sk @ msg m"
    by (auto simp: wr_conserves_def)
  with flush_again_conserves [OF assms(2)] \<open>r \<noteq> WError\<close> show ?thesis by auto
qed

end

interpretation writev: buffered_writer mog_trywritev concat
proof
  fix iov sk r sk'
  assume a: "mog_trywritev iov sk = Ret (r, sk')"
  show "wr_conserves (sk_sent sk) (concat iov) r sk'"
  proof (cases "concat iov = []")
    case True
    with a show ?thesis
      by (simp add: mog_trywritev_def wr_conserves_def)
  next
    case False
    with a have "trywritev_loop (sk_script sk) (sk_sent sk) (length (concat iov)) iov = Ret (r, sk')"
      unfolding mog_trywritev_def Let_def length_concat [symmetric] by (auto split: if_splits)
    then show ?thesis
      by (rule trywritev_loop_conserves) (use False in auto)
  qed
qed

interpretation send: buffered_writer "mog_trysend mm" "\<lambda>buf. buf" for mm
proof
  fix buf sk r sk'
  assume a: "mog_trysend mm buf sk = Ret (r, sk')"
  show "wr_conserves (sk_sent sk) buf r sk'"
  proof (cases mm)
    case True
    show ?thesis
    proof (cases "buf = []")
      case True
      with a \<open>mm\<close> show ?thesis by (simp add: mog_trysend_def wr_conserves_def)
    next
      case False
      with a \<open>mm\<close> show ?thesis
        by (auto simp: mog_trysend_def intro: trysend_loop_conserves)
    qed
  next
    case False
    with a writev.start_conserves [of "[buf]"] show ?thesis by (simp add: mog_trysend_def)
  qed
qed

section \<open>Progress\<close>

text \<open>
  The retry loops end as soon as the kernel reports that the socket is full or broken, or
  has taken everything.
\<close>

lemma trywritev_loop_returns:
  "WErr e \<in> set ks \<Longrightarrow> e \<noteq> EINTR \<Longrightarrow> \<exists>r sk'. trywritev_loop ks sent tot iov = Ret (r, sk')"
  by (induction ks sent tot iov rule: trywritev_loop.induct) (auto simp: Let_def)

lemma trywritev_loop_takes_all:
  "tot = length (concat iov) \<Longrightarrow> 0 < tot \<Longrightarrow>
   tot \<le> length ks \<Longrightarrow> \<forall>k\<in>set ks. \<exists>n > 0. k = Wrote n \<Longrightarrow>
   \<exists>sk'. trywritev_loop ks sent tot iov = Ret (WNull, sk')"
proof (induction ks sent tot iov rule: trywritev_loop.induct)
  case (3 n ks sent tot iov)
  define w where "w = min n (length (concat iov))"
  have "0 < w" using 3 by (auto simp: w_def)
  show ?case
  proof (cases "w = tot")
    case True
    with 3 show ?thesis by (auto simp: w_def Let_def)
  next
    case False
    with 3 \<open>0 < w\<close> have "tot - w = length (concat (advance_iov w iov))" "0 < tot - w"
      "tot - w \<le> length ks"
      by (auto simp: concat_advance_iov w_def)
    with 3 False show ?thesis
      by (auto simp: w_def [symmetric] Let_def)
  qed
qed auto

section \<open>Properties\<close>

text \<open>C12: A response handed to \<^verbatim>\<open>mog_trywritev\<close> and then flushed with \<^verbatim>\<open>mog_tryflush\<close> each
  time the socket becomes writable reaches the peer exactly once, in order and complete, for
  every sequence of partial writes, interruptions and full-socket answers of the kernel.\<close>

theorem trywritev_then_flush_delivers:
  assumes "mog_trywritev iov sk = Ret (r, sk1)"
    and "flush_again n r sk1 = Ret (MOG_WRSTATE_DONE, r', sk')"
  shows "sk_sent sk' = sk_sent sk @ concat iov"
  using assms by (rule writev.delivers_all)

theorem trywritev_then_flush_delivers_witness:
  "\<exists>r sk1 sk'.
     mog_trywritev [''HTTP/1.1 '', ''204''] \<lparr>sk_sent = ''x'', sk_script =
       [Wrote 4, WErr EINTR, Wrote 6, WErr EAGAIN, Wrote 1, WErr EAGAIN, Wrote 9]\<rparr> = Ret (r, sk1)
     \<and> flush_again 2 r sk1 = Ret (MOG_WRSTATE_DONE, WNull, sk')
     \<and> sk_sent sk' = ''xHTTP/1.1 204''"
proof -
  let ?sk = "\<lparr>sk_sent = ''x'', sk_script =
    [Wrote 4, WErr EINTR, Wrote 6, WErr EAGAIN, Wrote 1, WErr EAGAIN, Wrote 9]\<rparr>"
    and ?b = "\<lparr>wb_len = 2, wb_off = 0, wb_buf = ''04''\<rparr>"
    and ?sk1 = "\<lparr>sk_sent = ''xHTTP/1.1 2'', sk_script = [Wrote 1, WErr EAGAIN, Wrote 9]\<rparr>"
    and ?sk' = "\<lparr>sk_sent = ''xHTTP/1.1 204'', sk_script = []\<rparr>"
  have a: "mog_trywritev [''HTTP/1.1 '', ''204''] ?sk = Ret (WBuf ?b, ?sk1)"
    by (simp add: mog_trywritev_def Let_def wbuf_newv_def)
  have b: "flush_again 2 (WBuf ?b) ?sk1 = Ret (MOG_WRSTATE_DONE, WNull, ?sk')"
    by (simp add: mog_tryflush_def Let_def numeral_2_eq_2)
  show ?thesis
    using a b trywritev_then_flush_delivers [OF a b] by fastforce
qed



text \<open>C28: \<^verbatim>\<open>mog_trywritev\<close> returns: once the kernel reports a full or broken socket, and also
  when it keeps taking at least one byte per call, with the whole message gone and no buffer
  left in that case.\<close>

theorem trywritev_returns:
  assumes "(\<exists>e. e \<noteq> EINTR \<and> WErr e \<in> set (sk_script sk))
    \<or> (length (concat iov) \<le> length (sk_script sk) \<and> (\<forall>k \<in> set (sk_script sk). \<exists>n > 0. k = Wrote n))"
  shows "\<exists>r sk'. mog_trywritev iov sk = Ret (r, sk')
    \<and> ((\<forall>e. WErr e \<notin> set (sk_script sk)) \<longrightarrow> r = WNull)"
proof (cases "concat iov = []")
  case True
  then show ?thesis by (simp add: mog_trywritev_def)
next
  case False
  then have eq: "mog_trywritev iov sk
      = trywritev_loop (sk_script sk) (sk_sent sk) (length (concat iov)) iov"
    unfolding mog_trywritev_def Let_def length_concat [symmetric] by auto
  from assms show ?thesis
  proof
    assume "\<exists>e. e \<noteq> EINTR \<and> WErr e \<in> set (sk_script sk)"
    with trywritev_loop_returns show ?thesis unfolding eq by metis
  next
    assume "length (concat iov) \<le> length (sk_script sk)
      \<and> (\<forall>k \<in> set (sk_script sk). \<exists>n > 0. k = Wrote n)"
    with trywritev_loop_takes_all [OF refl] False show ?thesis
      unfolding eq by (metis length_greater_0_conv)
  qed
qed

theorem trywritev_returns_witness:
  "\<exists>r sk'. mog_trywritev [''ab'', ''c''] \<lparr>sk_sent = [], sk_script = [Wrote 1, Wrote 1, Wrote 1]\<rparr>
      = Ret (r, sk') \<and> r = WNull"
  using trywritev_returns [of "\<lparr>sk_sent = [], sk_script = [Wrote 1, Wrote 1, Wrote 1]\<rparr>" "[''ab'', ''c'']"]
  by force

end
