(* ===== verification/Mog_Alloc.thy ===== *)
theory Mog_Alloc
  imports Mog_Prelude
begin

text \<open>
  \<^verbatim>\<open>alloc.c\<close>: the read buffers of the HTTP and side-channel clients. Each thread owns one small
  buffer through \<^verbatim>\<open>tls_rbuf\<close>; a client that has to keep data across events detaches that
  buffer or gets one of its own, and grows it up to 65535 bytes. Buffers are named by their
  address in a heap, so that detaching, sharing with the thread and freeing are visible; freeing
  or reading a buffer that is not allocated is \<open>Abort\<close>.
\<close>

section \<open>Model\<close>

text \<open>
  \<open>rb_rptr\<close> holds the bytes written so far, a prefix of the \<open>rb_rcapa\<close> bytes of the buffer;
  \<open>rb_rsize\<close> is \<open>None\<close> until a client stashes the buffer.
\<close>

record mog_rbuf =
  rb_rcapa :: nat
  rb_rsize :: "nat option"
  rb_rptr :: bytes

record rheap =
  rh_bufs :: "nat \<rightharpoonup> mog_rbuf"
  rh_next :: nat
  rh_tls :: "nat option"

definition MOG_RBUF_BASE_SIZE :: nat where
  "MOG_RBUF_BASE_SIZE = 512 - 16"

definition MOG_RBUF_MAX_SIZE :: nat where
  "MOG_RBUF_MAX_SIZE = 65535"

definition rbuf_alloc :: "mog_rbuf \<Rightarrow> rheap \<Rightarrow> nat \<times> rheap" where
  "rbuf_alloc b h = (rh_next h, h\<lparr>rh_bufs := (rh_bufs h)(rh_next h \<mapsto> b), rh_next := rh_next h + 1\<rparr>)"

definition heap_free :: "nat \<Rightarrow> rheap \<Rightarrow> rheap outcome" where
  "heap_free i h = assert_then (rh_bufs h i \<noteq> None) (Ret (h\<lparr>rh_bufs := (rh_bufs h)(i := None)\<rparr>))"

definition mog_rbuf_new :: "nat \<Rightarrow> rheap \<Rightarrow> (nat \<times> rheap) outcome" where
  "mog_rbuf_new sz h =
     assert_then (sz > 0) (Ret (rbuf_alloc \<lparr>rb_rcapa = sz, rb_rsize = None, rb_rptr = ''''\<rparr> h))"

definition rbuf_replace :: "nat option \<Rightarrow> nat \<Rightarrow> rheap \<Rightarrow> (nat \<times> rheap) outcome" where
  "rbuf_replace rbuf sz h =
     obind (case rbuf of None \<Rightarrow> Ret h | Some i \<Rightarrow> heap_free i h) (\<lambda>h1.
       obind (mog_rbuf_new sz h1) (\<lambda>(j, h2). Ret (j, h2\<lparr>rh_tls := Some j\<rparr>)))"

definition mog_rbuf_get :: "nat \<Rightarrow> rheap \<Rightarrow> (nat \<times> rheap) outcome" where
  "mog_rbuf_get sz h =
     (case rh_tls h of
        None \<Rightarrow> rbuf_replace None sz h
      | Some i \<Rightarrow>
          (case rh_bufs h i of
             None \<Rightarrow> Abort
           | Some b \<Rightarrow> if rb_rcapa b \<ge> sz then Ret (i, h) else rbuf_replace (Some i) sz h))"

definition mog_rbuf_detach :: "nat \<Rightarrow> rheap \<Rightarrow> nat \<times> rheap" where
  "mog_rbuf_detach i h = (i, if rh_tls h = Some i then h\<lparr>rh_tls := None\<rparr> else h)"

definition mog_rbuf_free :: "nat option \<Rightarrow> rheap \<Rightarrow> rheap outcome" where
  "mog_rbuf_free rbuf h =
     assert_then (rbuf = None \<or> rh_tls h \<noteq> rbuf)
       (case rbuf of None \<Rightarrow> Ret h | Some i \<Rightarrow> heap_free i h)"

definition mog_rbuf_free_and_null :: "nat option \<Rightarrow> rheap \<Rightarrow> (nat option \<times> rheap) outcome" where
  "mog_rbuf_free_and_null rbuf h = obind (mog_rbuf_free rbuf h) (\<lambda>h1. Ret (None, h1))"

definition mog_alloc_quit :: "rheap \<Rightarrow> rheap outcome" where
  "mog_alloc_quit h = mog_rbuf_free (rh_tls h) (h\<lparr>rh_tls := None\<rparr>)"

text \<open>
  \<^verbatim>\<open>mog_rbuf_grow\<close>: \<open>None\<close> is the null result. \<^verbatim>\<open>xrealloc\<close> may move the buffer, so its result
  has a new address here and the old one is gone.
\<close>

definition mog_rbuf_grow :: "nat \<Rightarrow> rheap \<Rightarrow> (nat option \<times> rheap) outcome" where
  "mog_rbuf_grow cur h =
     (case rh_bufs h cur of
        None \<Rightarrow> Abort
      | Some b \<Rightarrow>
          (case rb_rsize b of
             None \<Rightarrow> Abort
           | Some rsize \<Rightarrow>
               if rsize = MOG_RBUF_MAX_SIZE
               then assert_then (rh_tls h \<noteq> Some cur)
                      (obind (heap_free cur h) (\<lambda>h1. Ret (None, h1)))
               else assert_then (rsize < MOG_RBUF_MAX_SIZE)
                 (let new_size = min (rsize + 500) MOG_RBUF_MAX_SIZE in
                  if rb_rcapa b < new_size
                  then if rb_rcapa b = MOG_RBUF_BASE_SIZE
                       then obind (mog_rbuf_new new_size h) (\<lambda>(j, h1).
                         let h2 = h1\<lparr>rh_bufs := (rh_bufs h1)(j \<mapsto>
                           \<lparr>rb_rcapa = new_size, rb_rsize = None, rb_rptr = take rsize (rb_rptr b)\<rparr>)\<rparr> in
                         if rh_tls h2 \<noteq> Some cur
                         then obind (mog_rbuf_free (Some cur) h2) (\<lambda>h3. Ret (Some j, h3))
                         else Ret (Some j, h2))
                       else assert_then (rh_tls h \<noteq> Some cur)
                         (obind (heap_free cur h) (\<lambda>h1.
                            case rbuf_alloc (b\<lparr>rb_rcapa := new_size\<rparr>) h1 of (j, h2) \<Rightarrow> Ret (Some j, h2)))
                  else (case mog_rbuf_detach cur h of (j, h1) \<Rightarrow> Ret (Some j, h1)))))"

text \<open>The per-thread buffer for file system I/O has a fixed size.\<close>

definition fsbuf_size :: nat where
  "fsbuf_size = 8192"

section \<open>Invariant\<close>

text \<open>
  Addresses are below the allocation counter, every buffer holds at most its capacity, and the
  thread's own buffer is allocated and has the base size.
\<close>

definition rheap_ok :: "rheap \<Rightarrow> bool" where
  "rheap_ok h \<longleftrightarrow>
     (\<forall>i b. rh_bufs h i = Some b \<longrightarrow>
        i < rh_next h \<and> 0 < rb_rcapa b \<and> rb_rcapa b \<le> MOG_RBUF_MAX_SIZE \<and> length (rb_rptr b) \<le> rb_rcapa b \<and>
        (\<forall>n. rb_rsize b = Some n \<longrightarrow> n \<le> length (rb_rptr b))) \<and>
     (\<forall>i. rh_tls h = Some i \<longrightarrow> (\<exists>b. rh_bufs h i = Some b \<and> rb_rcapa b = MOG_RBUF_BASE_SIZE))"

definition live :: "rheap \<Rightarrow> nat set" where
  "live h = dom (rh_bufs h)"

lemma rheap_ok_fresh: "rheap_ok h \<Longrightarrow> rh_bufs h (rh_next h) = None"
  by (metis less_irrefl not_None_eq rheap_ok_def)

lemma rbuf_new_ok:
  assumes "rheap_ok h" "0 < sz" "sz \<le> MOG_RBUF_MAX_SIZE"
  shows "\<exists>h'. mog_rbuf_new sz h = Ret (rh_next h, h') \<and> rheap_ok h' \<and> rh_tls h' = rh_tls h \<and>
    live h' = insert (rh_next h) (live h)"
proof -
  have "rh_tls h \<noteq> Some (rh_next h)"
    using assms(1) rheap_ok_fresh [OF assms(1)] by (force simp: rheap_ok_def)
  then show ?thesis
    using assms
    by (auto simp: mog_rbuf_new_def rbuf_alloc_def assert_then_def rheap_ok_def live_def less_Suc_eq
        split: if_splits)
qed



text \<open>The two ways in which a buffer that is too small is replaced: a base-size one by a copy, a larger one by reallocation.\<close>

lemma rheap_ok_cur:
  assumes "rheap_ok h" "rh_bufs h cur = Some b" "rb_rsize b = Some n"
  shows "length (rb_rptr b) \<le> rb_rcapa b" "n \<le> length (rb_rptr b)" "rb_rcapa b \<le> MOG_RBUF_MAX_SIZE" "cur < rh_next h"
    "rh_tls h = Some cur \<Longrightarrow> rb_rcapa b = MOG_RBUF_BASE_SIZE" "rh_bufs h (rh_next h) = None" "rh_tls h \<noteq> Some (rh_next h)"
proof -
  show "length (rb_rptr b) \<le> rb_rcapa b" "n \<le> length (rb_rptr b)" "rb_rcapa b \<le> MOG_RBUF_MAX_SIZE" "cur < rh_next h"
    "rh_tls h = Some cur \<Longrightarrow> rb_rcapa b = MOG_RBUF_BASE_SIZE"
    using assms by (auto simp: rheap_ok_def)
  show "rh_bufs h (rh_next h) = None" "rh_tls h \<noteq> Some (rh_next h)"
    using rheap_ok_fresh [OF assms(1)] assms(1) by (force simp: rheap_ok_def)+
qed

lemma grow_copies:
  assumes "rheap_ok h" "rh_bufs h cur = Some b" "rb_rsize b = Some n"
    and "n < MOG_RBUF_MAX_SIZE" "rb_rcapa b = MOG_RBUF_BASE_SIZE" "rb_rcapa b < min (n + 500) MOG_RBUF_MAX_SIZE"
  defines "new \<equiv> \<lparr>rb_rcapa = min (n + 500) MOG_RBUF_MAX_SIZE, rb_rsize = None, rb_rptr = take n (rb_rptr b)\<rparr>"
  defines "h' \<equiv> h\<lparr>rh_bufs := (rh_bufs h)(rh_next h \<mapsto> new, cur := (if rh_tls h = Some cur then Some b else None)), rh_next := rh_next h + 1\<rparr>"
  shows "mog_rbuf_grow cur h = Ret (Some (rh_next h), h')" "rheap_ok h'"
proof -
  note inv = rheap_ok_cur [OF assms(1-3)]
  have "0 < MOG_RBUF_BASE_SIZE"
    by (simp add: MOG_RBUF_BASE_SIZE_def)
  then show "rheap_ok h'"
    unfolding h'_def new_def using assms(1,2,4-6) inv
    by (auto simp: rheap_ok_def less_Suc_eq split: if_splits)
  show "mog_rbuf_grow cur h = Ret (Some (rh_next h), h')"
    unfolding h'_def new_def using assms(1-6) inv(4)
    by (auto simp: mog_rbuf_grow_def mog_rbuf_new_def rbuf_alloc_def mog_rbuf_free_def heap_free_def
        assert_then_def Let_def MOG_RBUF_BASE_SIZE_def fun_eq_iff)
qed

lemma grow_reallocates:
  assumes "rheap_ok h" "rh_bufs h cur = Some b" "rb_rsize b = Some n"
    and "n < MOG_RBUF_MAX_SIZE" "rb_rcapa b \<noteq> MOG_RBUF_BASE_SIZE" "rb_rcapa b < min (n + 500) MOG_RBUF_MAX_SIZE"
  defines "h' \<equiv> h\<lparr>rh_bufs := (rh_bufs h)(cur := None, rh_next h \<mapsto> b\<lparr>rb_rcapa := min (n + 500) MOG_RBUF_MAX_SIZE\<rparr>), rh_next := rh_next h + 1\<rparr>"
  shows "mog_rbuf_grow cur h = Ret (Some (rh_next h), h')" "rheap_ok h'"
proof -
  note inv = rheap_ok_cur [OF assms(1-3)]
  have nt: "rh_tls h \<noteq> Some cur"
    using inv(5) assms(5) by auto
  have len: "length (rb_rptr b) \<le> n + 500" "length (rb_rptr b) \<le> MOG_RBUF_MAX_SIZE"
    using inv(1) assms(6) by linarith+
  show "rheap_ok h'"
    unfolding h'_def using assms(1-5) nt inv(6,7) by (auto simp: rheap_ok_def less_Suc_eq len split: if_splits)
  show "mog_rbuf_grow cur h = Ret (Some (rh_next h), h')"
    unfolding h'_def using assms(1-6) nt by (simp add: mog_rbuf_grow_def heap_free_def rbuf_alloc_def assert_then_def Let_def)
qed

text \<open>
  C24: Growing a stashed, full-enough buffer never fails an assertion, and never frees or leaks a
  buffer it should not. At the maximal size of 65535 bytes the buffer is released and the result
  is null. Below it, the result is a buffer detached from the thread that keeps the stashed
  bytes, has room for at least one more byte and at most 500 bytes more than were stashed or its
  old capacity; the old address stays allocated only if it belongs to the thread or is the result.
\<close>

theorem rbuf_grow_ok:
  assumes "rheap_ok h" "rh_bufs h cur = Some b" "rb_rsize b = Some n"
  shows "(n = MOG_RBUF_MAX_SIZE \<longrightarrow>
       (\<exists>h'. mog_rbuf_grow cur h = Ret (None, h') \<and> rheap_ok h' \<and> live h' = live h - {cur})) \<and>
    (n < MOG_RBUF_MAX_SIZE \<longrightarrow>
       (\<exists>j h' b'. mog_rbuf_grow cur h = Ret (Some j, h') \<and> rheap_ok h' \<and> rh_tls h' \<noteq> Some j \<and>
          rh_bufs h' j = Some b' \<and> take n (rb_rptr b') = take n (rb_rptr b) \<and> n < rb_rcapa b' \<and>
          rb_rcapa b' = max (rb_rcapa b) (min (n + 500) MOG_RBUF_MAX_SIZE) \<and>
          (\<forall>i. i \<noteq> cur \<and> i \<noteq> j \<longrightarrow> rh_bufs h' i = rh_bufs h i) \<and>
          (j \<noteq> cur \<longrightarrow> (cur \<in> live h' \<longleftrightarrow> rh_tls h = Some cur)))) \<and> n \<le> MOG_RBUF_MAX_SIZE"
proof -
  note inv = rheap_ok_cur [OF assms]
  consider (max) "n = MOG_RBUF_MAX_SIZE"
    | (base) "n < MOG_RBUF_MAX_SIZE" "rb_rcapa b = MOG_RBUF_BASE_SIZE"
        "rb_rcapa b < min (n + 500) MOG_RBUF_MAX_SIZE"
    | (own) "n < MOG_RBUF_MAX_SIZE" "rb_rcapa b \<noteq> MOG_RBUF_BASE_SIZE"
        "rb_rcapa b < min (n + 500) MOG_RBUF_MAX_SIZE"
    | (room) "n < MOG_RBUF_MAX_SIZE" "\<not> rb_rcapa b < min (n + 500) MOG_RBUF_MAX_SIZE"
    using inv by linarith
  then show ?thesis
  proof cases
    case max
    have "rh_tls h \<noteq> Some cur"
      using inv(3,5) max inv(1,2) by (auto simp: MOG_RBUF_BASE_SIZE_def MOG_RBUF_MAX_SIZE_def)
    then show ?thesis
      using assms max
      by (auto simp: mog_rbuf_grow_def heap_free_def assert_then_def rheap_ok_def live_def)
  next
    case base
    show ?thesis
      using grow_copies [OF assms base] base inv by (auto simp: live_def)
  next
    case own
    have "rh_tls h \<noteq> Some cur"
      using inv(5) own by auto
    then show ?thesis
      using grow_reallocates [OF assms own] own inv by (auto simp: live_def)
  next
    case room
    let ?h = "if rh_tls h = Some cur then h\<lparr>rh_tls := None\<rparr> else h"
    have run: "mog_rbuf_grow cur h = Ret (Some cur, ?h)"
      using assms room
      by (simp add: mog_rbuf_grow_def mog_rbuf_detach_def assert_then_def Let_def del: min_less_iff_conj)
    have "rheap_ok ?h"
      using assms(1) by (auto simp: rheap_ok_def)
    then show ?thesis
      using run room assms(2) inv by (auto simp: live_def max_def)
  qed
qed

theorem rbuf_grow_ok_witness:
  "\<exists>j h' b'. mog_rbuf_grow 0
       \<lparr>rh_bufs = [0 \<mapsto> \<lparr>rb_rcapa = 496, rb_rsize = Some 496, rb_rptr = replicate 496 (CHR ''x'')\<rparr>],
        rh_next = 1, rh_tls = Some 0\<rparr> = Ret (Some j, h') \<and>
     rh_tls h' \<noteq> Some j \<and> rh_bufs h' j = Some b' \<and> rb_rcapa b' = 996"
proof -
  let ?b = "\<lparr>rb_rcapa = 496, rb_rsize = Some 496, rb_rptr = replicate 496 (CHR ''x'')\<rparr>"
  let ?h = "\<lparr>rh_bufs = [0 \<mapsto> ?b], rh_next = 1, rh_tls = Some 0\<rparr>"
  have ok: "rheap_ok ?h"
    by (simp add: rheap_ok_def MOG_RBUF_BASE_SIZE_def MOG_RBUF_MAX_SIZE_def)
  have "rh_bufs ?h 0 = Some ?b" "rb_rsize ?b = Some 496"
    by simp_all
  from rbuf_grow_ok [OF ok this] show ?thesis
    by (auto simp: MOG_RBUF_MAX_SIZE_def)
qed

end
