(* ===== verification/Mog_Fs.thy ===== *)
theory Mog_Fs
  imports Mog_Trywrite Mog_Alloc
begin

text \<open>
  The outside world of one client connection, and the file system access of \<^verbatim>\<open>fs.c\<close>,
  \<^verbatim>\<open>file.c\<close> and \<^verbatim>\<open>mkpath_for.c\<close>. The world holds the files below the document root, the bytes the
  client sends, what was sent to it, and the kernel's answers to come: a call that may fail takes
  the next answer, which says whether it fails and with which error, or how many bytes it moves.
\<close>

section \<open>The world\<close>

text \<open>
  Answers to \<^verbatim>\<open>read\<close> on the client socket (at least one byte, end of file, error) and to
  \<^verbatim>\<open>pwrite\<close> (a number of bytes, error).
\<close>

datatype rres = RSome nat | REof | RErr errno
datatype pres = PSome nat | PErr errno

text \<open>
  \<open>w_names\<close> and \<open>w_dirs\<close> are the regular files and directories by their path components,
  \<open>w_data\<close> and \<open>w_perm\<close> the contents and permissions of the inodes below \<open>w_next\<close>. \<open>w_nopen\<close>
  counts the open files, \<open>w_errno\<close> is the thread's \<^verbatim>\<open>errno\<close> (\<open>None\<close> for 0), \<open>w_noatime\<close> is the flag in
  \<^verbatim>\<open>noatime_flags\<close>, \<open>w_expire\<close> the results of \<^verbatim>\<open>mog_fdmap_expire\<close>, \<open>w_rand\<close> those of
  \<^verbatim>\<open>random_r\<close>, \<open>w_pid\<close> that of \<^verbatim>\<open>getpid\<close>, and \<open>w_date\<close> is the date string of \<^verbatim>\<open>mog_now\<close>.
  \<open>w_heap\<close> holds the read buffers. \<open>w_log\<close> records, after every call that changes a file or a name, what a reader
  would see under each name.
\<close>

record world =
  w_names :: "string list \<rightharpoonup> nat"
  w_dirs :: "string list set"
  w_data :: "nat \<Rightarrow> bytes"
  w_perm :: "nat \<Rightarrow> nat"
  w_next :: nat
  w_nopen :: nat
  w_errno :: "errno option"
  w_noatime :: bool
  w_fs :: "errno option list"
  w_pw :: "pres list"
  w_rd :: "rres list"
  w_rx :: bytes
  w_tx :: sock
  w_expire :: "nat list"
  w_rand :: "nat list"
  w_pid :: nat
  w_date :: bytes
  w_heap :: rheap
  w_log :: "(string list \<rightharpoonup> bytes) list"

definition visible :: "world \<Rightarrow> string list \<rightharpoonup> bytes" where
  "visible w c = map_option (w_data w) (w_names w c)"

definition snap :: "world \<Rightarrow> world" where
  "snap w = w\<lparr>w_log := w_log w @ [visible w]\<rparr>"

text \<open>Path resolution below the document root: empty components and single dots do not count.\<close>

fun split_slash :: "bytes \<Rightarrow> bytes list" where
  "split_slash [] = [[]]"
| "split_slash (c # s) =
     (if c = CHR ''/'' then [] # split_slash s
      else (case split_slash s of h # t \<Rightarrow> (c # h) # t | [] \<Rightarrow> [[c]]))"

definition path_comps :: "bytes \<Rightarrow> string list" where
  "path_comps p = filter (\<lambda>s. s \<noteq> [] \<and> s \<noteq> ''.'') (split_slash p)"

definition set_errno :: "errno \<Rightarrow> world \<Rightarrow> world" where
  "set_errno e w = w\<lparr>w_errno := Some e\<rparr>"

text \<open>A namespace call: the next answer is an error or lets the call take its effect.\<close>

definition fs_call :: "(world \<Rightarrow> 'a \<times> world) \<Rightarrow> 'a \<Rightarrow> world \<Rightarrow> ('a \<times> world) outcome" where
  "fs_call act failed w =
     (case w_fs w of
        [] \<Rightarrow> Starved
      | Some e # as \<Rightarrow> Ret (failed, set_errno e (w\<lparr>w_fs := as\<rparr>))
      | None # as \<Rightarrow> Ret (act (w\<lparr>w_fs := as\<rparr>)))"

definition parent_error :: "string list \<Rightarrow> world \<Rightarrow> errno option" where
  "parent_error c w =
     (if butlast c \<in> w_dirs w then None
      else if w_names w (butlast c) \<noteq> None then Some ENOTDIR else Some ENOENT)"

text \<open>\<^verbatim>\<open>openat\<close> with \<^verbatim>\<open>O_CREAT\<close>; the result is the inode of the opened file.\<close>

definition sys_open_put :: "bool \<Rightarrow> bool \<Rightarrow> bytes \<Rightarrow> world \<Rightarrow> nat option \<times> world" where
  "sys_open_put excl trunc p w =
     (let c = path_comps p in
      if c \<in> w_dirs w then (None, set_errno EISDIR w)
      else case parent_error c w of
        Some e \<Rightarrow> (None, set_errno e w)
      | None \<Rightarrow>
          (case w_names w c of
             Some i \<Rightarrow>
               if excl then (None, set_errno EEXIST w)
               else (Some i, snap (w\<lparr>w_data := if trunc then (w_data w)(i := '''') else w_data w,
                                     w_nopen := w_nopen w + 1\<rparr>))
           | None \<Rightarrow>
               (Some (w_next w), snap (w\<lparr>w_names := (w_names w)(c \<mapsto> w_next w),
                  w_data := (w_data w)(w_next w := ''''), w_perm := (w_perm w)(w_next w := 384),
                  w_next := w_next w + 1, w_nopen := w_nopen w + 1\<rparr>))))"

definition sys_mkdir :: "bytes \<Rightarrow> world \<Rightarrow> bool \<times> world" where
  "sys_mkdir p w =
     (let c = path_comps p in
      if c \<in> w_dirs w \<or> w_names w c \<noteq> None then (False, set_errno EEXIST w)
      else case parent_error c w of
        Some e \<Rightarrow> (False, set_errno e w)
      | None \<Rightarrow> (True, w\<lparr>w_dirs := insert c (w_dirs w)\<rparr>))"

definition sys_unlink :: "bytes \<Rightarrow> world \<Rightarrow> bool \<times> world" where
  "sys_unlink p w =
     (let c = path_comps p in
      if c \<in> w_dirs w then (False, set_errno EISDIR w)
      else if w_names w c = None then (False, set_errno (case parent_error c w of Some e \<Rightarrow> e | None \<Rightarrow> ENOENT) w)
      else (True, snap (w\<lparr>w_names := (w_names w)(c := None)\<rparr>)))"

definition sys_rename :: "bytes \<Rightarrow> bytes \<Rightarrow> world \<Rightarrow> bool \<times> world" where
  "sys_rename old new w =
     (let c = path_comps old; d = path_comps new in
      case w_names w c of
        None \<Rightarrow> (False, set_errno ENOENT w)
      | Some i \<Rightarrow>
          if d \<in> w_dirs w then (False, set_errno EISDIR w)
          else case parent_error d w of
            Some e \<Rightarrow> (False, set_errno e w)
          | None \<Rightarrow> (True, snap (w\<lparr>w_names := (if w_names w d = Some i then w_names w
                                                  else (w_names w)(c := None, d \<mapsto> i))\<rparr>)))"

text \<open>A file opened for reading: a regular file or a directory.\<close>

datatype fnode = FReg nat | FDir

definition lookup_node :: "bytes \<Rightarrow> world \<Rightarrow> errno + fnode" where
  "lookup_node p w =
     (let c = path_comps p in
      if c \<in> w_dirs w then Inr FDir
      else case w_names w c of
        Some i \<Rightarrow> Inr (FReg i)
      | None \<Rightarrow> Inl (case parent_error c w of Some e \<Rightarrow> e | None \<Rightarrow> ENOENT))"

definition sys_open_read :: "bytes \<Rightarrow> world \<Rightarrow> fnode option \<times> world" where
  "sys_open_read p w =
     (case lookup_node p w of
        Inl e \<Rightarrow> (None, set_errno e w)
      | Inr n \<Rightarrow> (Some n, w\<lparr>w_nopen := w_nopen w + 1\<rparr>))"

text \<open>The two fields of \<^verbatim>\<open>struct stat\<close> the program reads: is it a regular file, and its size.\<close>

fun node_stat :: "fnode \<Rightarrow> world \<Rightarrow> bool \<times> int" where
  "node_stat (FReg i) w = (True, int (length (w_data w i)))"
| "node_stat FDir w = (False, 4096)"

definition sys_stat :: "bytes \<Rightarrow> world \<Rightarrow> (bool \<times> int) option \<times> world" where
  "sys_stat p w =
     (case lookup_node p w of Inl e \<Rightarrow> (None, set_errno e w) | Inr n \<Rightarrow> (Some (node_stat n w), w))"

definition overwrite :: "nat \<Rightarrow> bytes \<Rightarrow> bytes \<Rightarrow> bytes" where
  "overwrite off bs d =
     (if bs = [] then d
      else take off (d @ replicate (off - length d) (CHR 0x00)) @ bs @ drop (off + length bs) d)"

lemma length_take_pad: "length (take off (d @ replicate (off - length d) x)) = off"
  by simp

lemma overwrite_overwrite:
  "overwrite (off + length b1) b2 (overwrite off b1 d) = overwrite off (b1 @ b2) d"
proof (cases "b1 = [] \<or> b2 = []")
  case False
  define h where "h = take off (d @ replicate (off - length d) (CHR 0x00))"
  have len: "length h = off"
    by (simp add: h_def)
  have "overwrite off b1 d = h @ b1 @ drop (off + length b1) d"
    using False by (simp add: overwrite_def h_def)
  then have "overwrite (off + length b1) b2 (overwrite off b1 d) =
      (h @ b1) @ b2 @ drop (off + length b1 + length b2) (h @ b1 @ drop (off + length b1) d)"
    using False len by (simp add: overwrite_def)
  also have "drop (off + length b1 + length b2) (h @ b1 @ drop (off + length b1) d) =
      drop (off + length (b1 @ b2)) d"
    using len by (simp add: ac_simps)
  finally show ?thesis
    using False by (simp add: overwrite_def h_def)
qed (auto simp: overwrite_def)

lemma overwrite_end: "overwrite (length d) bs d = d @ bs"
  by (simp add: overwrite_def)

text \<open>\<^verbatim>\<open>pwrite\<close> at an offset; \<open>-1\<close> on error.\<close>

definition sys_pwrite :: "nat \<Rightarrow> bytes \<Rightarrow> int \<Rightarrow> world \<Rightarrow> (int \<times> world) outcome" where
  "sys_pwrite ino buf off w =
     (case w_pw w of
        [] \<Rightarrow> Starved
      | PErr e # as \<Rightarrow> Ret (-1, set_errno e (w\<lparr>w_pw := as\<rparr>))
      | PSome k # as \<Rightarrow>
          let n = min k (length buf) in
          Ret (int n, snap (w\<lparr>w_pw := as,
            w_data := (w_data w)(ino := overwrite (nat off) (take n buf) (w_data w ino))\<rparr>)))"

text \<open>\<^verbatim>\<open>read\<close> on the client socket into a buffer of \<open>n\<close> bytes.\<close>

datatype rd_result = RdData bytes | RdEof | RdErr

definition sys_read :: "nat \<Rightarrow> world \<Rightarrow> (rd_result \<times> world) outcome" where
  "sys_read n w =
     (case w_rd w of
        [] \<Rightarrow> Starved
      | RErr e # as \<Rightarrow> Ret (RdErr, set_errno e (w\<lparr>w_rd := as\<rparr>))
      | REof # as \<Rightarrow> Ret (RdEof, w\<lparr>w_rd := as\<rparr>)
      | RSome k # as \<Rightarrow>
          let m = min (max 1 k) n in
          if w_rx w = [] \<or> n = 0 then Ret (RdEof, w\<lparr>w_rd := as\<rparr>)
          else Ret (RdData (take m (w_rx w)), w\<lparr>w_rd := as, w_rx := drop m (w_rx w)\<rparr>))"

section \<open>fs.c and file.c\<close>

definition mog_open_put :: "bool \<Rightarrow> bool \<Rightarrow> bytes \<Rightarrow> world \<Rightarrow> (nat option \<times> world) outcome" where
  "mog_open_put excl trunc path w = fs_call (sys_open_put excl trunc path) None w"

definition mog_mkdir :: "bytes \<Rightarrow> world \<Rightarrow> (bool \<times> world) outcome" where
  "mog_mkdir path w = fs_call (sys_mkdir path) False w"

definition mog_unlink :: "bytes \<Rightarrow> world \<Rightarrow> (bool \<times> world) outcome" where
  "mog_unlink path w = fs_call (sys_unlink path) False w"

definition mog_rename :: "bytes \<Rightarrow> bytes \<Rightarrow> world \<Rightarrow> (bool \<times> world) outcome" where
  "mog_rename old new w = fs_call (sys_rename old new) False w"

definition mog_stat :: "bytes \<Rightarrow> world \<Rightarrow> ((bool \<times> int) option \<times> world) outcome" where
  "mog_stat path w = fs_call (sys_stat path) None w"

text \<open>
  \<^verbatim>\<open>mog_open_read\<close>: a failure other than \<^verbatim>\<open>ENOENT\<close> drops the flag \<^verbatim>\<open>O_NOATIME\<close> for the rest of the
  process and tries once more.
\<close>

definition open_read :: "bytes \<Rightarrow> world \<Rightarrow> (fnode option \<times> world) outcome" where
  "open_read path w = fs_call (sys_open_read path) None w"

definition mog_open_read :: "bytes \<Rightarrow> world \<Rightarrow> (fnode option \<times> world) outcome" where
  "mog_open_read path w =
     obind (open_read path w) (\<lambda>(fd, w1).
       if fd = None \<and> w_errno w1 \<noteq> Some ENOENT \<and> w_noatime w1
       then open_read path (w1\<lparr>w_noatime := False\<rparr>)
       else Ret (fd, w1))"

text \<open>\<^verbatim>\<open>mog_mkpath_for\<close>: one directory per slash after the second; success is \<open>True\<close>.\<close>

fun slashes :: "nat \<Rightarrow> bytes \<Rightarrow> nat list" where
  "slashes n [] = []"
| "slashes n (c # s) = (if c = CHR ''/'' then n # slashes (n + 1) s else slashes (n + 1) s)"

fun mkpath_loop :: "bytes \<Rightarrow> nat \<Rightarrow> bool \<Rightarrow> nat list \<Rightarrow> world \<Rightarrow> (bool \<times> world) outcome" where
  "mkpath_loop path i rc [] w = Ret (True, w)"
| "mkpath_loop path i rc (c # cs) w =
     obind (if i > 0 then mog_mkdir (take c path) w else Ret (rc, w)) (\<lambda>(rc, w).
       if \<not> rc \<and> w_errno w \<noteq> Some EEXIST then Ret (False, w)
       else mkpath_loop path (i + 1) rc cs w)"

definition mog_mkpath_for :: "bytes \<Rightarrow> world \<Rightarrow> (bool \<times> world) outcome" where
  "mog_mkpath_for path w =
     (case slashes 1 (drop 1 path) of
        [] \<Rightarrow> Ret (False, set_errno EACCES w)
      | cs \<Rightarrow> mkpath_loop path 0 True cs w)"

text \<open>\<^verbatim>\<open>mog_open_expire_retry\<close>: expiring idle descriptors is worth a retry when it freed any.\<close>

definition mog_open_expire_retry :: "world \<Rightarrow> (bool \<times> world) outcome" where
  "mog_open_expire_retry w =
     (if w_errno w \<in> {Some ENFILE, Some EMFILE, Some ENOMEM}
      then (case w_expire w of [] \<Rightarrow> Starved | n # ns \<Rightarrow> Ret (n > 0, w\<lparr>w_expire := ns\<rparr>))
      else Ret (False, w))"

text \<open>
  \<^verbatim>\<open>struct mog_file\<close>: \<open>fl_digest\<close> is the data fed to the digest, if there is one; \<open>fl_node\<close> is
  what the descriptor refers to.
\<close>

record mog_file =
  fl_node :: fnode
  fl_fsize :: int
  fl_foff :: int
  fl_path :: "bytes option"
  fl_tmppath :: "bytes option"
  fl_digest :: "bytes option"

definition file_init :: "fnode \<Rightarrow> int \<Rightarrow> mog_file" where
  "file_init n fsize =
     \<lparr>fl_node = n, fl_fsize = fsize, fl_foff = 0, fl_path = None, fl_tmppath = None, fl_digest = None\<rparr>"

definition mog_file_open_read :: "bytes \<Rightarrow> world \<Rightarrow> (mog_file option \<times> world) outcome" where
  "mog_file_open_read path w =
     obind (mog_open_read path w) (\<lambda>(fd, w1).
       obind (if fd = None
              then obind (mog_open_expire_retry w1) (\<lambda>(again, w2).
                     if again then mog_open_read path w2 else Ret (fd, w2))
              else Ret (fd, w1)) (\<lambda>(fd, w3).
         Ret (map_option (\<lambda>n. file_init n (-1)) fd, w3)))"

definition mkpath_open_put :: "bool \<Rightarrow> bool \<Rightarrow> bytes \<Rightarrow> world \<Rightarrow> (nat option \<times> world) outcome" where
  "mkpath_open_put excl trunc path w =
     obind (mog_open_put excl trunc path w) (\<lambda>(fd, w1).
       if fd = None \<and> w_errno w1 = Some ENOENT
       then obind (mog_mkpath_for path w1) (\<lambda>(ok, w2).
              if ok then mog_open_put excl trunc path w2
              else Ret (fd, set_errno ENOENT w2))
       else Ret (fd, w1))"

definition mog_file_open_put :: "bool \<Rightarrow> bool \<Rightarrow> bytes \<Rightarrow> world \<Rightarrow> (mog_file option \<times> world) outcome" where
  "mog_file_open_put excl trunc path w =
     obind (mkpath_open_put excl trunc path w) (\<lambda>(fd, w1).
       obind (if fd = None
              then obind (mog_open_expire_retry w1) (\<lambda>(again, w2).
                     if again then mkpath_open_put excl trunc path w2 else Ret (fd, w2))
              else Ret (fd, w1)) (\<lambda>(fd, w3).
         Ret (map_option (\<lambda>i. file_init (FReg i) 0) fd, w3)))"

definition mog_file_close :: "mog_file \<Rightarrow> world \<Rightarrow> world" where
  "mog_file_close f w = w\<lparr>w_nopen := w_nopen w - 1\<rparr>"

text \<open>A small concrete world: the device directory \<^verbatim>\<open>/dev1\<close> and no file.\<close>

definition demo_world :: world where
  "demo_world =
     \<lparr>w_names = Map.empty, w_dirs = {[], [''dev1'']}, w_data = (\<lambda>_. ''''), w_perm = (\<lambda>_. 0), w_next = 0,
      w_nopen = 0, w_errno = None, w_noatime = True, w_fs = [], w_pw = [], w_rd = [], w_rx = '''',
      w_tx = \<lparr>sk_sent = '''', sk_script = []\<rparr>, w_expire = [], w_rand = [], w_pid = 4242,
      w_date = ''Thu, 01 Jan 1970 00:00:00 GMT'',
      w_heap = \<lparr>rh_bufs = Map.empty, rh_next = 0, rh_tls = None\<rparr>, w_log = []\<rparr>"

end
