(* ===== verification/Mog_Path.thy ===== *)
theory Mog_Path
  imports Mog_Prelude
begin

text \<open>
  \<^verbatim>\<open>valid_path.c\<close> and \<^verbatim>\<open>valid_put_path.c\<close>: the two automata that decide which request paths
  reach the file system, and \<^verbatim>\<open>mog_http_path\<close> of \<^verbatim>\<open>http.c\<close>, which applies them. The
  transition functions follow the cases of the generated code; \<open>0\<close> is the error state of the
  PUT automaton, in which it stops.
\<close>

section \<open>Model\<close>

definition is_digit :: "char \<Rightarrow> bool" where
  "is_digit c \<longleftrightarrow> 48 \<le> (of_char c :: nat) \<and> (of_char c :: nat) \<le> 57"

text \<open>The result of a step is the next state and whether the traversal action fired.\<close>

definition path_traversal_step :: "nat \<Rightarrow> char \<Rightarrow> nat \<times> bool" where
  "path_traversal_step cs c =
     (if cs = 0 then (if c = CHR ''.'' then (1, False) else (0, False))
      else if cs = 1 then (if c = CHR ''.'' then (2, True) else (0, False))
      else if cs = 2 then (if c = CHR ''.'' then (2, True) else (3, False))
      else (if c = CHR ''.'' then (2, False) else (3, False)))"

text \<open>The action leaves the automaton (\<^verbatim>\<open>goto _out\<close>).\<close>

fun path_traversal_exec :: "nat \<Rightarrow> bytes \<Rightarrow> bool" where
  "path_traversal_exec cs [] = False"
| "path_traversal_exec cs (c # s) =
     (case path_traversal_step cs c of (cs', found) \<Rightarrow> if found then True else path_traversal_exec cs' s)"

definition path_traversal_found :: "bytes \<Rightarrow> bool" where
  "path_traversal_found buf = path_traversal_exec 0 buf"

definition mog_valid_path :: "bytes \<Rightarrow> bool" where
  "mog_valid_path buf =
     (if length buf \<ge> length ''/dev16777215/0/000/000/0123456789.fid'' + 1 then False
      else \<not> path_traversal_found buf)"

definition put_path_step :: "nat \<Rightarrow> char \<Rightarrow> nat" where
  "put_path_step cs c =
     (if cs = 1 then (if c = CHR ''/'' then 2 else 0)
      else if cs = 2 then (if c = CHR ''d'' then 3 else 0)
      else if cs = 3 then (if c = CHR ''e'' then 4 else 0)
      else if cs = 4 then (if c = CHR ''v'' then 5 else 0)
      else if cs = 5 then (if is_digit c then 6 else 0)
      else if cs = 6 then (if c = CHR ''/'' then 7 else if is_digit c then 6 else 0)
      else if cs = 7 then (if c = CHR ''/'' then 7 else 8)
      else 9)"

fun put_path_exec :: "nat \<Rightarrow> bytes \<Rightarrow> nat" where
  "put_path_exec cs [] = cs"
| "put_path_exec cs (c # s) = (if put_path_step cs c = 0 then 0 else put_path_exec (put_path_step cs c) s)"

definition mog_valid_put_path :: "bytes \<Rightarrow> bool" where
  "mog_valid_put_path buf =
     (if length buf \<le> 0 then False
      else if buf ! (length buf - 1) = CHR ''/'' then False
      else put_path_exec 1 buf \<noteq> 0)"

text \<open>
  \<^verbatim>\<open>mog_http_path\<close>: the request path between \<^verbatim>\<open>path_tip\<close> and \<^verbatim>\<open>path_end\<close>, or no path; the
  second component is the \<^verbatim>\<open>errno\<close> it sets, if any.
\<close>

definition mog_http_path ::
  "bool \<Rightarrow> nat \<Rightarrow> nat \<Rightarrow> bytes \<Rightarrow> (bytes option \<times> errno option) outcome" where
  "mog_http_path is_put path_tip path_end buf =
     (let path = take (path_end - path_tip) (drop path_tip buf) in
      assert_then (path_end > path_tip)
        (if \<not> mog_valid_path path then Ret (None, None)
         else if is_put \<and> \<not> mog_valid_put_path path then Ret (None, Some EINVAL)
         else Ret (Some path, None)))"

section \<open>Traversal\<close>

lemma traversal_exec_1:
  "path_traversal_exec 1 s \<longleftrightarrow> prefix ''.'' s \<or> path_traversal_exec 0 s"
  "path_traversal_exec 0 (c # s) \<longleftrightarrow> (if c = CHR ''.'' then path_traversal_exec 1 s else path_traversal_exec 0 s)"
  by (cases s) (simp_all add: path_traversal_step_def)

lemma traversal_exec_0: "path_traversal_exec 0 s \<longleftrightarrow> sublist ''..'' s"
proof (induction s)
  case (Cons c s)
  then show ?case
    using traversal_exec_1(1) [of s] unfolding traversal_exec_1(2) by (auto simp: sublist_Cons_right)
qed simp

section \<open>The language of the PUT automaton\<close>

text \<open>The expression \<^verbatim>\<open>"/dev"digit+ ('/'+) [^/] any+\<close> of \<^verbatim>\<open>valid_put_path.rl\<close>.\<close>

definition put_tail :: "bytes \<Rightarrow> bool" where
  "put_tail w \<longleftrightarrow> 2 \<le> length (dropWhile (\<lambda>c. c = CHR ''/'') w)"

definition put_digits :: "bytes \<Rightarrow> bool" where
  "put_digits w \<longleftrightarrow> (\<exists>t. dropWhile is_digit w = CHR ''/'' # t \<and> put_tail t)"

definition put_language :: "bytes \<Rightarrow> bool" where
  "put_language w \<longleftrightarrow> (\<exists>v. w = ''/dev'' @ v \<and> takeWhile is_digit v \<noteq> [] \<and> put_digits v)"

lemma put_exec_9 [simp]: "put_path_exec 9 w = 9"
  by (induction w) (simp_all add: put_path_step_def)

lemma put_exec_8: "put_path_exec 8 w = 9 \<longleftrightarrow> w \<noteq> []"
  by (cases w) (simp_all add: put_path_step_def)

lemma put_tail_Cons: "put_tail (c # w) \<longleftrightarrow> (if c = CHR ''/'' then put_tail w else w \<noteq> [])"
  by (cases w) (simp_all add: put_tail_def)

lemma put_exec_7: "put_path_exec 7 w = 9 \<longleftrightarrow> put_tail w"
proof (induction w)
  case Nil
  then show ?case by (simp add: put_tail_def)
next
  case (Cons c w)
  then show ?case
    using put_exec_8 [of w] by (simp add: put_tail_Cons put_path_step_def)
qed

lemma digit_not_slash [simp]: "\<not> is_digit (CHR ''/'')"
  by (simp add: is_digit_def)

lemma put_digits_Cons:
  "put_digits (c # w) \<longleftrightarrow> (if c = CHR ''/'' then put_tail w else is_digit c \<and> put_digits w)"
  by (auto simp: put_digits_def)

lemma put_exec_6: "put_path_exec 6 w = 9 \<longleftrightarrow> put_digits w"
proof (induction w)
  case Nil
  then show ?case by (simp add: put_digits_def)
next
  case (Cons c w)
  then show ?case
    using put_exec_7 [of w] by (simp add: put_digits_Cons put_path_step_def)
qed

lemma put_exec_1: "put_path_exec 1 w = 9 \<longleftrightarrow> put_language w"
proof -
  have five: "put_path_exec 5 v = 9 \<longleftrightarrow> takeWhile is_digit v \<noteq> [] \<and> put_digits v" for v
    using put_exec_6 [of "tl v"]
    by (cases v) (auto simp: put_path_step_def put_digits_Cons put_digits_def)
  have first: "put_path_exec cs u = 9 \<longleftrightarrow> (\<exists>v. u = c # v \<and> put_path_exec cs' v = 9)"
    if "\<And>d. put_path_step cs d = (if d = c then cs' else 0)" "cs \<noteq> 9" "cs' \<noteq> 0" for cs cs' c u
    using that by (cases u) auto
  have "put_path_exec 1 w = 9 \<longleftrightarrow> (\<exists>v. w = CHR ''/'' # v \<and> put_path_exec 2 v = 9)"
    by (rule first) (simp_all add: put_path_step_def)
  also have "\<dots> \<longleftrightarrow> (\<exists>v. w = ''/d'' @ v \<and> put_path_exec 3 v = 9)"
    using first [of 2 "CHR ''d''" 3] by (auto simp: put_path_step_def)
  also have "\<dots> \<longleftrightarrow> (\<exists>v. w = ''/de'' @ v \<and> put_path_exec 4 v = 9)"
    using first [of 3 "CHR ''e''" 4] by (auto simp: put_path_step_def)
  also have "\<dots> \<longleftrightarrow> (\<exists>v. w = ''/dev'' @ v \<and> put_path_exec 5 v = 9)"
    using first [of 4 "CHR ''v''" 5] by (auto simp: put_path_step_def)
  finally show ?thesis
    by (simp only: five put_language_def)
qed

text \<open>Every state but the error state can still reach acceptance.\<close>

lemma put_exec_append:
  "put_path_exec cs (u @ v) = (if put_path_exec cs u = 0 then 0 else put_path_exec (put_path_exec cs u) v)"
  if "cs \<noteq> 0"
  using that by (induction u arbitrary: cs) auto

lemma put_exec_le: "cs \<le> 9 \<Longrightarrow> put_path_exec cs u \<le> 9"
  by (induction u arbitrary: cs) (auto simp: put_path_step_def)

lemma put_live:
  assumes "cs \<noteq> 0" "cs \<le> 9"
  shows "\<exists>v. put_path_exec cs v = 9"
proof -
  have "put_path_exec 6 ''/ab'' = 9" "put_path_exec 5 ''0/ab'' = 9" "put_path_exec 4 ''v0/ab'' = 9"
    "put_path_exec 3 ''ev0/ab'' = 9" "put_path_exec 2 ''dev0/ab'' = 9"
    "put_path_exec 1 ''/dev0/ab'' = 9" "put_path_exec 7 ''ab'' = 9" "put_path_exec 8 ''b'' = 9"
    by (simp_all add: put_path_step_def is_digit_def)
  moreover have "cs \<in> {1, 2, 3, 4, 5, 6, 7, 8, 9}"
    using assms by auto
  ultimately show ?thesis
    by (metis emptyE insertE put_exec_9)
qed

lemma valid_put_path_iff:
  "mog_valid_put_path buf \<longleftrightarrow> buf \<noteq> [] \<and> last buf \<noteq> CHR ''/'' \<and> (\<exists>z. put_language (buf @ z))"
proof -
  have "put_path_exec 1 buf \<noteq> 0 \<longleftrightarrow> (\<exists>z. put_language (buf @ z))"
    using put_live [of "put_path_exec 1 buf"] put_exec_le [of 1 buf]
    by (auto simp flip: put_exec_1 simp: put_exec_append)
  then show ?thesis
    by (auto simp: mog_valid_put_path_def last_conv_nth)
qed

section \<open>Properties\<close>

text \<open>
  C22: The path that \<^verbatim>\<open>mog_http_path\<close> hands to the file system is the request's own bytes, is
  shorter than the longest fid path plus one, contains no two consecutive dots and so cannot
  leave the document root; and for PUT it moreover does not end in a slash and can be continued
  to a word of \<^verbatim>\<open>"/dev"digit+ ('/'+) [^/] any+\<close>. Conversely every such path is handed out, so
  the check is exact.
\<close>

theorem http_path_exact:
  assumes "path_tip < path_end" "path_end \<le> length buf"
  defines "path \<equiv> take (path_end - path_tip) (drop path_tip buf)"
  shows "(\<exists>e. mog_http_path is_put path_tip path_end buf = Ret (Some p, e)) \<longleftrightarrow>
    p = path \<and> length p < 38 \<and> \<not> sublist ''..'' p \<and>
    (is_put \<longrightarrow> last p \<noteq> CHR ''/'' \<and> (\<exists>z. put_language (p @ z)))"
proof -
  have "path \<noteq> []"
    using assms(1,2) by (simp add: path_def)
  then show ?thesis
    using assms(1)
    by (auto simp: mog_http_path_def Let_def assert_then_def mog_valid_path_def
        path_traversal_found_def traversal_exec_0 valid_put_path_iff simp flip: path_def)
qed

theorem http_path_exact_witness:
  "(\<exists>e. mog_http_path True 4 15 ''PUT /dev1/a.fid HTTP/1.0'' = Ret (Some ''/dev1/a.fid'', e)) \<and>
   \<not> sublist ''..'' ''/dev1/a.fid''"
proof -
  have "\<exists>e. mog_http_path True 4 15 ''PUT /dev1/a.fid HTTP/1.0'' = Ret (Some ''/dev1/a.fid'', e)"
    by (simp add: mog_http_path_def assert_then_def mog_valid_path_def path_traversal_found_def
        path_traversal_step_def mog_valid_put_path_def put_path_step_def is_digit_def)
  then show ?thesis
    using http_path_exact [of 4 15 "''PUT /dev1/a.fid HTTP/1.0''" True "''/dev1/a.fid''"] by simp
qed



end
