(* ===== verification/Mog_Http_Types.thy ===== *)
theory Mog_Http_Types
  imports Mog_Fs Mog_Path
begin

text \<open>
  The state of an HTTP client (\<^verbatim>\<open>struct mog_http\<close> of \<^verbatim>\<open>cmogstored.h\<close>), the results of its event
  handlers, and the parts shared by all methods: resetting the parser, accumulating decimal
  lengths, and the short responses of \<^verbatim>\<open>mog_http_resp0\<close>.
\<close>

datatype mog_http_method = MOG_HTTP_METHOD_NONE | MOG_HTTP_METHOD_GET | MOG_HTTP_METHOD_HEAD
  | MOG_HTTP_METHOD_PUT | MOG_HTTP_METHOD_DELETE | MOG_HTTP_METHOD_MKCOL

datatype mog_chunk_state = MOG_CHUNK_STATE_SIZE | MOG_CHUNK_STATE_DATA | MOG_CHUNK_STATE_TRAILER
  | MOG_CHUNK_STATE_DONE

datatype mog_next = MOG_NEXT_CLOSE | MOG_NEXT_ACTIVE | MOG_NEXT_WAIT_RD | MOG_NEXT_WAIT_WR | MOG_NEXT_IGNORE

datatype mog_parser_state = MOG_PARSER_ERROR | MOG_PARSER_DONE | MOG_PARSER_CONTINUE

text \<open>
  \<open>h_rbuf\<close> is the address of the stashed read buffer, \<open>h_forward\<close> the file being sent or
  received, \<open>h_getonly\<close> tells the GET-only port (\<^verbatim>\<open>MOG_FD_TYPE_HTTPGET\<close>) from the full one.
\<close>

record mog_http =
  h_cs :: int
  h_http_method :: mog_http_method
  h_persistent :: bool
  h_chunked :: bool
  h_has_trailer_md5 :: bool
  h_has_expect_md5 :: bool
  h_has_content_range :: bool
  h_has_range :: bool
  h_skip_rbuf_defer :: bool
  h_chunk_state :: mog_chunk_state
  h_path_tip :: nat
  h_path_end :: nat
  h_line_end :: nat
  h_tmp_tip :: nat
  h_forward :: "mog_file option"
  h_offset :: nat
  h_range_beg :: int
  h_range_end :: int
  h_content_len :: int
  h_rbuf :: "nat option"
  h_wbuf :: wbuf_ptr
  h_expect_md5 :: bytes
  h_getonly :: bool

text \<open>The start state of the generated parser.\<close>

definition http_parser_start :: int where
  "http_parser_start = 1"

definition mog_http_reset_parser :: "mog_http \<Rightarrow> mog_http" where
  "mog_http_reset_parser http =
     \<lparr>h_cs = http_parser_start, h_http_method = MOG_HTTP_METHOD_NONE, h_persistent = False,
      h_chunked = False, h_has_trailer_md5 = False, h_has_expect_md5 = False,
      h_has_content_range = False, h_has_range = False, h_skip_rbuf_defer = False,
      h_chunk_state = MOG_CHUNK_STATE_SIZE, h_path_tip = 0, h_path_end = 0, h_line_end = 0,
      h_tmp_tip = 0, h_forward = None, h_offset = 0, h_range_beg = 0, h_range_end = 0,
      h_content_len = 0, h_rbuf = h_rbuf http, h_wbuf = WNull,
      h_expect_md5 = replicate 16 (CHR 0x00), h_getonly = h_getonly http\<rparr>"

definition mog_http_init :: "mog_http \<Rightarrow> mog_http" where
  "mog_http_init http = mog_http_reset_parser (http\<lparr>h_rbuf := None\<rparr>)"

text \<open>\<^verbatim>\<open>mog_http_reset\<close> also pushes the socket, which sends nothing new.\<close>

definition mog_http_reset :: "mog_http \<Rightarrow> mog_http" where
  "mog_http_reset http = mog_http_reset_parser http"

text \<open>
  \<^verbatim>\<open>length_incr\<close>: the new length and whether the digit was accepted; \<open>-1\<close> after an overflow the
  code notices. The arithmetic wraps at 64 bits.
\<close>

definition length_incr :: "int \<Rightarrow> char \<Rightarrow> bool \<times> int" where
  "length_incr len c =
     (let len1 = wrap64 (len * 10); len2 = wrap64 (len1 + (of_char c - 48)) in
      if len2 \<ge> len then (True, len2) else (False, -1))"

definition crlf :: bytes where
  "crlf = [CHR 0x0D, CHR 0x0A]"

definition resp_bytes :: "bytes \<Rightarrow> bytes \<Rightarrow> bool \<Rightarrow> bytes" where
  "resp_bytes status date keep =
     ''HTTP/1.1 '' @ status @ crlf @ ''Status: '' @ status @ crlf @ ''Date: '' @ date @
     crlf @ ''Content-Length: 0'' @ crlf @ ''Content-Type: text/plain'' @ crlf @
     (if keep then ''Connection: keep-alive'' else ''Connection: close'') @ crlf @ crlf"

text \<open>\<^verbatim>\<open>mog_http_resp0\<close>, over the client and the world.\<close>

definition mog_http_resp0 :: "bytes \<Rightarrow> bool \<Rightarrow> mog_http \<times> world \<Rightarrow> (mog_http \<times> world) outcome" where
  "mog_http_resp0 status alive = (\<lambda>(http, w).
     assert_then (length status * 2 + 1024 < fsbuf_size)
      (let keep = (alive \<and> h_persistent http);
           http1 = (if keep then http else http\<lparr>h_persistent := False\<rparr>) in
       assert_then (h_wbuf http1 = WNull)
         (obind (mog_trywritev [resp_bytes status (w_date w) keep] (w_tx w)) (\<lambda>(wb, tx).
            Ret (http1\<lparr>h_wbuf := wb\<rparr>, w\<lparr>w_tx := tx\<rparr>)))))"

text \<open>The path check of \<^verbatim>\<open>mog_http_path\<close> on a client; \<^verbatim>\<open>errno\<close> changes only as there.\<close>

definition http_path :: "mog_http \<Rightarrow> bytes \<Rightarrow> world \<Rightarrow> (bytes option \<times> world) outcome" where
  "http_path http buf w =
     obind (mog_http_path (h_http_method http = MOG_HTTP_METHOD_PUT) (h_path_tip http) (h_path_end http) buf)
       (\<lambda>(p, e). Ret (p, case e of None \<Rightarrow> w | Some e \<Rightarrow> set_errno e w))"

section \<open>Decimal lengths\<close>

text \<open>The value of a digit string, and the loop of the parser over it.\<close>

fun digits_value :: "int \<Rightarrow> bytes \<Rightarrow> int" where
  "digits_value n [] = n"
| "digits_value n (c # s) = digits_value (n * 10 + (of_char c - 48)) s"

fun length_incrs :: "int \<Rightarrow> bytes \<Rightarrow> bool \<times> int" where
  "length_incrs n [] = (True, n)"
| "length_incrs n (c # s) = (case length_incr n c of (True, m) \<Rightarrow> length_incrs m s | r \<Rightarrow> r)"

lemma is_digit_int: "is_digit c \<Longrightarrow> 0 \<le> (of_char c :: int) - 48 \<and> (of_char c :: int) - 48 \<le> 9"
proof -
  assume "is_digit c"
  then have "int 48 \<le> int (of_char c) \<and> int (of_char c) \<le> int 57"
    unfolding is_digit_def of_nat_le_iff by simp
  then show ?thesis
    by (simp only: of_nat_of_char) simp
qed

lemma digits_value_ge: "0 \<le> n \<Longrightarrow> \<forall>c \<in> set s. is_digit c \<Longrightarrow> n \<le> digits_value n s"
proof (induction s arbitrary: n)
  case (Cons c s)
  have d: "0 \<le> (of_char c :: int) - 48"
    using Cons.prems(2) is_digit_int by simp
  have "n * 10 + (of_char c - 48) \<le> digits_value (n * 10 + (of_char c - 48)) s"
    using Cons d by auto
  then show ?case
    using d Cons.prems(1) by simp
qed simp


text \<open>
  C26: As long as the decimal value of a length stays below 2 to the 63, accumulating its digits
  one by one with \<^verbatim>\<open>length_incr\<close> accepts every digit and gives exactly that value.
\<close>

theorem length_incrs_exact:
  assumes "0 \<le> n" "\<forall>c \<in> set s. is_digit c" "digits_value n s < 2 ^ 63"
  shows "length_incrs n s = (True, digits_value n s)"
  using assms
proof (induction s arbitrary: n)
  case (Cons c s)
  let ?m = "n * 10 + (of_char c - 48)"
  have d: "0 \<le> (of_char c :: int) - 48"
    using Cons.prems(2) is_digit_int by simp
  have m: "0 \<le> ?m" "?m \<le> digits_value ?m s" "n \<le> ?m"
    using d Cons.prems digits_value_ge [of ?m s] by auto
  then have "?m < 2 ^ 63" "n * 10 < 2 ^ 63"
    using Cons.prems(3) d by auto
  then have "length_incr n c = (True, ?m)"
    using m Cons.prems(1) d by (simp add: length_incr_def Let_def wrap64_id)
  then show ?case
    using Cons.IH [of ?m] Cons.prems m by simp
qed simp

theorem length_incrs_exact_witness: "length_incrs 0 ''4096'' = (True, 4096)"
  using length_incrs_exact [of 0 "''4096''"] by (simp add: is_digit_def)


text \<open>A concrete client in the middle of a chunked PUT.\<close>

definition demo_http :: mog_http where
  "demo_http =
     \<lparr>h_cs = 1, h_http_method = MOG_HTTP_METHOD_PUT, h_persistent = False, h_chunked = True,
      h_has_trailer_md5 = False, h_has_expect_md5 = False, h_has_content_range = False, h_has_range = False,
      h_skip_rbuf_defer = False, h_chunk_state = MOG_CHUNK_STATE_SIZE, h_path_tip = 0, h_path_end = 0,
      h_line_end = 0, h_tmp_tip = 0, h_forward = None, h_offset = 0, h_range_beg = 0, h_range_end = 0,
      h_content_len = 0, h_rbuf = None, h_wbuf = WNull, h_expect_md5 = replicate 16 (CHR 0x00), h_getonly = False\<rparr>"

end
