(* ===== verification/Mog_Http_Write.thy ===== *)
theory Mog_Http_Write
  imports Mog_Http_Types
begin

text \<open>
  Writing a request body into the file being uploaded: \<^verbatim>\<open>mog_http_write_full\<close> and
  \<^verbatim>\<open>file_close_null\<close> of \<^verbatim>\<open>http_put.c\<close>, which the chunk parser and the PUT handlers share.
\<close>

section \<open>Model\<close>

text \<open>Closing the forwarded file; a temporary file that was not renamed is removed first.\<close>

definition file_close_null :: "mog_http \<times> world \<Rightarrow> (mog_http \<times> world) outcome" where
  "file_close_null = (\<lambda>(http, w).
     case h_forward http of
       None \<Rightarrow> Ret (http, w)
     | Some f \<Rightarrow>
         obind (case fl_tmppath f of
                  None \<Rightarrow> Ret w
                | Some t \<Rightarrow> obind (mog_unlink t w) (\<lambda>(_, w1). Ret w1))
           (\<lambda>w1. Ret (http\<lparr>h_forward := None\<rparr>, mog_file_close f w1)))"

text \<open>
  The loop of \<^verbatim>\<open>mog_http_write_full\<close>, by recursion over the answers left: a short write goes on
  with the rest, an interrupted one is repeated, and a write of no bytes without an error counts
  as a full disk.
\<close>

fun write_loop :: "pres list \<Rightarrow> nat \<Rightarrow> bytes \<Rightarrow> int \<Rightarrow> world \<Rightarrow> (bool \<times> int \<times> world) outcome" where
  "write_loop [] ino buf foff w = Starved"
| "write_loop (a # as) ino buf foff w =
     obind (sys_pwrite ino buf foff w) (\<lambda>(r, w1).
       if r > 0 then
         (if r = int (length buf) then Ret (True, foff + r, w1)
          else write_loop as ino (drop (nat r) buf) (foff + r) w1)
       else if r < 0 \<and> w_errno w1 = Some EINTR then write_loop as ino buf foff w1
       else Ret (False, foff, if r = 0 \<and> w_errno w1 = None then set_errno ENOSPC w1 else w1))"

definition mog_http_write_full :: "mog_file \<Rightarrow> bytes \<Rightarrow> world \<Rightarrow> (bool \<times> mog_file \<times> world) outcome" where
  "mog_http_write_full f buf w =
     (let f1 = f\<lparr>fl_digest := map_option (\<lambda>d. d @ buf) (fl_digest f)\<rparr> in
      if buf = [] then Ret (True, f1, w)
      else case fl_node f1 of
        FDir \<Rightarrow> Ret (False, f1, set_errno EBADF w)
      | FReg ino \<Rightarrow>
          obind (write_loop (w_pw w) ino buf (fl_foff f1) (w\<lparr>w_errno := None\<rparr>)) (\<lambda>(ok, foff, w1).
            Ret (ok, f1\<lparr>fl_foff := foff\<rparr>, w1)))"

section \<open>What a write does to the world\<close>

text \<open>
  Writing changes nothing but the contents of one inode, the answers, \<^verbatim>\<open>errno\<close> and the log of
  what readers could see.
\<close>

definition only_data :: "nat \<Rightarrow> world \<Rightarrow> world \<Rightarrow> bool" where
  "only_data ino w w' \<longleftrightarrow>
     (\<exists>d pw e l. w' = w\<lparr>w_data := (w_data w)(ino := d), w_pw := pw, w_errno := e, w_log := w_log w @ l\<rparr> \<and>
        (\<forall>v \<in> set l. \<forall>c. w_names w c \<noteq> Some ino \<longrightarrow> v c = visible w c))"

lemma only_dataI:
  "w' = w\<lparr>w_data := (w_data w)(ino := d), w_pw := pw, w_errno := e, w_log := w_log w @ l\<rparr> \<Longrightarrow>
   (\<And>v c. v \<in> set l \<Longrightarrow> w_names w c \<noteq> Some ino \<Longrightarrow> v c = visible w c) \<Longrightarrow> only_data ino w w'"
  unfolding only_data_def by blast

lemma only_data_refl: "only_data ino w w"
  unfolding only_data_def
  by (rule exI [of _ "w_data w ino"], rule exI [of _ "w_pw w"], rule exI [of _ "w_errno w"],
      rule exI [of _ "[]"]) simp

lemma only_data_trans:
  assumes "only_data ino w w1" "only_data ino w1 w2"
  shows "only_data ino w w2"
proof -
  obtain d pw e l where 1: "w1 = w\<lparr>w_data := (w_data w)(ino := d), w_pw := pw, w_errno := e, w_log := w_log w @ l\<rparr>"
    "\<forall>v \<in> set l. \<forall>c. w_names w c \<noteq> Some ino \<longrightarrow> v c = visible w c"
    using assms(1) by (auto simp: only_data_def)
  obtain d' pw' e' l' where 2: "w2 = w1\<lparr>w_data := (w_data w1)(ino := d'), w_pw := pw', w_errno := e', w_log := w_log w1 @ l'\<rparr>"
    "\<forall>v \<in> set l'. \<forall>c. w_names w1 c \<noteq> Some ino \<longrightarrow> v c = visible w1 c"
    using assms(2) by (auto simp: only_data_def)
  have "visible w1 c = visible w c" if "w_names w c \<noteq> Some ino" for c
    using that 1(1) by (cases "w_names w c") (auto simp: visible_def)
  then have "w2 = w\<lparr>w_data := (w_data w)(ino := d'), w_pw := pw', w_errno := e', w_log := w_log w @ l @ l'\<rparr> \<and>
      (\<forall>v \<in> set (l @ l'). \<forall>c. w_names w c \<noteq> Some ino \<longrightarrow> v c = visible w c)"
    using 1 2 by auto
  then show ?thesis
    unfolding only_data_def by blast
qed

lemma sys_pwrite_only:
  assumes "sys_pwrite ino buf foff w = Ret (r, w1)"
  shows "only_data ino w w1" "r \<le> int (length buf)" "-1 \<le> r" "w_pw w = [] \<Longrightarrow> False"
    "w_pw w1 = tl (w_pw w)"
    "w_data w1 ino = overwrite (nat foff) (take (nat r) buf) (w_data w ino)"
proof -
  consider (err) e as where "w_pw w = PErr e # as" "r = -1" "w1 = set_errno e (w\<lparr>w_pw := as\<rparr>)"
    | (wrote) k as where "w_pw w = PSome k # as" "r = int (min k (length buf))"
        "w1 = snap (w\<lparr>w_pw := as, w_data := (w_data w)(ino := overwrite (nat foff) (take (min k (length buf)) buf) (w_data w ino))\<rparr>)"
    using assms by (auto simp: sys_pwrite_def Let_def split: list.splits pres.splits)
  then have all: "only_data ino w w1 \<and> r \<le> int (length buf) \<and> -1 \<le> r \<and> w_pw w \<noteq> [] \<and>
      w_pw w1 = tl (w_pw w) \<and> w_data w1 ino = overwrite (nat foff) (take (nat r) buf) (w_data w ino)"
  proof cases
    case err
    have "w1 = w\<lparr>w_data := (w_data w)(ino := w_data w ino), w_pw := as, w_errno := Some e, w_log := w_log w @ []\<rparr>"
      using err by (simp add: set_errno_def)
    then have "only_data ino w w1"
      by (rule only_dataI) simp
    then show ?thesis
      using err by (simp add: set_errno_def overwrite_def)
  next
    case wrote
    let ?d = "overwrite (nat foff) (take (min k (length buf)) buf) (w_data w ino)"
    let ?v = "visible (w\<lparr>w_pw := as, w_data := (w_data w)(ino := ?d)\<rparr>)"
    have "w1 = w\<lparr>w_data := (w_data w)(ino := ?d), w_pw := as, w_errno := w_errno w, w_log := w_log w @ [?v]\<rparr>"
      using wrote by (simp add: snap_def)
    moreover have "\<forall>c. w_names w c \<noteq> Some ino \<longrightarrow> ?v c = visible w c"
      by (auto simp: visible_def split: option.splits intro: option.map_cong)
    ultimately have "only_data ino w w1"
      by (intro only_dataI [where d = ?d and pw = "as" and e = "w_errno w" and l = "[?v]"]) auto
    then show ?thesis
      using wrote by (simp add: snap_def)
  qed
  then show "only_data ino w w1" "r \<le> int (length buf)" "-1 \<le> r" "w_pw w = [] \<Longrightarrow> False"
    "w_pw w1 = tl (w_pw w)" "w_data w1 ino = overwrite (nat foff) (take (nat r) buf) (w_data w ino)"
    by auto
qed

lemma pwrite_error: "sys_pwrite ino buf foff w = Ret (r, w1) \<Longrightarrow> r < 0 \<Longrightarrow> w_errno w1 \<noteq> None"
  by (auto simp: sys_pwrite_def Let_def set_errno_def split: list.splits pres.splits)

text \<open>The loop writes a prefix of the buffer at the offset, and all of it exactly when it succeeds.\<close>

lemma write_loop_ok:
  assumes "write_loop as ino buf foff w = Ret (ok, foff', w')" "0 \<le> foff" "buf \<noteq> []"
  shows "only_data ino w w' \<and>
    (\<exists>n \<le> length buf. foff' = foff + int n \<and> (ok \<longleftrightarrow> n = length buf) \<and>
       w_data w' ino = overwrite (nat foff) (take n buf) (w_data w ino)) \<and>
    (\<not> ok \<longrightarrow> w_errno w' \<noteq> None)"
  using assms
proof (induction "as" arbitrary: buf foff w)
  case (Cons a "as")
  obtain r w1 where rw: "sys_pwrite ino buf foff w = Ret (r, w1)"
    using Cons.prems(1) by (cases "sys_pwrite ino buf foff w") auto
  note pw = sys_pwrite_only [OF rw]
  consider (full) "r = int (length buf)" | (short) "0 < r" "r < int (length buf)"
    | (intr) "r < 0" "w_errno w1 = Some EINTR" | (fail) "r \<le> 0" "\<not> (r < 0 \<and> w_errno w1 = Some EINTR)"
    using pw(2) by linarith
  then show ?case
  proof cases
    case full
    then have "ok" "foff' = foff + r" "w' = w1"
      using Cons.prems(1,3) rw by auto
    then show ?thesis
      using full pw(1,6) by auto
  next
    case short
    let ?n = "nat r"
    have rest: "write_loop as ino (drop ?n buf) (foff + r) w1 = Ret (ok, foff', w')"
      using Cons.prems(1) rw short by auto
    have "drop ?n buf \<noteq> []" "0 \<le> foff + r"
      using short Cons.prems(2) by auto
    from Cons.IH [OF rest this(2,1)] obtain m where m: "only_data ino w1 w'" "m \<le> length (drop ?n buf)"
      "foff' = foff + r + int m" "ok \<longleftrightarrow> m = length (drop ?n buf)" "\<not> ok \<longrightarrow> w_errno w' \<noteq> None"
      "w_data w' ino = overwrite (nat (foff + r)) (take m (drop ?n buf)) (w_data w1 ino)"
      by blast
    have eq: "nat (foff + r) = nat foff + length (take ?n buf)"
      using short Cons.prems(2) by (simp add: nat_add_distrib)
    have "w_data w' ino = overwrite (nat foff) (take (?n + m) buf) (w_data w ino)"
      unfolding m(6) pw(6) eq overwrite_overwrite take_add by (rule refl)
    moreover have "?n + m \<le> length buf" "foff' = foff + int (?n + m)" "ok \<longleftrightarrow> ?n + m = length buf"
      using m(2,3,4) short by auto
    ultimately show ?thesis
      using only_data_trans [OF pw(1) m(1)] m(5) by blast
  next
    case intr
    have "write_loop as ino buf foff w1 = Ret (ok, foff', w')"
      using Cons.prems(1) rw intr by simp
    moreover have "w_data w1 ino = w_data w ino"
      using pw(6) intr by (simp add: overwrite_def)
    ultimately show ?thesis
      using Cons.IH [of buf foff w1] Cons.prems(2,3) only_data_trans [OF pw(1)] by auto
  next
    case fail
    then have res: "\<not> ok" "foff' = foff" "w' = (if r = 0 \<and> w_errno w1 = None then set_errno ENOSPC w1 else w1)"
      using Cons.prems(1) rw by (auto split: if_splits)
    have "only_data ino w1 (set_errno ENOSPC w1)"
      by (rule only_dataI [where d = "w_data w1 ino" and pw = "w_pw w1" and e = "Some ENOSPC" and l = "[]"]) (simp_all add: set_errno_def)
    then have "only_data ino w w'"
      using res(3) only_data_trans [OF pw(1)] pw(1) by simp
    moreover have "w_data w' ino = overwrite (nat foff) (take 0 buf) (w_data w ino)"
      using res(3) pw(6) fail by (simp add: overwrite_def set_errno_def)
    moreover have "w_errno w' \<noteq> None"
      using res(3) fail pwrite_error [OF rw] by (auto simp: set_errno_def)
    ultimately show ?thesis
      using res Cons.prems(3) by (intro conjI exI [of _ 0]) auto
  qed
qed simp

section \<open>Properties\<close>

lemma write_full_effect:
  assumes "mog_http_write_full f buf w = Ret (ok, f', w')" "fl_node f = FReg ino" "0 \<le> fl_foff f"
  shows "\<exists>n \<le> length buf.
    w_data w' = (w_data w)(ino := overwrite (nat (fl_foff f)) (take n buf) (w_data w ino)) \<and>
    f' = f\<lparr>fl_foff := fl_foff f + int n, fl_digest := map_option (\<lambda>d. d @ buf) (fl_digest f)\<rparr> \<and>
    (ok \<longleftrightarrow> n = length buf) \<and> (\<not> ok \<longrightarrow> w_errno w' \<noteq> None) \<and> w_names w' = w_names w \<and> w_dirs w' = w_dirs w"
proof (cases "buf = []")
  case True
  then show ?thesis
    using assms(1) by (auto simp: mog_http_write_full_def Let_def overwrite_def)
next
  case False
  let ?w = "w\<lparr>w_errno := None\<rparr>"
  obtain foff' where r: "write_loop (w_pw w) ino buf (fl_foff f) ?w = Ret (ok, foff', w')"
    "f' = f\<lparr>fl_digest := map_option (\<lambda>d. d @ buf) (fl_digest f), fl_foff := foff'\<rparr>"
    using assms(1,2) False
    by (cases "write_loop (w_pw w) ino buf (fl_foff f) ?w") (auto simp: mog_http_write_full_def Let_def)
  obtain n where n: "n \<le> length buf" "foff' = fl_foff f + int n" "ok \<longleftrightarrow> n = length buf"
    "w_data w' ino = overwrite (nat (fl_foff f)) (take n buf) (w_data w ino)"
    "\<not> ok \<longrightarrow> w_errno w' \<noteq> None" "only_data ino ?w w'"
    using write_loop_ok [OF r(1) assms(3) False] by auto
  obtain d pw e l where w': "w' = ?w\<lparr>w_data := (w_data ?w)(ino := d), w_pw := pw, w_errno := e, w_log := w_log ?w @ l\<rparr>"
    using n(6) by (auto simp: only_data_def)
  then have "w_data w' = (w_data w)(ino := overwrite (nat (fl_foff f)) (take n buf) (w_data w ino))"
    using n(4) by simp
  then show ?thesis
    using n w' r(2) by (intro exI [of _ n]) simp
qed

text \<open>
  C14: Whenever \<^verbatim>\<open>mog_http_write_full\<close> returns, the bytes at the file's offset are a prefix of
  the buffer, written once and in order however the kernel splits, interrupts or refuses the
  writes, and the offset has moved by exactly that prefix; it is the whole buffer if and only if
  the result is true, and on failure \<^verbatim>\<open>errno\<close> says why. The digest, if any, got the buffer; no
  other file and no name changes.
\<close>

theorem write_full_exact:
  assumes "mog_http_write_full f buf w = Ret (ok, f', w')" "fl_node f = FReg ino" "0 \<le> fl_foff f"
  shows "\<exists>n \<le> length buf.
    w_data w' = (w_data w)(ino := overwrite (nat (fl_foff f)) (take n buf) (w_data w ino)) \<and>
    f' = f\<lparr>fl_foff := fl_foff f + int n, fl_digest := map_option (\<lambda>d. d @ buf) (fl_digest f)\<rparr> \<and>
    (ok \<longleftrightarrow> n = length buf) \<and> (\<not> ok \<longrightarrow> w_errno w' \<noteq> None) \<and> w_names w' = w_names w \<and> w_dirs w' = w_dirs w"
  using assms by (rule write_full_effect)

theorem write_full_exact_witness:
  "\<exists>f' w'. mog_http_write_full (file_init (FReg 0) 0) ''abc'' (demo_world\<lparr>w_pw := [PSome 2, PErr EINTR, PSome 5]\<rparr>)
     = Ret (True, f', w') \<and> w_data w' 0 = ''abc'' \<and> fl_foff f' = 3"
proof -
  let ?w = "demo_world\<lparr>w_pw := [PSome 2, PErr EINTR, PSome 5]\<rparr>"
  obtain f' w' where r: "mog_http_write_full (file_init (FReg 0) 0) ''abc'' ?w = Ret (True, f', w')"
    by (simp add: mog_http_write_full_def file_init_def demo_world_def sys_pwrite_def snap_def
        set_errno_def Let_def)
  have "fl_node (file_init (FReg 0) 0) = FReg 0" "0 \<le> fl_foff (file_init (FReg 0) 0)"
    by (simp_all add: file_init_def)
  from write_full_exact [OF r this] r show ?thesis
    by (auto simp: file_init_def demo_world_def overwrite_def)
qed

text \<open>The answers that let a write go on, and the bytes they grant.\<close>

fun grants :: "pres \<Rightarrow> nat" where
  "grants (PSome k) = k"
| "grants (PErr _) = 0"

definition helpful :: "pres \<Rightarrow> bool" where
  "helpful a \<longleftrightarrow> a = PErr EINTR \<or> (\<exists>k > 0. a = PSome k)"

lemma write_loop_progress:
  assumes "\<forall>a \<in> set (w_pw w). helpful a" "length buf \<le> sum_list (map grants (w_pw w))" "buf \<noteq> []"
  shows "\<exists>foff' w'. write_loop (w_pw w) ino buf foff w = Ret (True, foff', w')"
  using assms
proof (induction "w_pw w" arbitrary: buf foff w)
  case (Cons a "as")
  have script: "w_pw w = a # as"
    using Cons.hyps(2) by simp
  consider (intr) "a = PErr EINTR" | (some) k where "a = PSome k" "k > 0"
    using Cons.prems(1) script by (auto simp: helpful_def)
  then show ?case
  proof cases
    case intr
    let ?w = "set_errno EINTR (w\<lparr>w_pw := as\<rparr>)"
    have "write_loop (a # as) ino buf foff w = write_loop as ino buf foff ?w" "w_pw ?w = as"
      using script intr by (simp_all add: sys_pwrite_def set_errno_def)
    moreover have "\<exists>foff' w'. write_loop (w_pw ?w) ino buf foff ?w = Ret (True, foff', w')"
      using Cons.prems script intr by (intro Cons.hyps(1)) (auto simp: set_errno_def)
    ultimately show ?thesis
      using script by simp
  next
    case some
    let ?n = "min k (length buf)"
    let ?w = "snap (w\<lparr>w_pw := as, w_data := (w_data w)(ino := overwrite (nat foff) (take ?n buf) (w_data w ino))\<rparr>)"
    have step: "sys_pwrite ino buf foff w = Ret (int ?n, ?w)" "w_pw ?w = as" "?n > 0"
      using script some Cons.prems(3) by (simp_all add: sys_pwrite_def snap_def Let_def)
    show ?thesis
    proof (cases "length buf \<le> k")
      case True
      then show ?thesis
        using step script by simp
    next
      case False
      have "\<exists>foff' w'. write_loop (w_pw ?w) ino (drop k buf) (foff + int k) ?w = Ret (True, foff', w')"
        using Cons.prems script some False by (intro Cons.hyps(1)) (auto simp: snap_def)
      then show ?thesis
        using step script False some by simp
    qed
  qed
qed simp

text \<open>
  C15: A body write completes whenever the kernel keeps accepting bytes: if every answer is a
  positive count or an interruption and together they grant at least the length of the buffer,
  \<^verbatim>\<open>mog_http_write_full\<close> returns true.
\<close>

theorem write_full_completes:
  assumes "fl_node f = FReg ino" "\<forall>a \<in> set (w_pw w). helpful a"
    "length buf \<le> sum_list (map grants (w_pw w))"
  shows "\<exists>f' w'. mog_http_write_full f buf w = Ret (True, f', w')"
proof (cases "buf = []")
  case False
  then show ?thesis
    using write_loop_progress [of "w\<lparr>w_errno := None\<rparr>" buf ino "fl_foff f"] assms
    by (auto simp: mog_http_write_full_def Let_def)
qed (simp add: mog_http_write_full_def)

theorem write_full_completes_witness:
  "\<exists>f' w'. mog_http_write_full (file_init (FReg 3) 0) ''hello'' (demo_world\<lparr>w_pw := [PSome 1, PErr EINTR, PSome 4]\<rparr>)
     = Ret (True, f', w')"
  by (rule write_full_completes [where ino = 3]) (auto simp: file_init_def helpful_def)

end
