(* ===== verification/Mog_Base64.thy ===== *)
theory Mog_Base64
  imports Mog_Prelude
begin

text \<open>
  \<^verbatim>\<open>lib/base64.c\<close>, as the HTTP parsers use it for \<^verbatim>\<open>Content-MD5\<close>: decoding without a context
  (newlines are garbage) into a buffer of limited size, and the encoder of the same file.
\<close>

section \<open>Model\<close>

definition b64str :: bytes where
  "b64str = ''ABCDEFGHIJKLMNOPQRSTUVWXYZabcdefghijklmnopqrstuvwxyz0123456789+/''"

text \<open>The table \<^verbatim>\<open>b64\<close>; \<open>None\<close> is \<open>-1\<close>.\<close>

definition b64 :: "char \<Rightarrow> nat option" where
  "b64 c =
     (let n = of_char c :: nat in
      if 65 \<le> n \<and> n \<le> 90 then Some (n - 65)
      else if 97 \<le> n \<and> n \<le> 122 then Some (n - 71)
      else if 48 \<le> n \<and> n \<le> 57 then Some (n + 4)
      else if n = 43 then Some 62
      else if n = 47 then Some 63
      else None)"

definition isbase64 :: "char \<Rightarrow> bool" where
  "isbase64 c \<longleftrightarrow> b64 c \<noteq> None"

definition b64v :: "char \<Rightarrow> nat" where
  "b64v c = (case b64 c of None \<Rightarrow> 255 | Some v \<Rightarrow> v)"

text \<open>Writing one byte while there is room.\<close>

definition put1 :: "nat \<Rightarrow> bytes \<times> nat \<Rightarrow> bytes \<times> nat" where
  "put1 b = (\<lambda>(out, left). if left > 0 then (out @ [char_of (b mod 256)], left - 1) else (out, left))"

text \<open>
  \<^verbatim>\<open>decode_4\<close> on the input left, with the bytes written so far and the room left; \<open>False\<close> when
  the next quadruple is not valid.
\<close>

definition decode_4 :: "bytes \<Rightarrow> bytes \<times> nat \<Rightarrow> bool \<times> bytes \<times> nat" where
  "decode_4 s ol =
     (if length s < 2 then (False, ol)
      else if \<not> isbase64 (s ! 0) \<or> \<not> isbase64 (s ! 1) then (False, ol)
      else let ol1 = put1 (b64v (s ! 0) * 4 + b64v (s ! 1) div 16) ol in
        if length s = 2 then (False, ol1)
        else if s ! 2 = CHR ''='' then
          (if length s \<noteq> 4 then (False, ol1)
           else if s ! 3 \<noteq> CHR ''='' then (False, ol1)
           else (True, ol1))
        else if \<not> isbase64 (s ! 2) then (False, ol1)
        else let ol2 = put1 (b64v (s ! 1) mod 16 * 16 + b64v (s ! 2) div 4) ol1 in
          if length s = 3 then (False, ol2)
          else if s ! 3 = CHR ''='' then
            (if length s \<noteq> 4 then (False, ol2) else (True, ol2))
          else if \<not> isbase64 (s ! 3) then (False, ol2)
          else (True, put1 (b64v (s ! 2) mod 4 * 64 + b64v (s ! 3)) ol2))"

text \<open>A quadruple that does not decode is tried once more before giving up; the result is the same.\<close>

fun decode_loop :: "bytes \<Rightarrow> bytes \<times> nat \<Rightarrow> bool \<times> bytes \<times> nat" where
  "decode_loop (a # b # c # d # r) ol =
     (case decode_4 (a # b # c # d # r) ol of
        (True, ol') \<Rightarrow> decode_loop r ol'
      | (False, ol') \<Rightarrow> (False, ol'))"
| "decode_loop [] ol = (True, ol)"
| "decode_loop s ol = decode_4 s ol"

text \<open>\<^verbatim>\<open>base64_decode_ctx\<close> without context: success and the bytes written.\<close>

definition base64_decode_ctx :: "bytes \<Rightarrow> nat \<Rightarrow> bool \<times> bytes" where
  "base64_decode_ctx s outlen = (case decode_loop s ([], outlen) of (ok, out, _) \<Rightarrow> (ok, out))"

text \<open>\<^verbatim>\<open>base64_encode\<close> into a large enough buffer.\<close>

fun base64_encode :: "bytes \<Rightarrow> bytes" where
  "base64_encode [] = []"
| "base64_encode [a] =
     [b64str ! (of_char a div 4), b64str ! (of_char a mod 4 * 16), CHR ''='', CHR ''='']"
| "base64_encode [a, b] =
     [b64str ! (of_char a div 4), b64str ! (of_char a mod 4 * 16 + of_char b div 16),
      b64str ! (of_char b mod 16 * 4), CHR ''='']"
| "base64_encode (a # b # c # r) =
     [b64str ! (of_char a div 4), b64str ! (of_char a mod 4 * 16 + of_char b div 16),
      b64str ! (of_char b mod 16 * 4 + of_char c div 64), b64str ! (of_char c mod 64)] @ base64_encode r"

section \<open>Properties\<close>

lemma b64_b64str: "n < 64 \<Longrightarrow> b64 (b64str ! n) = Some n \<and> b64str ! n \<noteq> CHR ''=''"
proof -
  have "\<forall>n \<in> set [0..<64]. b64 (b64str ! n) = Some n \<and> b64str ! n \<noteq> CHR ''=''"
    by (simp add: b64str_def b64_def upt_rec)
  then show "n < 64 \<Longrightarrow> ?thesis"
    by simp
qed

lemma b64_letter [simp]:
  assumes "n < 64"
  shows "isbase64 (b64str ! n)" "b64v (b64str ! n) = n" "b64str ! n \<noteq> CHR ''=''"
  using b64_b64str [OF assms] by (simp_all add: isbase64_def b64v_def)

lemma of_char_less [simp]: "(of_char c :: nat) < 256"
  by (rule nat_of_char_less_256)

lemma sextets:
  fixes a b c :: nat
  assumes "a < 256" "b < 256" "c < 256"
  shows "a div 4 < 64" "a mod 4 * 16 < 64" "a mod 4 * 16 + b div 16 < 64" "b mod 16 * 4 < 64"
    "b mod 16 * 4 + c div 64 < 64" "c mod 64 < 64"
    "(a div 4 * 4 + a mod 4 * 16 div 16) mod 256 = a"
    "(a div 4 * 4 + (a mod 4 * 16 + b div 16) div 16) mod 256 = a"
    "((a mod 4 * 16 + b div 16) mod 16 * 16 + b mod 16 * 4 div 4) mod 256 = b"
    "((a mod 4 * 16 + b div 16) mod 16 * 16 + (b mod 16 * 4 + c div 64) div 4) mod 256 = b"
    "((b mod 16 * 4 + c div 64) mod 4 * 64 + c mod 64) mod 256 = c"
proof -
  have d: "b div 16 < 16" "c div 64 < 4"
    using assms by (simp_all add: less_mult_imp_div_less)
  show "a div 4 < 64" "a mod 4 * 16 < 64" "a mod 4 * 16 + b div 16 < 64" "b mod 16 * 4 < 64"
    "b mod 16 * 4 + c div 64 < 64" "c mod 64 < 64"
  proof -
    have m: "a mod 4 < 4" "b mod 16 < 16" "c mod 64 < 64"
      by simp_all
    show "a div 4 < 64"
      using less_mult_imp_div_less [of a 64 4] assms(1) by simp
    show "a mod 4 * 16 < 64" "a mod 4 * 16 + b div 16 < 64" "b mod 16 * 4 < 64"
      "b mod 16 * 4 + c div 64 < 64" "c mod 64 < 64"
      using m d by linarith+
  qed
  have q: "(a mod 4 * 16 + b div 16) div 16 = a mod 4" "(a mod 4 * 16 + b div 16) mod 16 = b div 16"
    "(b mod 16 * 4 + c div 64) div 4 = b mod 16" "(b mod 16 * 4 + c div 64) mod 4 = c div 64"
    using d by simp_all
  have r: "a div 4 * 4 + a mod 4 = a" "b div 16 * 16 + b mod 16 = b" "c div 64 * 64 + c mod 64 = c"
    by simp_all
  show "(a div 4 * 4 + a mod 4 * 16 div 16) mod 256 = a"
    "(a div 4 * 4 + (a mod 4 * 16 + b div 16) div 16) mod 256 = a"
    "((a mod 4 * 16 + b div 16) mod 16 * 16 + b mod 16 * 4 div 4) mod 256 = b"
    "((a mod 4 * 16 + b div 16) mod 16 * 16 + (b mod 16 * 4 + c div 64) div 4) mod 256 = b"
    "((b mod 16 * 4 + c div 64) mod 4 * 64 + c mod 64) mod 256 = c"
    unfolding q using assms by (simp_all add: r)
qed

lemma put1_mod: "x mod 256 = of_char c \<Longrightarrow> put1 x = put1 (of_char c)"
  by (simp add: put1_def fun_eq_iff)

lemma decode_4_full:
  assumes "p < 64" "q < 64" "r < 64" "s < 64"
  shows "decode_4 (b64str ! p # b64str ! q # b64str ! r # b64str ! s # rest) ol =
    (True, put1 (r mod 4 * 64 + s) (put1 (q mod 16 * 16 + r div 4) (put1 (p * 4 + q div 16) ol)))"
  by (simp only: decode_4_def Let_def b64_letter [OF assms(1)] b64_letter [OF assms(2)]
      b64_letter [OF assms(3)] b64_letter [OF assms(4)] nth_Cons_0 nth_Cons_Suc One_nat_def
      numeral_2_eq_2 numeral_3_eq_3) simp

lemma decode_4_pad2:
  assumes "p < 64" "q < 64"
  shows "decode_4 [b64str ! p, b64str ! q, CHR ''='', CHR ''=''] ol = (True, put1 (p * 4 + q div 16) ol)"
  by (simp only: decode_4_def Let_def b64_letter [OF assms(1)] b64_letter [OF assms(2)]
      nth_Cons_0 nth_Cons_Suc One_nat_def numeral_2_eq_2 numeral_3_eq_3) simp

lemma decode_4_pad1:
  assumes "p < 64" "q < 64" "r < 64"
  shows "decode_4 [b64str ! p, b64str ! q, b64str ! r, CHR ''=''] ol =
    (True, put1 (q mod 16 * 16 + r div 4) (put1 (p * 4 + q div 16) ol))"
  by (simp only: decode_4_def Let_def b64_letter [OF assms(1)] b64_letter [OF assms(2)]
      b64_letter [OF assms(3)] nth_Cons_0 nth_Cons_Suc One_nat_def numeral_2_eq_2 numeral_3_eq_3) simp

lemma put1_char: "0 < left \<Longrightarrow> put1 (of_char c) (out, left) = (out @ [c], left - 1)"
  by (simp add: put1_def)

lemma decode_encode:
  "length bs \<le> left \<Longrightarrow> decode_loop (base64_encode bs) (out, left) = (True, out @ bs, left - length bs)"
proof (induction bs arbitrary: out left rule: base64_encode.induct)
  case (2 a)
  note q = sextets [of "of_char a" 0 0, simplified]
  have "put1 (of_char a div 4 * 4 + of_char a mod 4 * 16 div 16) = put1 (of_char a)"
    by (rule put1_mod) (rule sextets [of _ 0 0], simp_all)
  then show ?case
    using 2 by (simp add: decode_4_pad2 q put1_char)
next
  case (3 a b)
  note q = sextets [of "of_char a" "of_char b" 0]
  have "put1 (of_char a div 4 * 4 + (of_char a mod 4 * 16 + of_char b div 16) div 16) = put1 (of_char a)"
    "put1 ((of_char a mod 4 * 16 + of_char b div 16) mod 16 * 16 + of_char b mod 16 * 4 div 4) = put1 (of_char b)"
    by (rule put1_mod, rule q; simp)+
  then show ?case
    using 3 q(1,3,4) by (simp only: base64_encode.simps decode_loop.simps decode_4_pad1 of_char_less
      simp_thms zero_less_numeral) (simp add: put1_char)
next
  case (4 a b c r)
  note q = sextets [of "of_char a" "of_char b" "of_char c"]
  have p: "put1 (of_char a div 4 * 4 + (of_char a mod 4 * 16 + of_char b div 16) div 16) = put1 (of_char a)"
    "put1 ((of_char a mod 4 * 16 + of_char b div 16) mod 16 * 16 + (of_char b mod 16 * 4 + of_char c div 64) div 4)
       = put1 (of_char b)"
    "put1 ((of_char b mod 16 * 4 + of_char c div 64) mod 4 * 64 + of_char c mod 64) = put1 (of_char c)"
    by (rule put1_mod, rule q; simp)+
  have "decode_loop (base64_encode (a # b # c # r)) (out, left) =
      decode_loop (base64_encode r) (put1 (of_char c) (put1 (of_char b) (put1 (of_char a) (out, left))))"
    by (simp only: base64_encode.simps append_Cons append_Nil decode_loop.simps
        decode_4_full [OF q(1) q(3) q(5) q(6), OF of_char_less of_char_less of_char_less
          of_char_less of_char_less of_char_less of_char_less of_char_less of_char_less
          of_char_less of_char_less of_char_less] p prod.case) simp
  then show ?case
    using 4 by (simp add: put1_char)
qed simp

text \<open>
  C23: Decoding what \<^verbatim>\<open>base64_encode\<close> produced succeeds and gives back the bytes, whenever the
  output buffer has room for them.
\<close>

theorem base64_roundtrip:
  assumes "length bs \<le> outlen"
  shows "base64_decode_ctx (base64_encode bs) outlen = (True, bs)"
  using decode_encode [OF assms, of "[]"] by (simp add: base64_decode_ctx_def)

theorem base64_roundtrip_witness:
  "base64_decode_ctx (base64_encode ''0123456789abcdef'') 16 = (True, ''0123456789abcdef'')"
  using base64_roundtrip [of "''0123456789abcdef''" 16] by simp

lemma decode_4_valid:
  assumes "isbase64 a" "isbase64 b" "isbase64 c" "isbase64 d" "3 \<le> left"
  shows "\<exists>o3. decode_4 (a # b # c # d # r) (out, left) = (True, out @ o3, left - 3) \<and> length o3 = 3"
proof -
  have "c \<noteq> CHR ''=''" "d \<noteq> CHR ''=''"
    using assms(3,4) by (auto simp: isbase64_def b64_def)
  then show ?thesis
    using assms by (simp add: decode_4_def Let_def put1_def)
qed

lemma decode_22:
  "length s = 4 * n + 2 \<Longrightarrow> \<forall>c \<in> set s. isbase64 c \<Longrightarrow> 3 * n + 1 \<le> left \<Longrightarrow>
     \<exists>o1. decode_loop (s @ ''=='') (out, left) = (True, out @ o1, left - (3 * n + 1)) \<and> length o1 = 3 * n + 1"
proof (induction n arbitrary: s out left)
  case 0
  then obtain a b where "s = [a, b]"
    by (auto simp: length_Suc_conv numeral_2_eq_2)
  then show ?case
    using 0 by (simp add: decode_4_def Let_def put1_def)
next
  case (Suc n)
  then obtain a b c d r where s: "s = a # b # c # d # r" "length r = 4 * n + 2"
    by (auto simp: length_Suc_conv numeral_eq_Suc)
  then obtain o3 where o3: "decode_4 (a # b # c # d # r @ ''=='') (out, left) = (True, out @ o3, left - 3)"
    "length o3 = 3"
    using decode_4_valid [of a b c d left "r @ ''==''" out] Suc.prems by auto
  have "3 * n + 1 \<le> left - 3" "\<forall>c \<in> set r. isbase64 c"
    using Suc.prems s by simp_all
  then obtain o1 where "decode_loop (r @ ''=='') (out @ o3, left - 3) = (True, (out @ o3) @ o1, left - 3 - (3 * n + 1))"
    "length o1 = 3 * n + 1"
    using Suc.IH [OF s(2), of "left - 3" "out @ o3"] by blast
  then show ?case
    using o3 s Suc.prems(3) by (intro exI [of _ "o3 @ o1"]) simp
qed

text \<open>
  C29: The value the header parser hands to the decoder, 22 letters of the alphabet and two equal
  signs, always decodes to exactly 16 bytes: the assertion behind \<^verbatim>\<open>Content-MD5\<close> cannot fail.
\<close>

theorem base64_md5_length:
  assumes "length s = 22" "\<forall>c \<in> set s. isbase64 c"
  shows "\<exists>out. base64_decode_ctx (s @ ''=='') 16 = (True, out) \<and> length out = 16"
  using decode_22 [of s 5 16 "[]"] assms by (auto simp: base64_decode_ctx_def)

theorem base64_md5_length_witness:
  "\<exists>out. base64_decode_ctx (''1B2M2Y8AsgTpgAmY7PhCfg'' @ ''=='') 16 = (True, out) \<and> length out = 16"
  using base64_md5_length [of "''1B2M2Y8AsgTpgAmY7PhCfg''"] by (simp add: isbase64_def b64_def)

end
