(* ===== verification/Mog_Chunk.thy ===== *)
theory Mog_Chunk
  imports Mog_Http_Write Mog_Base64
begin

text \<open>
  \<^verbatim>\<open>chunk_parser.c\<close>: the generated automaton that decodes a chunked request body and writes the
  data of the chunks to the file as it goes. States carry the numbers of the generated code; the
  transition functions below follow its cases, and the actions keep its order, assertions and
  early exits. Characters are read as signed, as the code compares them.
\<close>

section \<open>Model\<close>

definition sc :: "char \<Rightarrow> int" where
  "sc c = (let n = of_char c :: int in if n \<ge> 128 then n - 256 else n)"

definition is_xdigit :: "int \<Rightarrow> bool" where
  "is_xdigit c \<longleftrightarrow> (48 \<le> c \<and> c \<le> 57) \<or> (65 \<le> c \<and> c \<le> 70) \<or> (97 \<le> c \<and> c \<le> 102)"

definition is_alnum :: "int \<Rightarrow> bool" where
  "is_alnum c \<longleftrightarrow> (48 \<le> c \<and> c \<le> 57) \<or> (65 \<le> c \<and> c \<le> 90) \<or> (97 \<le> c \<and> c \<le> 122)"

definition is_b64c :: "int \<Rightarrow> bool" where
  "is_b64c c \<longleftrightarrow> c = 43 \<or> (47 \<le> c \<and> c \<le> 57) \<or> (65 \<le> c \<and> c \<le> 90) \<or> (97 \<le> c \<and> c \<le> 122)"

definition hexchar2off :: "int \<Rightarrow> int outcome" where
  "hexchar2off x =
     (if 48 \<le> x \<and> x \<le> 57 then Ret (x - 48)
      else if 97 \<le> x \<and> x \<le> 102 then Ret (x - 97 + 10)
      else if 65 \<le> x \<and> x \<le> 70 then Ret (x - 65 + 10)
      else Abort)"

text \<open>
  The variables of \<^verbatim>\<open>mog_chunk_parse\<close>: \<open>cp_p\<close> is \<^verbatim>\<open>p - buf\<close>, which the final-chunk action can move to
  \<open>-1\<close> for a moment.
\<close>

record chunk_vars =
  cp_p :: int
  cp_cs :: nat
  cp_done :: bool
  cp_http :: mog_http
  cp_w :: world

text \<open>How a case ends: at a label \<^verbatim>\<open>stN\<close> (which advances \<open>p\<close>) or at \<^verbatim>\<open>_out\<close>.\<close>

datatype chunk_ctl = Goto nat chunk_vars | Out chunk_vars

definition st0 :: "chunk_vars \<Rightarrow> chunk_ctl outcome" where
  "st0 v = Ret (Out (v\<lparr>cp_cs := 0\<rparr>))"

definition go :: "nat \<Rightarrow> chunk_vars \<Rightarrow> chunk_ctl outcome" where
  "go n v = Ret (Goto n v)"

text \<open>\<^verbatim>\<open>{p++; cs = n; goto _out;}\<close>\<close>

definition fbreak :: "nat \<Rightarrow> chunk_vars \<Rightarrow> chunk_ctl outcome" where
  "fbreak n v = Ret (Out (v\<lparr>cp_p := cp_p v + 1, cp_cs := n\<rparr>))"

definition to_u16 :: "int \<Rightarrow> nat outcome" where
  "to_u16 n = assert_then (n \<le> 65535) (Ret (nat n))"

definition set_line_end :: "chunk_vars \<Rightarrow> chunk_vars outcome" where
  "set_line_end v = obind (to_u16 (cp_p v)) (\<lambda>n. Ret (v\<lparr>cp_http := (cp_http v)\<lparr>h_line_end := n\<rparr>\<rparr>))"

text \<open>Action \<^verbatim>\<open>tr2\<close>: one more hexadecimal digit of the chunk size; an overflow leaves in state \<open>n\<close>.\<close>

definition size_digit :: "nat \<Rightarrow> int \<Rightarrow> (chunk_vars \<Rightarrow> chunk_ctl outcome) \<Rightarrow> chunk_vars \<Rightarrow> chunk_ctl outcome" where
  "size_digit n c nxt v =
     obind (hexchar2off c) (\<lambda>x.
       let prev = h_content_len (cp_http v); len = wrap64 (wrap64 (prev * 16) + x) in
       if len < prev
       then fbreak n (v\<lparr>cp_w := set_errno ERANGE (cp_w v), cp_http := (cp_http v)\<lparr>h_content_len := -1\<rparr>\<rparr>)
       else nxt (v\<lparr>cp_http := (cp_http v)\<lparr>h_content_len := len\<rparr>\<rparr>))"

text \<open>
  The action on the first byte of chunk data: the final chunk goes to the trailers, any other
  writes what the buffer holds of it and either leaves, with more data to come, or goes on with
  the next chunk header. \<open>n\<close> is the state it leaves in.
\<close>

definition chunk_data :: "nat \<Rightarrow> bytes \<Rightarrow> chunk_vars \<Rightarrow> chunk_ctl outcome" where
  "chunk_data n buf v =
     (let http = cp_http v in
      if h_content_len http = 0 then
        (let v1 = v\<lparr>cp_http := http\<lparr>h_chunk_state := MOG_CHUNK_STATE_TRAILER\<rparr>, cp_p := cp_p v - 1\<rparr> in
         if cp_p v1 \<ge> 0
         then assert_then (buf ! nat (cp_p v1) = CHR 0x0A) (obind (set_line_end v1) (go 16))
         else go 16 v1)
      else assert_then (h_content_len http > 0)
       (let buf_remain = int (length buf) - cp_p v in
        if buf_remain = 0 then fbreak n v
        else assert_then (buf_remain > 0)
         (let wr_len = min (h_content_len http) buf_remain in
          assert_then (wr_len \<noteq> 0)
           (case h_forward http of
              None \<Rightarrow> Abort
            | Some f \<Rightarrow>
                obind (mog_http_write_full f (take (nat wr_len) (drop (nat (cp_p v)) buf)) (cp_w v))
                 (\<lambda>(ok, f1, w1).
                   let v1 = v\<lparr>cp_w := w1, cp_http := http\<lparr>h_forward := Some f1\<rparr>\<rparr> in
                   if \<not> ok then fbreak n v1
                   else
                    (let http2 = (cp_http v1)\<lparr>h_content_len := h_content_len http - wr_len\<rparr>;
                         v2 = v1\<lparr>cp_http := http2, cp_p := cp_p v + wr_len - 1\<rparr> in
                     assert_then (cp_p v2 < int (length buf))
                      (if h_content_len http2 > 0 then fbreak n (v2\<lparr>cp_done := True\<rparr>)
                       else
                        (let v3 = v2\<lparr>cp_http := http2\<lparr>h_chunk_state := MOG_CHUNK_STATE_SIZE\<rparr>\<rparr> in
                         if wr_len = buf_remain
                         then (if h_content_len http2 = 0 then go 1 v3
                               else fbreak n (v3\<lparr>cp_done := True\<rparr>))
                         else assert_then (h_content_len http2 = 0) (go 1 v3)))))))))"

text \<open>States 1 to 6 and 60 to 64: the chunk header and the first data byte.\<close>

definition chunk_size_trans :: "bytes \<Rightarrow> int \<Rightarrow> chunk_vars \<Rightarrow> chunk_ctl outcome" where
  "chunk_size_trans buf c v =
     (let cs = cp_cs v in
      if cs = 1 then (if c = 13 then go 2 v else if is_xdigit c then size_digit 4 c (go 4) v else st0 v)
      else if cs = 2 then (if c = 10 then go 3 v else st0 v)
      else if cs = 3 then (if is_xdigit c then size_digit 4 c (go 4) v else st0 v)
      else if cs = 4 then
        (if c = 10 then st0 v else if c = 13 then go 6 v
         else if is_xdigit c then size_digit 4 c (go 4) v else go 5 v)
      else if cs = 5 then (if c = 10 then st0 v else if c = 13 then go 6 v else go 5 v)
      else if c = 10
           then go 60 (v\<lparr>cp_http := (cp_http v)\<lparr>h_chunk_state := MOG_CHUNK_STATE_DATA\<rparr>\<rparr>)
           else st0 v)"

text \<open>
  States 60 to 64 take a hexadecimal digit both as data and as the next size. In \<^verbatim>\<open>tr65\<close> the data
  action comes first; it always ends at a label of its own or at \<^verbatim>\<open>_out\<close>, so the size action written
  behind it is never reached. \<^verbatim>\<open>tr71\<close> runs the size action first.
\<close>

definition tr65 :: "bytes \<Rightarrow> chunk_vars \<Rightarrow> chunk_ctl outcome" where
  "tr65 buf v = chunk_data 62 buf v"

definition tr71 :: "bytes \<Rightarrow> int \<Rightarrow> chunk_vars \<Rightarrow> chunk_ctl outcome" where
  "tr71 buf c v = size_digit 62 c (chunk_data 62 buf) v"

definition chunk_data_trans :: "bytes \<Rightarrow> int \<Rightarrow> chunk_vars \<Rightarrow> chunk_ctl outcome" where
  "chunk_data_trans buf c v =
     (let cs = cp_cs v in
      if cs = 60 then (if is_xdigit c then tr65 buf v else chunk_data 61 buf v)
      else if cs = 61 then (if is_xdigit c then size_digit 62 c (go 62) v else go 61 v)
      else if cs = 62 then
        (if c = 10 then go 61 v else if c = 13 then go 63 v
         else if is_xdigit c then size_digit 62 c (go 62) v else go 62 v)
      else if cs = 63 then
        (if c = 10 then go 64 (v\<lparr>cp_http := (cp_http v)\<lparr>h_chunk_state := MOG_CHUNK_STATE_DATA\<rparr>\<rparr>)
         else if is_xdigit c then size_digit 62 c (go 62) v else go 61 v)
      else (if is_xdigit c then tr71 buf c v else chunk_data 61 buf v))"

text \<open>States 7 to 15 and 65: a trailer line that is ignored.\<close>

definition ignored_trans :: "int \<Rightarrow> chunk_vars \<Rightarrow> chunk_ctl outcome" where
  "ignored_trans c v =
     (let cs = cp_cs v in
      if cs = 7 then (if c = 45 \<or> is_alnum c then go 8 v else st0 v)
      else if cs = 8 then (if c = 45 then go 8 v else if c = 58 then go 9 v else if is_alnum c then go 8 v else st0 v)
      else if cs = 9 then
        (if c = 9 \<or> c = 32 then go 9 v else if c = 13 then go 13 v
         else if c = 127 \<or> (0 \<le> c \<and> c \<le> 31) then st0 v else go 10 v)
      else if cs = 10 then
        (if c = 9 then go 11 v else if c = 13 then go 12 v
         else if c = 127 \<or> (0 \<le> c \<and> c \<le> 31) then st0 v else go 10 v)
      else if cs = 11 then (if c = 9 \<or> c = 32 then go 11 v else if c = 13 then go 12 v else st0 v)
      else if cs = 12 then (if c = 10 then obind (set_line_end v) (go 16) else st0 v)
      else if cs = 13 then (if c = 10 then obind (set_line_end v) (go 14) else st0 v)
      else if cs = 14 then (if c = 9 \<or> c = 32 then go 15 v else st0 v)
      else if cs = 15 then
        (if c = 9 \<or> c = 32 then go 15 v
         else if c = 127 \<or> (0 \<le> c \<and> c \<le> 31) then st0 v else go 10 v)
      else st0 v)"

text \<open>
  Action \<^verbatim>\<open>tr16\<close>: the line is not \<^verbatim>\<open>Content-MD5\<close>; go back to its start and skip it. Action \<^verbatim>\<open>tr31\<close> refuses
  a malformed value first.
\<close>

definition tr16 :: "bytes \<Rightarrow> chunk_vars \<Rightarrow> chunk_ctl outcome" where
  "tr16 buf v =
     obind (if h_line_end (cp_http v) > 0
            then assert_then (buf ! h_line_end (cp_http v) = CHR 0x0A)
                   (Ret (v\<lparr>cp_p := int (h_line_end (cp_http v)) + 1\<rparr>))
            else Ret (v\<lparr>cp_p := 0\<rparr>)) (\<lambda>v1.
       assert_then (cp_p v1 \<le> int (length buf)) (go 7 v1))"

definition tr31 :: "bytes \<Rightarrow> chunk_vars \<Rightarrow> chunk_ctl outcome" where
  "tr31 buf v =
     (if \<not> h_has_expect_md5 (cp_http v) then fbreak 0 (v\<lparr>cp_w := set_errno EINVAL (cp_w v)\<rparr>)
      else tr16 buf v)"

text \<open>States 18 to 28 match the rest of \<^verbatim>\<open>Content-MD5:\<close> in either case.\<close>

definition md5_name :: "(int \<times> int) list" where
  "md5_name = [(79, 111), (78, 110), (84, 116), (69, 101), (78, 110), (84, 116), (45, 45), (77, 109),
     (68, 100), (53, 53), (58, 58)]"

definition trailer_trans :: "bytes \<Rightarrow> int \<Rightarrow> chunk_vars \<Rightarrow> chunk_ctl outcome" where
  "trailer_trans buf c v =
     (let cs = cp_cs v in
      if cs = 16 then (if c = 13 then go 17 v else if c = 67 \<or> c = 99 then go 18 v else tr16 buf v)
      else if cs = 17 then
        (if c = 10
         then obind (set_line_end (v\<lparr>cp_http := (cp_http v)\<lparr>h_chunk_state := MOG_CHUNK_STATE_DONE\<rparr>\<rparr>))
                (\<lambda>v1. fbreak 66 (v1\<lparr>cp_done := True\<rparr>))
         else st0 v)
      else if c = fst (md5_name ! (cs - 18)) \<or> c = snd (md5_name ! (cs - 18)) then go (cs + 1) v
      else tr16 buf v)"

text \<open>States 29 to 32: white space before the value; 33 to 53: its letters; 54 to 59: the end of the line.\<close>

definition md5_sep_trans :: "bytes \<Rightarrow> int \<Rightarrow> chunk_vars \<Rightarrow> chunk_ctl outcome" where
  "md5_sep_trans buf c v =
     (let cs = cp_cs v;
          tr33 = (\<lambda>v. obind (to_u16 (cp_p v)) (\<lambda>n. go 33 (v\<lparr>cp_http := (cp_http v)\<lparr>h_tmp_tip := n\<rparr>\<rparr>)))
      in
      if cs = 29 then
        (if c = 9 \<or> c = 32 then go 29 v else if c = 13 then go 30 v
         else if is_b64c c then tr33 v else tr31 buf v)
      else if cs = 30 then (if c = 10 then obind (set_line_end v) (go 31) else tr16 buf v)
      else if cs = 31 then (if c = 9 \<or> c = 32 then go 32 v else tr16 buf v)
      else (if c = 9 \<or> c = 32 then go 32 v else if is_b64c c then tr33 v else tr31 buf v))"

definition md5_val_trans :: "bytes \<Rightarrow> int \<Rightarrow> chunk_vars \<Rightarrow> chunk_ctl outcome" where
  "md5_val_trans buf c v = (if is_b64c c then go (cp_cs v + 1) v else tr31 buf v)"

text \<open>Actions \<^verbatim>\<open>tr59\<close> and \<^verbatim>\<open>tr60\<close>: decode the value.\<close>

definition md5_decode :: "bytes \<Rightarrow> chunk_vars \<Rightarrow> chunk_vars outcome" where
  "md5_decode buf v =
     obind (to_u16 (cp_p v)) (\<lambda>tmp_end.
       case base64_decode_ctx (take (tmp_end - h_tmp_tip (cp_http v)) (drop (h_tmp_tip (cp_http v)) buf)) 16 of
         (rc, out) \<Rightarrow>
           assert_then (rc \<and> length out = 16)
             (Ret (v\<lparr>cp_http := (cp_http v)\<lparr>h_expect_md5 := out, h_has_expect_md5 := True\<rparr>\<rparr>)))"

definition md5_end_trans :: "bytes \<Rightarrow> int \<Rightarrow> chunk_vars \<Rightarrow> chunk_ctl outcome" where
  "md5_end_trans buf c v =
     (let cs = cp_cs v in
      if cs = 54 \<or> cs = 55 then (if c = 61 then go (cs + 1) v else tr31 buf v)
      else if cs = 56 then
        (if c = 9 \<or> c = 32 then obind (md5_decode buf v) (go 57)
         else if c = 13 then obind (md5_decode buf v) (go 58) else tr31 buf v)
      else if cs = 57 then (if c = 9 \<or> c = 32 then go 57 v else if c = 13 then go 58 v else tr31 buf v)
      else if cs = 58 then (if c = 10 then obind (set_line_end v) (go 59) else tr31 buf v)
      else (if c = 13 then go 17 v else if c = 67 \<or> c = 99 then go 18 v else tr31 buf v))"

definition chunk_trans :: "bytes \<Rightarrow> chunk_vars \<Rightarrow> chunk_ctl outcome" where
  "chunk_trans buf v =
     (let cs = cp_cs v; c = sc (buf ! nat (cp_p v)) in
      if 1 \<le> cs \<and> cs \<le> 6 then chunk_size_trans buf c v
      else if 60 \<le> cs \<and> cs \<le> 64 then chunk_data_trans buf c v
      else if 7 \<le> cs \<and> cs \<le> 15 then ignored_trans c v
      else if 16 \<le> cs \<and> cs \<le> 28 then trailer_trans buf c v
      else if 29 \<le> cs \<and> cs \<le> 32 then md5_sep_trans buf c v
      else if 33 \<le> cs \<and> cs \<le> 53 then md5_val_trans buf c v
      else if 54 \<le> cs \<and> cs \<le> 59 then md5_end_trans buf c v
      else st0 v)"

text \<open>The loop over the buffer, with fuel: a skipped trailer line is read twice, everything else once.\<close>

fun chunk_exec :: "nat \<Rightarrow> bytes \<Rightarrow> chunk_vars \<Rightarrow> chunk_vars outcome" where
  "chunk_exec 0 buf v = Starved"
| "chunk_exec (Suc fuel) buf v =
     obind (chunk_trans buf v) (\<lambda>r.
       case r of
         Out v1 \<Rightarrow> Ret v1
       | Goto n v1 \<Rightarrow>
           let v2 = v1\<lparr>cp_p := cp_p v1 + 1, cp_cs := n\<rparr> in
           if cp_p v2 = int (length buf) then Ret v2 else chunk_exec fuel buf v2)"

definition mog_chunk_init :: "mog_http \<Rightarrow> mog_http outcome" where
  "mog_chunk_init http =
     assert_then (h_chunked http)
       (Ret (http\<lparr>h_cs := 1, h_line_end := 0, h_content_len := 0, h_offset := 0,
              h_chunk_state := MOG_CHUNK_STATE_SIZE\<rparr>))"

text \<open>\<open>fuel\<close> bounds the number of transitions.\<close>

definition chunk_fuel :: "nat \<Rightarrow> nat" where
  "chunk_fuel len = (len + 2) * (2 * len + 4)"

definition mog_chunk_parse :: "bytes \<Rightarrow> mog_http \<times> world \<Rightarrow> (mog_parser_state \<times> mog_http \<times> world) outcome" where
  "mog_chunk_parse buf = (\<lambda>(http, w).
     assert_then (h_wbuf http = WNull) (assert_then (h_offset http \<le> length buf)
      (let v = \<lparr>cp_p = int (h_offset http), cp_cs = nat (h_cs http), cp_done = False, cp_http = http,
                cp_w = w\<lparr>w_errno := None\<rparr>\<rparr> in
       obind (if h_offset http = length buf then Ret v else chunk_exec (chunk_fuel (length buf)) buf v) (\<lambda>v1.
         let cs = (if cp_done v1 then 60 else cp_cs v1);
             http1 = (cp_http v1)\<lparr>h_cs := int cs, h_offset := nat (cp_p v1)\<rparr> in
         if cs = 0 \<or> w_errno (cp_w v1) \<noteq> None then Ret (MOG_PARSER_ERROR, http1, cp_w v1)
         else assert_then (cp_p v1 \<le> int (length buf))
           (Ret (if cs = 60 then MOG_PARSER_DONE else MOG_PARSER_CONTINUE, http1, cp_w v1))))))"

section \<open>Running the automaton\<close>

text \<open>The rest of the buffer at a position.\<close>

definition rest_at :: "bytes \<Rightarrow> int \<Rightarrow> bytes \<Rightarrow> bool" where
  "rest_at buf p s \<longleftrightarrow> 0 \<le> p \<and> nat p \<le> length buf \<and> drop (nat p) buf = s"

lemma rest_at_Cons:
  assumes "rest_at buf p (c # s)"
  shows "buf ! nat p = c" "rest_at buf (p + 1) s" "p + 1 = int (length buf) \<longleftrightarrow> s = []" "p < int (length buf)" "0 \<le> p"
proof -
  have p: "0 \<le> p" "drop (nat p) buf = c # s"
    using assms by (simp_all add: rest_at_def)
  then have "nat p < length buf"
    by (metis drop_all leI list.distinct(1))
  then show lt: "p < int (length buf)" and "0 \<le> p"
    using p(1) by linarith+
  show "buf ! nat p = c"
    using p(2) \<open>nat p < length buf\<close> by (metis Cons_nth_drop_Suc list.inject)
  have s: "drop (Suc (nat p)) buf = s"
    using p(2) \<open>nat p < length buf\<close> by (metis Cons_nth_drop_Suc list.inject)
  have n: "nat (p + 1) = Suc (nat p)"
    using p(1) by simp
  show "rest_at buf (p + 1) s"
    using s n p(1) lt by (simp add: rest_at_def)
  show "p + 1 = int (length buf) \<longleftrightarrow> s = []"
    using s n p(1) lt by auto
qed

lemma rest_at_append: "rest_at buf p (d @ s) \<Longrightarrow> rest_at buf (p + int (length d)) s"
proof (induction d arbitrary: p)
  case (Cons c d)
  then show ?case
    using rest_at_Cons(2) [of buf p c "d @ s"] Cons.IH [of "p + 1"] by (simp add: ac_simps)
qed simp

lemma rest_at_take: "rest_at buf p (d @ s) \<Longrightarrow> take (length d) (drop (nat p) buf) = d"
  by (simp add: rest_at_def)

lemma rest_at_length: "rest_at buf p s \<Longrightarrow> int (length buf) - p = int (length s)"
  by (auto simp: rest_at_def)

lemma exec_goto:
  assumes "chunk_trans buf v = Ret (Goto n v1)" "cp_p v1 + 1 \<noteq> int (length buf)" "0 < fuel"
  shows "chunk_exec fuel buf v = chunk_exec (fuel - 1) buf (v1\<lparr>cp_p := cp_p v1 + 1, cp_cs := n\<rparr>)"
  using assms by (cases fuel) (simp_all add: Let_def)

lemma exec_out:
  assumes "chunk_trans buf v = Ret (Out v1)" "0 < fuel"
  shows "chunk_exec fuel buf v = Ret v1"
  using assms by (cases fuel) simp_all

text \<open>The value of a hexadecimal size.\<close>

definition xval :: "char \<Rightarrow> int" where
  "xval c = (let x = sc c in if x \<le> 57 then x - 48 else if 97 \<le> x then x - 87 else x - 55)"

fun hexval :: "int \<Rightarrow> bytes \<Rightarrow> int" where
  "hexval n [] = n"
| "hexval n (c # s) = hexval (n * 16 + xval c) s"

lemma xval_range: "is_xdigit (sc c) \<Longrightarrow> hexchar2off (sc c) = Ret (xval c) \<and> 0 \<le> xval c \<and> xval c \<le> 15"
  by (auto simp: is_xdigit_def hexchar2off_def xval_def Let_def)

lemma hexval_ge: "0 \<le> n \<Longrightarrow> \<forall>c \<in> set s. is_xdigit (sc c) \<Longrightarrow> n \<le> hexval n s"
proof (induction s arbitrary: n)
  case (Cons c s)
  have x: "0 \<le> xval c"
    using Cons.prems(2) xval_range by simp
  then have "n * 16 + xval c \<le> hexval (n * 16 + xval c) s"
    using Cons.IH [of "n * 16 + xval c"] Cons.prems by simp
  then show ?case
    using x Cons.prems(1) by simp
qed simp

lemma size_digit_ok:
  assumes "is_xdigit (sc c)" "0 \<le> h_content_len (cp_http v)" "h_content_len (cp_http v) * 16 + xval c < 2 ^ 63"
  shows "size_digit n (sc c) nxt v =
    nxt (v\<lparr>cp_http := (cp_http v)\<lparr>h_content_len := h_content_len (cp_http v) * 16 + xval c\<rparr>\<rparr>)"
  using assms xval_range [OF assms(1)] by (simp add: size_digit_def Let_def)

text \<open>What the size line does: from the first digit on to the first data byte.\<close>

definition with_len :: "int \<Rightarrow> mog_http \<Rightarrow> mog_http" where
  "with_len n http = http\<lparr>h_content_len := n\<rparr>"

lemma xdigit_not: "is_xdigit x \<Longrightarrow> x \<noteq> 10 \<and> x \<noteq> 13"
  by (auto simp: is_xdigit_def)

lemma sc_crlf [simp]: "sc (CHR 0x0D) = 13" "sc (CHR 0x0A) = 10"
  by (simp_all add: sc_def)

abbreviation cv :: "int \<Rightarrow> nat \<Rightarrow> bool \<Rightarrow> mog_http \<Rightarrow> world \<Rightarrow> chunk_vars" where
  "cv p cs dn http w \<equiv> \<lparr>cp_p = p, cp_cs = cs, cp_done = dn, cp_http = http, cp_w = w\<rparr>"

lemma exec_cv:
  assumes "chunk_trans buf v = Ret (Goto n (cv p cs dn http w))" "p + 1 \<noteq> int (length buf)" "0 < fuel"
  shows "chunk_exec fuel buf v = chunk_exec (fuel - 1) buf (cv (p + 1) n dn http w)"
  using exec_goto [OF assms(1)] assms(2,3) by simp

lemma trans_digit:
  assumes "cs \<in> {1, 3, 4}" "buf ! nat p = c" "is_xdigit (sc c)"
    "0 \<le> h_content_len http" "h_content_len http * 16 + xval c < 2 ^ 63"
  shows "chunk_trans buf (cv p cs dn http w) =
    Ret (Goto 4 (cv p cs dn (http\<lparr>h_content_len := h_content_len http * 16 + xval c\<rparr>) w))"
proof -
  have sd: "size_digit 4 (sc c) (go 4) (cv p k dn http w) =
      Ret (Goto 4 (cv p k dn (http\<lparr>h_content_len := h_content_len http * 16 + xval c\<rparr>) w))" for k
    using size_digit_ok [OF assms(3), of "cv p k dn http w" 4 "go 4"] assms(4,5) by (simp add: go_def)
  have t: "chunk_trans buf (cv p cs dn http w) = chunk_size_trans buf (sc c) (cv p cs dn http w)"
    using assms(1,2) by (auto simp: chunk_trans_def)
  show ?thesis
    unfolding t chunk_size_trans_def Let_def
    using assms(1,3) xdigit_not [OF assms(3)] by (auto simp: sd)
qed

lemma exec_digits:
  assumes "rest_at buf p (hs @ CHR 0x0D # CHR 0x0A # s)" "s \<noteq> []"
    "\<forall>c \<in> set hs. is_xdigit (sc c)" "0 \<le> h_content_len http"
    "hexval (h_content_len http) hs < 2 ^ 63" "length hs + 2 \<le> fuel"
  shows "chunk_exec fuel buf (cv p 4 dn http w) = chunk_exec (fuel - (length hs + 2)) buf
    (cv (p + int (length hs + 2)) 60 dn
       (http\<lparr>h_content_len := hexval (h_content_len http) hs, h_chunk_state := MOG_CHUNK_STATE_DATA\<rparr>) w)"
  using assms
proof (induction hs arbitrary: p http fuel)
  case Nil
  note r = rest_at_Cons [OF Nil.prems(1) [simplified]]
  note r1 = rest_at_Cons [OF r(2)]
  have 1: "chunk_exec fuel buf (cv p 4 dn http w) = chunk_exec (fuel - 1) buf (cv (p + 1) 6 dn http w)"
    by (rule exec_cv) (use r(1,3) Nil.prems(6) in
        \<open>simp_all add: chunk_trans_def chunk_size_trans_def Let_def go_def\<close>)
  have "chunk_exec (fuel - 1) buf (cv (p + 1) 6 dn http w) = chunk_exec (fuel - 1 - 1) buf
      (cv (p + 1 + 1) 60 dn (http\<lparr>h_chunk_state := MOG_CHUNK_STATE_DATA\<rparr>) w)"
    by (rule exec_cv) (use r1(1,3) Nil.prems(2,6) in
        \<open>simp_all add: chunk_trans_def chunk_size_trans_def Let_def go_def\<close>)
  then show ?case
    using 1 by (simp add: add.commute [of 2])
next
  case (Cons c hs)
  let ?n = "h_content_len http * 16 + xval c"
  note r = rest_at_Cons [OF Cons.prems(1) [simplified]]
  have x: "is_xdigit (sc c)" "0 \<le> xval c"
    using Cons.prems(3) xval_range by auto
  have n: "0 \<le> ?n" "?n < 2 ^ 63"
    using x(2) Cons.prems(3,4,5) hexval_ge [of ?n hs] by auto
  have "chunk_exec fuel buf (cv p 4 dn http w) =
      chunk_exec (fuel - 1) buf (cv (p + 1) 4 dn (http\<lparr>h_content_len := ?n\<rparr>) w)"
    by (rule exec_cv [OF trans_digit [where c = c]]) (use r(1,3) x n Cons.prems(4,6) in simp_all)
  also have "\<dots> = chunk_exec (fuel - 1 - (length hs + 2)) buf
    (cv (p + 1 + int (length hs + 2)) 60 dn (http\<lparr>h_content_len := hexval ?n hs,
       h_chunk_state := MOG_CHUNK_STATE_DATA\<rparr>) w)"
    using Cons.IH [OF r(2), of "http\<lparr>h_content_len := ?n\<rparr>" "fuel - 1"] Cons.prems n by simp
  finally show ?case
    by (simp add: ac_simps)
qed

text \<open>A whole chunk in the buffer: its data are written and the next header is expected.\<close>

lemma exec_data:
  assumes "rest_at buf p (d @ CHR 0x0D # CHR 0x0A # s)" "s \<noteq> []" "d \<noteq> []"
    "h_content_len http = int (length d)" "h_forward http = Some f"
    "mog_http_write_full f d w = Ret (True, f1, w1)" "3 \<le> fuel"
  shows "chunk_exec fuel buf (cv p 60 dn http w) = chunk_exec (fuel - 3) buf
    (cv (p + int (length d) + 2) 3 dn (http\<lparr>h_forward := Some f1, h_content_len := 0,
       h_chunk_state := MOG_CHUNK_STATE_SIZE\<rparr>) w1)"
proof -
  let ?http = "http\<lparr>h_forward := Some f1, h_content_len := 0, h_chunk_state := MOG_CHUNK_STATE_SIZE\<rparr>"
  let ?p = "p + int (length d)"
  have p: "0 \<le> p"
    using assms(1) by (simp add: rest_at_def)
  have remain: "int (length buf) - p = int (length d) + 2 + int (length s)"
    using rest_at_length [OF assms(1)] by simp
  have tk: "take (length d) (drop (nat p) buf) = d"
    by (rule rest_at_take [OF assms(1)])
  have data: "chunk_data n buf (cv p 60 dn http w) = Ret (Goto 1 (cv (?p - 1) 60 dn ?http w1))" for n
    using assms(3,4,5,6) remain tk by (simp add: chunk_data_def Let_def assert_then_def go_def)
  note r = rest_at_Cons [OF rest_at_append [OF assms(1)]]
  note r1 = rest_at_Cons [OF r(2)]
  have "chunk_trans buf (cv p 60 dn http w) = Ret (Goto 1 (cv (?p - 1) 60 dn ?http w1))"
    using data by (simp add: chunk_trans_def chunk_data_trans_def tr65_def)
  then have 1: "chunk_exec fuel buf (cv p 60 dn http w) = chunk_exec (fuel - 1) buf (cv ?p 1 dn ?http w1)"
    using exec_cv [of buf "cv p 60 dn http w" 1 "?p - 1" 60 dn ?http w1 fuel] r(4) assms(7) by simp
  have 2: "chunk_exec (fuel - 1) buf (cv ?p 1 dn ?http w1) = chunk_exec (fuel - 1 - 1) buf (cv (?p + 1) 2 dn ?http w1)"
    by (rule exec_cv) (use r(1,3) assms(7) in
        \<open>simp_all add: chunk_trans_def chunk_size_trans_def go_def\<close>)
  have 3: "chunk_exec (fuel - 1 - 1) buf (cv (?p + 1) 2 dn ?http w1) =
      chunk_exec (fuel - 1 - 1 - 1) buf (cv (?p + 1 + 1) 3 dn ?http w1)"
    by (rule exec_cv) (use r1(1,3) assms(2,7) in
        \<open>simp_all add: chunk_trans_def chunk_size_trans_def go_def\<close>)
  have "fuel - 1 - 1 - 1 = fuel - 3" "?p + 1 + 1 = ?p + 2"
    by simp_all
  then show ?thesis
    using 1 2 3 by (simp only:)
qed

text \<open>The last chunk and an empty trailer.\<close>

lemma exec_final:
  assumes "rest_at buf p (CHR 0x0D # CHR 0x0A # s)" "h_content_len http = 0" "1 \<le> p"
    "buf ! nat (p - 1) = CHR 0x0A" "int (length buf) \<le> 65535" "3 \<le> fuel"
  shows "chunk_exec fuel buf (cv p 60 dn http w) =
    Ret (cv (p + 2) 66 True (http\<lparr>h_chunk_state := MOG_CHUNK_STATE_DONE, h_line_end := nat (p + 1)\<rparr>) w)"
proof -
  note r = rest_at_Cons [OF assms(1)]
  note r1 = rest_at_Cons [OF r(2)]
  let ?h1 = "http\<lparr>h_chunk_state := MOG_CHUNK_STATE_TRAILER, h_line_end := nat (p - 1)\<rparr>"
  have data: "chunk_data n buf (cv p 60 dn http w) = Ret (Goto 16 (cv (p - 1) 60 dn ?h1 w))" for n
    using assms(2,3,4,5) r(4) by (simp add: chunk_data_def Let_def assert_then_def set_line_end_def to_u16_def go_def)
  have "chunk_trans buf (cv p 60 dn http w) = Ret (Goto 16 (cv (p - 1) 60 dn ?h1 w))"
    using data by (simp add: chunk_trans_def chunk_data_trans_def tr65_def)
  then have 1: "chunk_exec fuel buf (cv p 60 dn http w) = chunk_exec (fuel - 1) buf (cv p 16 dn ?h1 w)"
    using exec_cv [of buf "cv p 60 dn http w" 16 "p - 1" 60 dn ?h1 w fuel] r(4) assms(6) by simp
  have 2: "chunk_exec (fuel - 1) buf (cv p 16 dn ?h1 w) = chunk_exec (fuel - 1 - 1) buf (cv (p + 1) 17 dn ?h1 w)"
    by (rule exec_cv) (use r(1,3) assms(6) in \<open>simp_all add: chunk_trans_def trailer_trans_def go_def\<close>)
  have "chunk_trans buf (cv (p + 1) 17 dn ?h1 w) =
      Ret (Out (cv (p + 2) 66 True (http\<lparr>h_chunk_state := MOG_CHUNK_STATE_DONE, h_line_end := nat (p + 1)\<rparr>) w))"
    using r1(1,4) assms(5)
    by (simp add: chunk_trans_def trailer_trans_def set_line_end_def to_u16_def assert_then_def fbreak_def)
  then show ?thesis
    using 1 2 exec_out [of buf "cv (p + 1) 17 dn ?h1 w" _ "fuel - 1 - 1"] assms(6) by simp
qed

section \<open>Decoding\<close>

text \<open>
  A chunked body: each chunk is a size in hexadecimal and as many bytes of data, and a size of
  zero and an empty trailer end the body.
\<close>

definition chunk_wf :: "bytes \<times> bytes \<Rightarrow> bool" where
  "chunk_wf = (\<lambda>(hs, d). hs \<noteq> [] \<and> (\<forall>c \<in> set hs. is_xdigit (sc c)) \<and> d \<noteq> [] \<and> hexval 0 hs = int (length d))"

definition size_wf :: "bytes \<Rightarrow> bool" where
  "size_wf z \<longleftrightarrow> z \<noteq> [] \<and> (\<forall>c \<in> set z. is_xdigit (sc c)) \<and> hexval 0 z = 0"

fun encode_chunks :: "(bytes \<times> bytes) list \<Rightarrow> bytes \<Rightarrow> bytes" where
  "encode_chunks [] z = z @ crlf @ crlf"
| "encode_chunks ((hs, d) # cs) z = hs @ crlf @ d @ crlf @ encode_chunks cs z"

text \<open>Writing the data of the chunks one after the other.\<close>

primrec write_chunks :: "mog_file \<Rightarrow> bytes list \<Rightarrow> world \<Rightarrow> (mog_file \<times> world) outcome" where
  "write_chunks f [] w = Ret (f, w)"
| "write_chunks f (d # ds) w =
     obind (mog_http_write_full f d w) (\<lambda>(ok, f1, w1).
       if ok then write_chunks f1 ds w1 else Abort)"

lemma exec_size:
  assumes "cs \<in> {1, 3}" "rest_at buf p (hs @ CHR 0x0D # CHR 0x0A # s)" "s \<noteq> []" "hs \<noteq> []"
    "\<forall>c \<in> set hs. is_xdigit (sc c)" "h_content_len http = 0" "hexval 0 hs < 2 ^ 63" "length hs + 2 \<le> fuel"
  shows "chunk_exec fuel buf (cv p cs dn http w) = chunk_exec (fuel - (length hs + 2)) buf
    (cv (p + int (length hs + 2)) 60 dn (http\<lparr>h_content_len := hexval 0 hs, h_chunk_state := MOG_CHUNK_STATE_DATA\<rparr>) w)"
proof -
  obtain c hs' where hs: "hs = c # hs'"
    using assms(4) by (cases hs) auto
  note r = rest_at_Cons [OF assms(2) [unfolded hs append_Cons]]
  have x: "is_xdigit (sc c)" "0 \<le> xval c" "xval c \<le> 15"
    using assms(5) hs xval_range by auto
  have t: "chunk_trans buf (cv p cs dn http w) =
      Ret (Goto 4 (cv p cs dn (http\<lparr>h_content_len := h_content_len http * 16 + xval c\<rparr>) w))"
    by (rule trans_digit) (use assms(1,6) r(1) x in auto)
  have 1: "chunk_exec fuel buf (cv p cs dn http w) =
      chunk_exec (fuel - 1) buf (cv (p + 1) 4 dn (http\<lparr>h_content_len := xval c\<rparr>) w)"
    using exec_cv [OF t] r(3) assms(6,8) by simp
  show ?thesis
    unfolding 1 using exec_digits [OF r(2) assms(3), of "http\<lparr>h_content_len := xval c\<rparr>" "fuel - 1" dn w]
      assms(5,7,8) hs x by (simp add: ac_simps)
qed

lemma encode_not_Nil [simp]: "encode_chunks cs z \<noteq> []"
  by (cases cs) (auto simp: crlf_def)

lemma exec_chunks:
  assumes "cs0 \<in> {1, 3}" "rest_at buf p (encode_chunks cs z @ t)" "\<forall>c \<in> set cs. chunk_wf c" "size_wf z"
    "h_content_len http = 0" "h_forward http = Some f" "write_chunks f (map snd cs) w = Ret (f', w')"
    "int (length buf) \<le> 65535" "length (encode_chunks cs z) < fuel"
  shows "\<exists>q. chunk_exec fuel buf (cv p cs0 dn http w) =
    Ret (cv (p + int (length (encode_chunks cs z))) 66 True
      (http\<lparr>h_chunk_state := MOG_CHUNK_STATE_DONE, h_forward := Some f', h_content_len := 0, h_line_end := q\<rparr>) w')"
  using assms
proof (induction cs arbitrary: cs0 p http f w fuel)
  case Nil
  let ?h = "http\<lparr>h_content_len := hexval 0 z, h_chunk_state := MOG_CHUNK_STATE_DATA\<rparr>"
  let ?p = "p + int (length z + 2)"
  have at: "rest_at buf p (z @ CHR 0x0D # CHR 0x0A # CHR 0x0D # CHR 0x0A # t)"
    using Nil.prems(2) by (simp add: crlf_def)
  have z: "z \<noteq> []" "\<forall>c \<in> set z. is_xdigit (sc c)" "hexval 0 z = 0"
    using Nil.prems(4) by (simp_all add: size_wf_def)
  have 1: "chunk_exec fuel buf (cv p cs0 dn http w) = chunk_exec (fuel - (length z + 2)) buf (cv ?p 60 dn ?h w)"
    by (rule exec_size [OF Nil.prems(1) at]) (use z Nil.prems(5,9) in \<open>simp_all add: crlf_def\<close>)
  note a1 = rest_at_append [OF at]
  note b1 = rest_at_Cons [OF a1]
  note b2 = rest_at_Cons [OF b1(2)]
  have q: "p + int (length z) + 1 + 1 = ?p" "p + int (length z) + 1 = ?p - 1"
    by simp_all
  have p0: "0 \<le> p"
    using at by (simp add: rest_at_def)
  have "chunk_exec (fuel - (length z + 2)) buf (cv ?p 60 dn ?h w) =
      Ret (cv (?p + 2) 66 True (?h\<lparr>h_chunk_state := MOG_CHUNK_STATE_DONE, h_line_end := nat (?p + 1)\<rparr>) w)"
    by (rule exec_final) (use b2(1,2) q z(3) Nil.prems(8,9) p0 in \<open>simp_all add: crlf_def ac_simps\<close>)
  moreover have "?h\<lparr>h_chunk_state := MOG_CHUNK_STATE_DONE, h_line_end := nat (?p + 1)\<rparr> =
      http\<lparr>h_chunk_state := MOG_CHUNK_STATE_DONE, h_forward := Some f', h_content_len := 0, h_line_end := nat (?p + 1)\<rparr>"
    using Nil.prems(5,6,7) z(3) by (cases http) simp
  ultimately show ?case
    using 1 Nil.prems(7) by (intro exI [of _ "nat (?p + 1)"]) (simp add: crlf_def ac_simps)
next
  case (Cons c cs)
  obtain hs d where c: "c = (hs, d)"
    by (cases c)
  let ?s = "encode_chunks cs z @ t"
  let ?n = "length hs + 2"
  let ?h1 = "http\<lparr>h_content_len := hexval 0 hs, h_chunk_state := MOG_CHUNK_STATE_DATA\<rparr>"
  have wf: "hs \<noteq> []" "\<forall>c \<in> set hs. is_xdigit (sc c)" "d \<noteq> []" "hexval 0 hs = int (length d)"
    using Cons.prems(3) c by (auto simp: chunk_wf_def)
  obtain f1 w1 where wr: "mog_http_write_full f d w = Ret (True, f1, w1)"
    "write_chunks f1 (map snd cs) w1 = Ret (f', w')"
    using Cons.prems(7) c
    by (cases "mog_http_write_full f d w") (auto split: if_splits)
  have at: "rest_at buf p (hs @ CHR 0x0D # CHR 0x0A # d @ CHR 0x0D # CHR 0x0A # ?s)"
    using Cons.prems(2) c by (simp add: crlf_def)
  have lt: "int (length d) < 2 ^ 63"
    using rest_at_length [OF at] at Cons.prems(8) by (auto simp: rest_at_def)
  have fu: "?n + (length d + 2 + length (encode_chunks cs z)) < fuel" "1 \<le> length d"
    using Cons.prems(9) c wf(3) by (simp_all add: crlf_def Suc_le_eq)
  have 1: "chunk_exec fuel buf (cv p cs0 dn http w) = chunk_exec (fuel - ?n) buf (cv (p + int ?n) 60 dn ?h1 w)"
    by (rule exec_size [OF Cons.prems(1) at]) (use wf lt Cons.prems(5) fu in simp_all)
  have "rest_at buf (p + int (length (hs @ [CHR 0x0D, CHR 0x0A]))) (d @ CHR 0x0D # CHR 0x0A # ?s)"
    by (rule rest_at_append) (use at in simp)
  then have at1: "rest_at buf (p + int ?n) (d @ CHR 0x0D # CHR 0x0A # ?s)"
    by (simp add: ac_simps)
  let ?h2 = "?h1\<lparr>h_forward := Some f1, h_content_len := 0, h_chunk_state := MOG_CHUNK_STATE_SIZE\<rparr>"
  have 2: "chunk_exec (fuel - ?n) buf (cv (p + int ?n) 60 dn ?h1 w) =
      chunk_exec (fuel - ?n - 3) buf (cv (p + int ?n + int (length d) + 2) 3 dn ?h2 w1)"
    by (rule exec_data [OF at1 _ wf(3) _ _ wr(1)]) (use wf(4) Cons.prems(6) fu in simp_all)
  have "rest_at buf (p + int ?n + int (length (d @ [CHR 0x0D, CHR 0x0A]))) ?s"
    by (rule rest_at_append) (use at1 in simp)
  then have at2: "rest_at buf (p + int ?n + int (length d) + 2) ?s"
    by (simp add: ac_simps)
  have fu2: "length (encode_chunks cs z) < fuel - ?n - 3"
    using fu by linarith
  have wf2: "\<forall>c \<in> set cs. chunk_wf c"
    using Cons.prems(3) by simp
  obtain q where 3: "chunk_exec (fuel - ?n - 3) buf (cv (p + int ?n + int (length d) + 2) 3 dn ?h2 w1) =
    Ret (cv (p + int ?n + int (length d) + 2 + int (length (encode_chunks cs z))) 66 True
      (?h2\<lparr>h_chunk_state := MOG_CHUNK_STATE_DONE, h_forward := Some f', h_content_len := 0, h_line_end := q\<rparr>) w')"
    using Cons.IH [OF _ at2 wf2 Cons.prems(4) _ _ wr(2) Cons.prems(8) fu2, of 3 ?h2] by auto
  have 4: "?h2\<lparr>h_chunk_state := MOG_CHUNK_STATE_DONE, h_forward := Some f', h_content_len := 0, h_line_end := q\<rparr> =
      http\<lparr>h_chunk_state := MOG_CHUNK_STATE_DONE, h_forward := Some f', h_content_len := 0, h_line_end := q\<rparr>"
    by (cases http) simp
  have 5: "p + int ?n + int (length d) + 2 + int (length (encode_chunks cs z)) =
      p + int (length (encode_chunks (c # cs) z))"
    using c by (simp add: crlf_def)
  show ?case
    unfolding 1 2 3 4 5 by blast
qed

lemma write_chunks_data:
  assumes "write_chunks f ds w = Ret (f', w')" "fl_node f = FReg ino" "0 \<le> fl_foff f"
  shows "w_data w' = (w_data w)(ino := overwrite (nat (fl_foff f)) (concat ds) (w_data w ino)) \<and>
    fl_foff f' = fl_foff f + int (length (concat ds)) \<and> fl_node f' = FReg ino \<and> w_names w' = w_names w"
  using assms
proof (induction ds arbitrary: f w)
  case (Cons d ds)
  obtain f1 w1 where 1: "mog_http_write_full f d w = Ret (True, f1, w1)" "write_chunks f1 ds w1 = Ret (f', w')"
    using Cons.prems(1) by (cases "mog_http_write_full f d w") (auto split: if_splits)
  have e: "w_data w1 = (w_data w)(ino := overwrite (nat (fl_foff f)) d (w_data w ino))"
    "fl_foff f1 = fl_foff f + int (length d)" "fl_node f1 = FReg ino" "w_names w1 = w_names w"
    using write_full_effect [OF 1(1) Cons.prems(2,3)] Cons.prems(2) by auto
  have n: "nat (fl_foff f + int (length d)) = nat (fl_foff f) + length d"
    using Cons.prems(3) by simp
  show ?case
    using Cons.IH [OF 1(2) e(3)] e Cons.prems(3) by (simp add: n overwrite_overwrite fun_eq_iff)
qed (simp add: overwrite_def)

lemma chunk_parse_run:
  assumes "\<forall>c \<in> set cs. chunk_wf c" "size_wf z" "buf = pre @ encode_chunks cs z @ t" "length buf \<le> 65535"
    and http: "h_cs http = 1" "h_content_len http = 0" "h_wbuf http = WNull" "h_offset http = length pre"
    and fl: "h_forward http = Some f" "fl_node f = FReg ino" "0 \<le> fl_foff f"
    and wr: "write_chunks f (map snd cs) (w\<lparr>w_errno := None\<rparr>) = Ret (f', w')"
  shows "\<exists>http'. mog_chunk_parse buf (http, w) =
      Ret (if w_errno w' = None then MOG_PARSER_DONE else MOG_PARSER_ERROR, http', w') \<and>
    h_chunk_state http' = MOG_CHUNK_STATE_DONE \<and> h_forward http' = Some f' \<and>
    h_offset http' = length pre + length (encode_chunks cs z) \<and>
    w_data w' = (w_data w)(ino := overwrite (nat (fl_foff f)) (concat (map snd cs)) (w_data w ino)) \<and>
    w_names w' = w_names w"
proof -
  let ?w = "w\<lparr>w_errno := None\<rparr>"
  have at: "rest_at buf (int (length pre)) (encode_chunks cs z @ t)"
    using assms(3) by (simp add: rest_at_def)
  have fuel: "length (encode_chunks cs z) < chunk_fuel (length buf)"
    using assms(3) by (simp add: chunk_fuel_def)
  obtain q where run: "chunk_exec (chunk_fuel (length buf)) buf (cv (int (length pre)) 1 False http ?w) =
      Ret (cv (int (length pre) + int (length (encode_chunks cs z))) 66 True (http\<lparr>h_chunk_state := MOG_CHUNK_STATE_DONE,
        h_forward := Some f', h_content_len := 0, h_line_end := q\<rparr>) w')"
    using exec_chunks [OF _ at assms(1,2) http(2) fl(1) wr _ fuel, of 1 False] assms(4) by auto
  have "length pre \<noteq> length buf" "length pre \<le> length buf" "length pre + length (encode_chunks cs z) \<le> length buf"
    using assms(3) by simp_all
  then have "mog_chunk_parse buf (http, w) = Ret (if w_errno w' = None then MOG_PARSER_DONE else MOG_PARSER_ERROR,
      (http\<lparr>h_chunk_state := MOG_CHUNK_STATE_DONE,
        h_forward := Some f', h_content_len := 0, h_line_end := q\<rparr>)\<lparr>h_cs := 60,
        h_offset := nat (int (length pre) + int (length (encode_chunks cs z)))\<rparr>, w')"
    using run http by (simp add: mog_chunk_parse_def Let_def assert_then_def)
  then show ?thesis
    using write_chunks_data [OF wr fl(2,3)] by (simp flip: of_nat_add)
qed

text \<open>
  C11: The chunk parser decodes. When the buffer holds, from the current offset on, a complete
  chunked body (any number of chunks with sizes in any hexadecimal notation, a last chunk of
  size zero, an empty trailer, and possibly pipelined bytes behind it) and the writes go through
  without leaving an error in \<^verbatim>\<open>errno\<close>, parsing from the initial state ends successfully right behind
  the body, with the exact concatenation of the chunk data written at the file's offset and nothing
  else changed. A size line, a line end or a trailer byte never reaches the file.
\<close>

theorem chunk_parse_decodes:
  assumes "\<forall>c \<in> set cs. chunk_wf c" "size_wf z" "buf = pre @ encode_chunks cs z @ t" "length buf \<le> 65535"
    and "h_cs http = 1" "h_content_len http = 0" "h_wbuf http = WNull" "h_offset http = length pre"
    and "h_forward http = Some f" "fl_node f = FReg ino" "0 \<le> fl_foff f"
    and "write_chunks f (map snd cs) (w\<lparr>w_errno := None\<rparr>) = Ret (f', w')" "w_errno w' = None"
  shows "\<exists>http'. mog_chunk_parse buf (http, w) = Ret (MOG_PARSER_DONE, http', w') \<and>
    h_chunk_state http' = MOG_CHUNK_STATE_DONE \<and> h_forward http' = Some f' \<and>
    h_offset http' = length pre + length (encode_chunks cs z) \<and>
    w_data w' = (w_data w)(ino := overwrite (nat (fl_foff f)) (concat (map snd cs)) (w_data w ino)) \<and>
    w_names w' = w_names w"
  using chunk_parse_run [OF assms(1-12)] assms(13) by simp

theorem chunk_parse_decodes_witness:
  "\<exists>http' w'. mog_chunk_parse (''3'' @ crlf @ ''abc'' @ crlf @ ''02'' @ crlf @ ''de'' @ crlf @ ''0'' @ crlf @ crlf)
       (demo_http\<lparr>h_forward := Some (file_init (FReg 0) 0)\<rparr>, demo_world\<lparr>w_pw := [PSome 9, PSome 9]\<rparr>)
     = Ret (MOG_PARSER_DONE, http', w') \<and>
     h_chunk_state http' = MOG_CHUNK_STATE_DONE \<and> w_data w' 0 = ''abcde''"
proof -
  let ?cs = "[(''3'', ''abc''), (''02'', ''de'')]"
  let ?w = "demo_world\<lparr>w_pw := [PSome 9, PSome 9]\<rparr>"
  let ?f = "file_init (FReg 0) 0"
  let ?h = "demo_http\<lparr>h_forward := Some ?f\<rparr>"
  have "\<exists>f' w'. write_chunks ?f (map snd ?cs) (?w\<lparr>w_errno := None\<rparr>) = Ret (f', w') \<and> w_errno w' = None"
    by (simp add: mog_http_write_full_def file_init_def demo_world_def sys_pwrite_def snap_def Let_def)
  then obtain f' w' where wr: "write_chunks ?f (map snd ?cs) (?w\<lparr>w_errno := None\<rparr>) = Ret (f', w')"
    and e: "w_errno w' = None"
    by blast
  have "\<forall>c \<in> set ?cs. chunk_wf c" "size_wf ''0''"
    by (simp_all add: chunk_wf_def size_wf_def is_xdigit_def sc_def xval_def Let_def)
  then obtain http' where "mog_chunk_parse ([] @ encode_chunks ?cs ''0'' @ []) (?h, ?w) = Ret (MOG_PARSER_DONE, http', w')"
    "h_chunk_state http' = MOG_CHUNK_STATE_DONE"
    "w_data w' = (w_data ?w)(0 := overwrite (nat (fl_foff ?f)) (concat (map snd ?cs)) (w_data ?w 0))"
    using chunk_parse_decodes [OF _ _ refl _ _ _ _ _ _ _ _ wr e, of "''0''" "[]" "[]" ?h 0]
    by (auto simp: demo_http_def crlf_def file_init_def)
  then show ?thesis
    by (intro exI [of _ http'] exI [of _ w']) (simp add: crlf_def demo_world_def file_init_def overwrite_def)
qed


lemma sc_eq: "sc c = sc c' \<longleftrightarrow> c = c'"
proof -
  have "int (of_char d) < int 256 \<and> 0 \<le> int (of_char d)" for d
    unfolding of_nat_less_iff using nat_of_char_less_256 [of d] by simp
  then have "(of_char d :: int) < 256 \<and> 0 \<le> (of_char d :: int)" for d
    by (simp only: of_nat_of_char of_nat_numeral)
  from this [of c] this [of c'] have "sc c = sc c' \<Longrightarrow> (of_char c :: int) = of_char c'"
    unfolding sc_def Let_def by (auto split: if_splits)
  then show ?thesis
    by auto
qed

end
