(* ===== verification/Mog_Http_Put.thy ===== *)
theory Mog_Http_Put
  imports Mog_Chunk
begin

text \<open>
  \<^verbatim>\<open>http_put.c\<close>: receiving a file. A PUT without \<^verbatim>\<open>Content-Range\<close> goes to a temporary file that is
  renamed to its path when the body is complete and its checksum, if one was given, matches; a
  PUT with \<^verbatim>\<open>Content-Range\<close> writes into the file itself. The handlers run on a client and the world
  it lives in; \<open>md5\<close> is the digest of the crypto library and \<open>perms\<close> is \<^verbatim>\<open>svc->put_perms\<close>.
\<close>

section \<open>Model\<close>

type_synonym client = "mog_http \<times> world"

definition stop0 :: "bytes option \<Rightarrow> client \<Rightarrow> (mog_next \<times> client) outcome" where
  "stop0 status s =
     obind (case status of None \<Rightarrow> Ret s | Some st \<Rightarrow> mog_http_resp0 st False s) (\<lambda>s1.
       obind (file_close_null s1) (\<lambda>s2. Ret (MOG_NEXT_CLOSE, s2)))"

definition write_err :: "bytes option \<Rightarrow> client \<Rightarrow> (mog_next \<times> client) outcome" where
  "write_err default_msg = (\<lambda>(http, w).
     if w_errno w \<in> {Some ERANGE, Some ENOSPC, Some EFBIG}
     then stop0 (Some ''507 Insufficient Storage'') (http, w)
     else stop0 (Some (case default_msg of None \<Rightarrow> ''500 Internal Server Error'' | Some m \<Rightarrow> m)) (http, w))"

definition md5_ok :: "(bytes \<Rightarrow> bytes) \<Rightarrow> mog_http \<Rightarrow> bool outcome" where
  "md5_ok md5 http =
     (case h_forward http of
        None \<Rightarrow> Abort
      | Some f \<Rightarrow> Ret (case fl_digest f of None \<Rightarrow> True | Some d \<Rightarrow> h_expect_md5 http = take 16 (md5 d)))"

text \<open>\<^verbatim>\<open>fchmod\<close> on the open file.\<close>

definition sys_fchmod :: "fnode \<Rightarrow> nat \<Rightarrow> world \<Rightarrow> bool \<times> world" where
  "sys_fchmod n perms w =
     (case n of FReg i \<Rightarrow> (True, w\<lparr>w_perm := (w_perm w)(i := perms)\<rparr>) | FDir \<Rightarrow> (True, w))"

definition set_perms_commit :: "nat \<Rightarrow> client \<Rightarrow> (bool \<times> client) outcome" where
  "set_perms_commit perms = (\<lambda>(http, w).
     case h_forward http of
       None \<Rightarrow> Abort
     | Some f \<Rightarrow>
         obind (fs_call (sys_fchmod (fl_node f) perms) False w) (\<lambda>(ok, w1).
           if \<not> ok then Ret (False, http, w1)
           else case fl_tmppath f of
             None \<Rightarrow> Ret (True, http, w1)
           | Some tmp \<Rightarrow>
               (case fl_path f of
                  None \<Rightarrow> Abort
                | Some path \<Rightarrow>
                    obind (mog_rename tmp path w1) (\<lambda>(ok, w2).
                      if ok then Ret (True, http\<lparr>h_forward := Some (f\<lparr>fl_tmppath := None\<rparr>)\<rparr>, w2)
                      else Ret (False, http, w2)))))"

definition put_commit_resp :: "(bytes \<Rightarrow> bytes) \<Rightarrow> nat \<Rightarrow> client \<Rightarrow> client outcome" where
  "put_commit_resp md5 perms s =
     obind (md5_ok md5 (fst s)) (\<lambda>good.
       if good then
         obind (set_perms_commit perms s) (\<lambda>(ok, s1).
           obind (file_close_null s1) (\<lambda>s2.
             if ok then mog_http_resp0 ''201 Created'' True s2
             else mog_http_resp0 ''500 Internal Server Error'' False s2))
       else obind (file_close_null s) (\<lambda>s1. mog_http_resp0 ''400 Bad Request'' True s1))"

definition http_put_commit :: "(bytes \<Rightarrow> bytes) \<Rightarrow> nat \<Rightarrow> client \<Rightarrow> (mog_next \<times> client) outcome" where
  "http_put_commit md5 perms s =
     obind (put_commit_resp md5 perms s) (\<lambda>(http, w).
       if h_wbuf http \<noteq> WNull \<and> h_wbuf http \<noteq> WError then Ret (MOG_NEXT_WAIT_WR, http, w)
       else if \<not> h_persistent http \<or> h_wbuf http = WError then Ret (MOG_NEXT_CLOSE, http, w)
       else Ret (MOG_NEXT_ACTIVE, mog_http_reset http, w))"

text \<open>
  Keeping the bytes behind the last complete line. The move into the buffer is within its
  capacity, or the outcome is \<open>Abort\<close>.
\<close>

definition stash_advance_rbuf :: "bytes \<Rightarrow> client \<Rightarrow> client outcome" where
  "stash_advance_rbuf buf = (\<lambda>(http, w).
     let last = h_line_end http + 1 in
     if h_line_end http = 0 \<or> length buf \<le> last
     then obind (mog_rbuf_free_and_null (h_rbuf http) (w_heap w)) (\<lambda>(r, hp).
            Ret (http\<lparr>h_offset := 0, h_rbuf := r\<rparr>, w\<lparr>w_heap := hp\<rparr>))
     else
       assert_then (buf ! h_line_end http = CHR 0x0A) (assert_then (length buf \<le> MOG_RBUF_MAX_SIZE)
        (assert_then (last \<le> h_offset http)
         (obind (case h_rbuf http of
                   None \<Rightarrow> mog_rbuf_new MOG_RBUF_BASE_SIZE (w_heap w)
                 | Some i \<Rightarrow> Ret (i, w_heap w)) (\<lambda>(i, hp).
            case rh_bufs hp i of
              None \<Rightarrow> Abort
            | Some b \<Rightarrow>
                assert_then (length buf - last \<le> rb_rcapa b)
                 (Ret (http\<lparr>h_rbuf := Some i, h_offset := h_offset http - last,
                     h_tmp_tip := (if h_tmp_tip http \<ge> last then h_tmp_tip http - last else h_tmp_tip http),
                     h_line_end := 0\<rparr>,
                   w\<lparr>w_heap := hp\<lparr>rh_bufs := (rh_bufs hp)(i \<mapsto>
                     b\<lparr>rb_rptr := drop last buf @ drop (length buf - last) (rb_rptr b),
                       rb_rsize := Some (length buf - last)\<rparr>)\<rparr>\<rparr>)))))))"

definition chunked_body_after_header :: "(bytes \<Rightarrow> bytes) \<Rightarrow> nat \<Rightarrow> bytes \<Rightarrow> client \<Rightarrow> client outcome" where
  "chunked_body_after_header md5 perms buf = (\<lambda>(http, w).
     obind (mog_chunk_init http) (\<lambda>http1.
       obind (mog_chunk_parse buf (http1\<lparr>h_offset := h_offset http\<rparr>, w)) (\<lambda>(st, http2, w2).
         if st = MOG_PARSER_ERROR
         then obind (write_err (Some ''400 Bad Request'') (http2, w2)) (\<lambda>(_, s). Ret s)
         else assert_then (st = MOG_PARSER_CONTINUE \<longrightarrow> h_chunk_state http2 \<noteq> MOG_CHUNK_STATE_DONE)
          (case h_chunk_state http2 of
             MOG_CHUNK_STATE_SIZE \<Rightarrow> assert_then (h_offset http2 = length buf) (Ret (http2, w2))
           | MOG_CHUNK_STATE_DATA \<Rightarrow> assert_then (h_offset http2 = length buf) (Ret (http2, w2))
           | MOG_CHUNK_STATE_TRAILER \<Rightarrow>
               assert_then (h_offset http2 > 0)
                (obind (stash_advance_rbuf buf (http2, w2)) (\<lambda>(http3, w3).
                   Ret (http3\<lparr>h_skip_rbuf_defer := True\<rparr>, w3)))
           | MOG_CHUNK_STATE_DONE \<Rightarrow>
               obind (put_commit_resp md5 perms (http2, w2)) (\<lambda>(http3, w3).
                 assert_then (h_offset http3 > 0)
                  (obind (stash_advance_rbuf buf (http3, w3)) (\<lambda>(http4, w4).
                     Ret (http4\<lparr>h_skip_rbuf_defer := True\<rparr>, w4))))))))"

text \<open>The comparison of \<^verbatim>\<open>off_t\<close> with \<^verbatim>\<open>size_t\<close> is unsigned.\<close>

definition identity_body_after_header :: "bytes \<Rightarrow> client \<Rightarrow> client outcome" where
  "identity_body_after_header buf = (\<lambda>(http, w).
     let body_len = min (nat (h_content_len http mod 2 ^ 64)) (length buf - h_offset http) in
     if body_len = 0 then Ret (http, w)
     else
       (let http1 = http\<lparr>h_offset := h_offset http + body_len\<rparr> in
        case h_forward http of
          None \<Rightarrow> Abort
        | Some f \<Rightarrow>
            obind (mog_http_write_full f (take body_len (drop (h_offset http) buf)) w) (\<lambda>(ok, f1, w1).
              let http2 = http1\<lparr>h_forward := Some f1\<rparr> in
              if ok then Ret (http2, w1)
              else obind (write_err None (http2, w1)) (\<lambda>(_, s). Ret s))))"

definition lengths_ok :: "mog_http \<Rightarrow> bool" where
  "lengths_ok http =
     (if h_content_len http < 0 then False
      else if h_has_content_range http then
        (if h_chunked http then False
         else if h_range_end http < 0 \<or> h_range_beg http < 0 then False
         else if h_range_end http < h_range_beg http then False
         else if h_content_len http \<ge> 0
         then h_content_len http = wrap64 (wrap64 (h_range_end http - h_range_beg http) + 1)
         else True)
      else True)"

definition tmp_suffix :: "nat \<Rightarrow> nat \<Rightarrow> bytes" where
  "tmp_suffix rnd pid = ''.'' @ pad_zero 8 (nat_str 16 rnd) @ ''.'' @ nat_str 10 pid @ ''.tmp''"

definition tmppath_for :: "bytes \<Rightarrow> world \<Rightarrow> (bytes \<times> world) outcome" where
  "tmppath_for path w =
     (case w_rand w of
        [] \<Rightarrow> Starved
      | r # rs \<Rightarrow> Ret (path @ tmp_suffix r (w_pid w), w\<lparr>w_rand := rs\<rparr>))"

text \<open>A fresh temporary file, with one more try when the name is taken.\<close>

definition open_tmp :: "bytes \<Rightarrow> world \<Rightarrow> (bytes \<times> mog_file option \<times> world) outcome" where
  "open_tmp path w =
     obind (tmppath_for path w) (\<lambda>(tmp, w1).
       obind (mog_file_open_put True True tmp w1) (\<lambda>(fd, w2).
         if fd = None \<and> w_errno w2 = Some EEXIST
         then obind (tmppath_for path w2) (\<lambda>(tmp, w3).
                obind (mog_file_open_put True True tmp w3) (\<lambda>(fd, w4). Ret (tmp, fd, w4)))
         else Ret (tmp, fd, w2)))"

definition open_put :: "bytes \<Rightarrow> client \<Rightarrow> (mog_file option \<times> client) outcome" where
  "open_put path = (\<lambda>(http, w).
     obind (if h_has_content_range http then mog_file_open_put False False path w
            else obind (open_tmp path w) (\<lambda>(tmp, fd, w1).
                   Ret (map_option (\<lambda>f. f\<lparr>fl_tmppath := Some tmp\<rparr>) fd, w1))) (\<lambda>(fd, w6).
       case fd of
         None \<Rightarrow> Ret (None, http\<lparr>h_forward := None\<rparr>, w6)
       | Some f \<Rightarrow>
           assert_then (fl_foff f = 0)
            (let f1 = f\<lparr>fl_path := Some path,
                        fl_foff := (if h_has_content_range http then h_range_beg http else fl_foff f),
                        fl_digest := (if h_has_trailer_md5 http \<or> h_has_expect_md5 http then Some '''' else fl_digest f)\<rparr> in
             Ret (Some f1, http\<lparr>h_forward := Some f1\<rparr>, w6))))"

definition put_err :: "client \<Rightarrow> client outcome" where
  "put_err = (\<lambda>(http, w).
     if w_errno w = Some EINVAL then mog_http_resp0 ''400 Bad Request'' False (http, w)
     else if w_errno w = Some ENOENT then mog_http_resp0 ''404 Not Found'' False (http, w)
     else if w_errno w = Some EACCES then mog_http_resp0 ''403 Forbidden'' False (http, w)
     else obind (write_err None (http, w)) (\<lambda>(_, s). Ret s))"

text \<open>What follows a successful \<^verbatim>\<open>open_put\<close>: the part of the body that came with the header, if any.\<close>

definition put_first_body :: "(bytes \<Rightarrow> bytes) \<Rightarrow> nat \<Rightarrow> bytes \<Rightarrow> client \<Rightarrow> client outcome" where
  "put_first_body md5 perms buf = (\<lambda>(http, w).
     if length buf = h_offset http then
       (if h_chunked http then
          obind (mog_rbuf_free_and_null (h_rbuf http) (w_heap w)) (\<lambda>(r, hp).
            obind (mog_chunk_init (http\<lparr>h_rbuf := r\<rparr>)) (\<lambda>http1.
              Ret (http1\<lparr>h_offset := length buf\<rparr>, w\<lparr>w_heap := hp\<rparr>)))
        else Ret (http, w))
     else assert_then (length buf > h_offset http \<and> h_offset http > 0)
       (if h_chunked http then chunked_body_after_header md5 perms buf (http, w)
        else identity_body_after_header buf (http, w)))"

definition mog_http_put :: "(bytes \<Rightarrow> bytes) \<Rightarrow> nat \<Rightarrow> bytes \<Rightarrow> client \<Rightarrow> client outcome" where
  "mog_http_put md5 perms buf = (\<lambda>(http, w).
     if h_getonly http then mog_http_resp0 ''405 Method Not Allowed'' False (http, w)
     else
       obind (http_path http buf w) (\<lambda>(p, w1).
         case p of
           None \<Rightarrow> put_err (http, w1)
         | Some path \<Rightarrow>
             assert_then (h_forward http = None) (assert_then (path \<noteq> [] \<and> hd path = CHR ''/'')
              (if \<not> lengths_ok http
               then obind (write_err (Some ''400 Bad Request'') (http, w1)) (\<lambda>(_, s). Ret s)
               else
                 obind (open_put path (http, w1)) (\<lambda>(fd, http2, w2).
                   if fd = None then put_err (http2, w2)
                   else put_first_body md5 perms buf (http2, w2))))))"

section \<open>The body, as it arrives\<close>

text \<open>\<^verbatim>\<open>do { r = read(...); } while (r < 0 && errno == EINTR)\<close>\<close>

primrec read_retry :: "rres list \<Rightarrow> nat \<Rightarrow> world \<Rightarrow> (rd_result \<times> world) outcome" where
  "read_retry [] n w = Starved"
| "read_retry (a # as) n w =
     obind (sys_read n w) (\<lambda>(r, w1).
       if r = RdErr \<and> w_errno w1 = Some EINTR then read_retry as n w1 else Ret (r, w1))"

text \<open>The loop of \<^verbatim>\<open>identity_put_in_progress\<close>, by recursion over the answers left.\<close>

primrec identity_loop ::
  "rres list \<Rightarrow> (bytes \<Rightarrow> bytes) \<Rightarrow> nat \<Rightarrow> int \<Rightarrow> nat \<Rightarrow> client \<Rightarrow> (mog_next \<times> client) outcome" where
  "identity_loop [] md5 perms need buf_len s = Starved"
| "identity_loop (a # as) md5 perms need buf_len s = (case s of (http, w) \<Rightarrow>
     assert_then (need > 0)
      (let buf_len1 = min buf_len (nat need) in
       obind (sys_read buf_len1 w) (\<lambda>(r, w1).
         case r of
           RdData d \<Rightarrow>
             (case h_forward http of
                None \<Rightarrow> Abort
              | Some f \<Rightarrow>
                  obind (mog_http_write_full f d w1) (\<lambda>(ok, f1, w2).
                    let http1 = http\<lparr>h_forward := Some f1\<rparr>; need1 = need - int (length d) in
                    if \<not> ok then write_err None (http1, w2)
                    else if need1 = 0 then http_put_commit md5 perms (http1, w2)
                    else identity_loop as md5 perms need1 buf_len1 (http1, w2)))
         | RdEof \<Rightarrow> stop0 None (http, w1)
         | RdErr \<Rightarrow>
             if w_errno w1 = Some EAGAIN then Ret (MOG_NEXT_WAIT_RD, http, w1)
             else if w_errno w1 = Some EINTR then identity_loop as md5 perms need buf_len1 (http, w1)
             else stop0 None (http, w1))))"

definition identity_put_in_progress :: "(bytes \<Rightarrow> bytes) \<Rightarrow> nat \<Rightarrow> client \<Rightarrow> (mog_next \<times> client) outcome" where
  "identity_put_in_progress md5 perms = (\<lambda>(http, w).
     assert_then (h_wbuf http = WNull)
      (case h_forward http of
         None \<Rightarrow> Abort
       | Some f \<Rightarrow>
           let need = h_content_len http - fl_foff f + (if h_has_content_range http then h_range_beg http else 0) in
           if need = 0 then http_put_commit md5 perms (http, w)
           else identity_loop (w_rd w) md5 perms need fsbuf_size (http, w)))"

text \<open>The end of \<^verbatim>\<open>chunked_put_in_progress\<close>, where a failed \<^verbatim>\<open>read\<close> goes.\<close>

definition read_err :: "rd_result \<Rightarrow> client \<Rightarrow> (mog_next \<times> client) outcome" where
  "read_err r = (\<lambda>(http, w).
     if r = RdErr \<and> w_errno w = Some EAGAIN then Ret (MOG_NEXT_WAIT_RD, http, w)
     else stop0 None (http, w))"

text \<open>The buffer to read into: its address, the bytes it already holds and the space left.\<close>

definition chunk_rbuf :: "client \<Rightarrow> (nat \<times> bytes \<times> nat \<times> world) outcome" where
  "chunk_rbuf = (\<lambda>(http, w).
     case h_rbuf http of
       Some i \<Rightarrow>
         (case rh_bufs (w_heap w) i of
            None \<Rightarrow> Abort
          | Some b \<Rightarrow>
              (case rb_rsize b of
                 None \<Rightarrow> Abort
               | Some n \<Rightarrow> Ret (i, take n (rb_rptr b), rb_rcapa b - n, w)))
     | None \<Rightarrow>
         obind (mog_rbuf_get MOG_RBUF_BASE_SIZE (w_heap w)) (\<lambda>(i, hp).
           case rh_bufs hp i of
             None \<Rightarrow> Abort
           | Some b \<Rightarrow> Ret (i, '''', rb_rcapa b, w\<lparr>w_heap := hp\<rparr>)))"

definition rbuf_store :: "nat \<Rightarrow> bytes \<Rightarrow> rheap \<Rightarrow> rheap" where
  "rbuf_store i bs hp = hp\<lparr>rh_bufs := (rh_bufs hp)(i := map_option
     (\<lambda>b. b\<lparr>rb_rptr := bs @ drop (length bs) (rb_rptr b)\<rparr>) (rh_bufs hp i))\<rparr>"

text \<open>
  The states \<^verbatim>\<open>SIZE\<close> and \<^verbatim>\<open>TRAILER\<close>: read what fits the buffer and parse it. \<open>again\<close> is the jump to
  the label \<^verbatim>\<open>again\<close>, \<open>in_trailer\<close> the local variable of that name.
\<close>

definition chunk_lines ::
  "(bytes \<Rightarrow> bytes) \<Rightarrow> nat \<Rightarrow> (bool \<Rightarrow> client \<Rightarrow> (mog_next \<times> client) outcome) \<Rightarrow> bool \<Rightarrow> client \<Rightarrow> (mog_next \<times> client) outcome" where
  "chunk_lines md5 perms again in_trailer = (\<lambda>(http, w).
     obind (chunk_rbuf (http, w)) (\<lambda>(i, prev, room, w1).
       obind (read_retry (w_rd w1) room w1) (\<lambda>(r, w2).
         case r of
           RdData d \<Rightarrow>
             (let buf = prev @ d; w3 = w2\<lparr>w_heap := rbuf_store i buf (w_heap w2)\<rparr> in
              obind (mog_chunk_parse buf (http, w3)) (\<lambda>(st, http4, w4).
                if st = MOG_PARSER_ERROR then write_err (Some ''400 Bad Request'') (http4, w4)
                else assert_then (st = MOG_PARSER_CONTINUE \<longrightarrow> h_chunk_state http4 \<noteq> MOG_CHUNK_STATE_DONE)
                 (case h_chunk_state http4 of
                    MOG_CHUNK_STATE_SIZE \<Rightarrow>
                      assert_then (\<not> in_trailer)
                       (obind (mog_rbuf_free_and_null (h_rbuf http4) (w_heap w4)) (\<lambda>(rb, hp).
                          again in_trailer (http4\<lparr>h_rbuf := rb, h_offset := 0\<rparr>, w4\<lparr>w_heap := hp\<rparr>)))
                  | MOG_CHUNK_STATE_DATA \<Rightarrow>
                      assert_then (\<not> in_trailer)
                       (obind (mog_rbuf_free_and_null (h_rbuf http4) (w_heap w4)) (\<lambda>(rb, hp).
                          again in_trailer (http4\<lparr>h_rbuf := rb\<rparr>, w4\<lparr>w_heap := hp\<rparr>)))
                  | MOG_CHUNK_STATE_TRAILER \<Rightarrow>
                      obind (stash_advance_rbuf buf (http4, w4)) (again in_trailer)
                  | MOG_CHUNK_STATE_DONE \<Rightarrow>
                      obind (stash_advance_rbuf buf (http4, w4)) (\<lambda>(http5, w5).
                        assert_then (case h_rbuf http5 of None \<Rightarrow> True
                            | Some j \<Rightarrow> (case rh_bufs (w_heap w5) j of None \<Rightarrow> False
                                  | Some b \<Rightarrow> (case rb_rsize b of None \<Rightarrow> False | Some n \<Rightarrow> n > 0))
                                \<and> h_offset http5 = 0)
                          (http_put_commit md5 perms (http5, w5))))))
         | RdEof \<Rightarrow> read_err r (http, w2)
         | RdErr \<Rightarrow> read_err r (http, w2))))"

text \<open>
  The loop of \<^verbatim>\<open>chunked_put_in_progress\<close>. Every round reads at least once, so the number of answers
  left bounds the rounds.
\<close>

primrec chunked_loop ::
  "nat \<Rightarrow> (bytes \<Rightarrow> bytes) \<Rightarrow> nat \<Rightarrow> bool \<Rightarrow> client \<Rightarrow> (mog_next \<times> client) outcome" where
  "chunked_loop 0 md5 perms in_trailer s = Starved"
| "chunked_loop (Suc k) md5 perms in_trailer s = (case s of (http, w) \<Rightarrow>
     assert_then (h_wbuf http = WNull)
      (case h_forward http of
         None \<Rightarrow> Abort
       | Some f \<Rightarrow>
           (case h_chunk_state http of
              MOG_CHUNK_STATE_DATA \<Rightarrow>
                assert_then (h_rbuf http = None)
                 (if h_content_len http = 0
                  then chunk_lines md5 perms (chunked_loop k md5 perms) True
                         (http\<lparr>h_chunk_state := MOG_CHUNK_STATE_TRAILER, h_offset := 0\<rparr>, w)
                  else assert_then (h_content_len http > 0)
                   (obind (read_retry (w_rd w) (nat (min (int fsbuf_size) (h_content_len http))) w) (\<lambda>(r, w1).
                      case r of
                        RdData d \<Rightarrow>
                          obind (mog_http_write_full f d w1) (\<lambda>(ok, f1, w2).
                            let http1 = http\<lparr>h_forward := Some f1\<rparr> in
                            if \<not> ok then write_err None (http1, w2)
                            else
                              let http2 = http1\<lparr>h_content_len := h_content_len http - int (length d)\<rparr> in
                              obind (if h_content_len http2 = 0 then mog_chunk_init http2 else Ret http2)
                                (\<lambda>http3. chunked_loop k md5 perms in_trailer (http3, w2)))
                      | RdEof \<Rightarrow> read_err r (http, w1)
                      | RdErr \<Rightarrow> read_err r (http, w1))))
            | MOG_CHUNK_STATE_TRAILER \<Rightarrow> chunk_lines md5 perms (chunked_loop k md5 perms) True (http, w)
            | MOG_CHUNK_STATE_SIZE \<Rightarrow> chunk_lines md5 perms (chunked_loop k md5 perms) in_trailer (http, w)
            | MOG_CHUNK_STATE_DONE \<Rightarrow> Abort)))"

definition chunked_put_in_progress :: "(bytes \<Rightarrow> bytes) \<Rightarrow> nat \<Rightarrow> client \<Rightarrow> (mog_next \<times> client) outcome" where
  "chunked_put_in_progress md5 perms s = chunked_loop (length (w_rd (snd s)) + 1) md5 perms False s"

definition mog_http_put_in_progress :: "(bytes \<Rightarrow> bytes) \<Rightarrow> nat \<Rightarrow> client \<Rightarrow> (mog_next \<times> client) outcome" where
  "mog_http_put_in_progress md5 perms s =
     (if h_chunked (fst s) then chunked_put_in_progress md5 perms s else identity_put_in_progress md5 perms s)"

end
