(* ===== verification/Mog_Put_Atomic.thy ===== *)
theory Mog_Put_Atomic
  imports Mog_Http_Put
begin

text \<open>
  What a reader of the uploaded path can see during a PUT. The temporary file is known under its
  own name only, so nothing the handlers do shows under the path until the rename, and then the
  reader sees the finished file.
\<close>

section \<open>Changes that a reader of one path does not notice\<close>

definition quiet :: "string list \<Rightarrow> world \<Rightarrow> world \<Rightarrow> bool" where
  "quiet t w w' \<longleftrightarrow> visible w' t = visible w t \<and>
     (\<exists>l. w_log w' = w_log w @ l \<and> (\<forall>v \<in> set l. v t = visible w t))"

lemma quiet_refl [simp]: "quiet t w w"
  by (simp add: quiet_def)

lemma quiet_trans [trans]: "quiet t w w1 \<Longrightarrow> quiet t w1 w2 \<Longrightarrow> quiet t w w2"
  by (auto simp: quiet_def)

text \<open>A change of fields that readers do not see.\<close>

lemma quiet_same:
  "w_names w' = w_names w \<Longrightarrow> w_data w' = w_data w \<Longrightarrow> w_log w' = w_log w \<Longrightarrow> quiet t w w'"
  by (simp add: quiet_def visible_def)

lemma visible_same: "w_names w' t = w_names w t \<Longrightarrow> (\<And>i. w_names w t = Some i \<Longrightarrow> w_data w' i = w_data w i) \<Longrightarrow>
    visible w' t = visible w t"
  by (cases "w_names w t") (simp_all add: visible_def)

lemma quiet_snap:
  assumes "visible w' t = visible w t" "w_log w' = w_log w"
  shows "quiet t w (snap w')"
  using assms by (auto simp: quiet_def snap_def visible_def)

lemma quiet_only_data:
  assumes "only_data i w w'" "w_names w t \<noteq> Some i"
  shows "quiet t w w'"
proof -
  obtain d pw e l where w': "w' = w\<lparr>w_data := (w_data w)(i := d), w_pw := pw, w_errno := e, w_log := w_log w @ l\<rparr>"
    and l: "\<forall>v \<in> set l. \<forall>c. w_names w c \<noteq> Some i \<longrightarrow> v c = visible w c"
    using assms(1) by (auto simp: only_data_def)
  have "visible w' t = visible w t"
    by (rule visible_same) (use assms(2) in \<open>auto simp: w'\<close>)
  then show ?thesis
    using l assms(2) by (auto simp: quiet_def w')
qed

lemma write_full_only:
  assumes "mog_http_write_full f buf w = Ret (ok, f', w')" "fl_node f = FReg i" "0 \<le> fl_foff f"
  shows "only_data i w w'"
proof (cases "buf = []")
  case True
  then show ?thesis
    using assms by (auto simp: mog_http_write_full_def only_data_refl)
next
  case False
  have e: "only_data i w (w\<lparr>w_errno := None\<rparr>)"
    by (rule only_dataI [where d = "w_data w i" and pw = "w_pw w" and e = None and l = "[]"]) simp_all
  obtain foff where "write_loop (w_pw w) i buf (fl_foff f) (w\<lparr>w_errno := None\<rparr>) = Ret (ok, foff, w')"
    using assms False by (auto simp: mog_http_write_full_def)
  then have "only_data i (w\<lparr>w_errno := None\<rparr>) w'"
    using write_loop_ok assms(3) False by blast
  with e show ?thesis
    by (rule only_data_trans)
qed

section \<open>The temporary file\<close>

text \<open>The client's file is the inode \<open>i\<close>, which has the temporary name and no other.\<close>

definition owned :: "nat \<Rightarrow> bytes \<Rightarrow> bytes \<Rightarrow> mog_file \<Rightarrow> world \<Rightarrow> bool" where
  "owned i tmp path f w \<longleftrightarrow>
     fl_node f = FReg i \<and> fl_tmppath f = Some tmp \<and> fl_path f = Some path \<and> 0 \<le> fl_foff f \<and>
     w_names w (path_comps tmp) = Some i \<and> (\<forall>c. w_names w c = Some i \<longrightarrow> c = path_comps tmp) \<and>
     path_comps path \<noteq> path_comps tmp"

definition uploading :: "nat \<Rightarrow> bytes \<Rightarrow> bytes \<Rightarrow> bytes \<Rightarrow> mog_file \<Rightarrow> world \<Rightarrow> bool" where
  "uploading i tmp path d f w \<longleftrightarrow>
     owned i tmp path f w \<and> fl_foff f = int (length d) \<and> w_data w i = d \<and> fl_digest f \<in> {None, Some d}"

lemma owned_same_names: "owned i tmp path f w \<Longrightarrow> w_names w' = w_names w \<Longrightarrow> owned i tmp path f w'"
  by (simp add: owned_def)

lemma owned_target: "owned i tmp path f w \<Longrightarrow> w_names w (path_comps path) \<noteq> Some i"
  by (auto simp: owned_def)

lemma write_full_owned:
  assumes "mog_http_write_full f buf w = Ret (ok, f', w')" "owned i tmp path f w"
  shows "owned i tmp path f' w'" "quiet (path_comps path) w w'" "w_rx w' = w_rx w" "w_rd w' = w_rd w"
    "w_tx w' = w_tx w" "w_date w' = w_date w" "fl_digest f' = None \<longleftrightarrow> fl_digest f = None"
    "ok \<Longrightarrow> uploading i tmp path d f w \<Longrightarrow> uploading i tmp path (d @ buf) f' w'"
    "w_heap w' = w_heap w"
proof -
  have f: "fl_node f = FReg i" "0 \<le> fl_foff f"
    using assms(2) by (simp_all add: owned_def)
  obtain n where n: "w_data w' = (w_data w)(i := overwrite (nat (fl_foff f)) (take n buf) (w_data w i))"
    "f' = f\<lparr>fl_foff := fl_foff f + int n, fl_digest := map_option (\<lambda>d. d @ buf) (fl_digest f)\<rparr>"
    "ok \<longleftrightarrow> n = length buf" "w_names w' = w_names w"
    using write_full_effect [OF assms(1) f] by blast
  show "owned i tmp path f' w'"
    using assms(2) n(2,4) by (simp add: owned_def)
  have o: "only_data i w w'"
    by (rule write_full_only [OF assms(1) f])
  then show "w_rx w' = w_rx w" "w_rd w' = w_rd w" "w_tx w' = w_tx w" "w_date w' = w_date w" "w_heap w' = w_heap w"
    by (auto simp: only_data_def)
  show "fl_digest f' = None \<longleftrightarrow> fl_digest f = None"
    by (simp add: n(2))
  show "quiet (path_comps path) w w'"
    using quiet_only_data [OF o owned_target [OF assms(2)]] .
  show "uploading i tmp path (d @ buf) f' w'" if ok: "ok" and u: "uploading i tmp path d f w"
    using u n ok \<open>owned i tmp path f' w'\<close> by (auto simp: uploading_def overwrite_end)
qed

section \<open>Responses, closing and committing\<close>

lemma resp0_effect:
  assumes "mog_http_resp0 status alive (http, w) = Ret (http', w')"
  shows "\<exists>p wb tx. http' = http\<lparr>h_persistent := p, h_wbuf := wb\<rparr> \<and> w' = w\<lparr>w_tx := tx\<rparr> \<and>
    p = (alive \<and> h_persistent http) \<and>
    wr_conserves (sk_sent (w_tx w)) (resp_bytes status (w_date w) p) wb tx"
proof -
  let ?p = "alive \<and> h_persistent http"
  obtain wb tx where t: "mog_trywritev [resp_bytes status (w_date w) ?p] (w_tx w) = Ret (wb, tx)"
    and r: "http' = (if ?p then http else http\<lparr>h_persistent := False\<rparr>)\<lparr>h_wbuf := wb\<rparr>" "w' = w\<lparr>w_tx := tx\<rparr>"
    using assms by (auto simp: mog_http_resp0_def Let_def)
  have "http' = http\<lparr>h_persistent := ?p, h_wbuf := wb\<rparr>"
    using r(1) by (cases http) auto
  with r(2) writev.start_conserves [OF t] show ?thesis
    by auto
qed

lemma resp0_quiet:
  assumes "mog_http_resp0 status alive (http, w) = Ret (http', w')"
  shows "quiet t w w'" "w_names w' = w_names w" "h_forward http' = h_forward http" "w_rx w' = w_rx w"
    "w_data w' = w_data w" "w_log w' = w_log w"
  using resp0_effect [OF assms] by (auto intro: quiet_same)

lemma close_owned:
  assumes "file_close_null (http, w) = Ret (http', w')" "h_forward http = Some f" "owned i tmp path f w"
  shows "quiet (path_comps path) w w'" "http' = http\<lparr>h_forward := None\<rparr>" "w_rx w' = w_rx w" "w_data w' = w_data w"
    "w_tx w' = w_tx w" "w_date w' = w_date w"
proof -
  have f: "fl_tmppath f = Some tmp" "path_comps path \<noteq> path_comps tmp"
    using assms(3) by (simp_all add: owned_def)
  obtain b w1 where u: "mog_unlink tmp w = Ret (b, w1)" and r: "http' = http\<lparr>h_forward := None\<rparr>" "w' = mog_file_close f w1"
    using assms(1,2) f(1) by (auto simp: file_close_null_def)
  have "quiet (path_comps path) w w1 \<and> w_rx w1 = w_rx w \<and> w_data w1 = w_data w \<and> w_tx w1 = w_tx w \<and> w_date w1 = w_date w"
    using u f(2)
    by (auto simp: mog_unlink_def fs_call_def sys_unlink_def Let_def set_errno_def snap_def visible_def quiet_def
        split: list.splits option.splits if_splits)
  moreover have "quiet (path_comps path) w1 w'"
    by (rule quiet_same) (simp_all add: r(2) mog_file_close_def)
  ultimately show "quiet (path_comps path) w w'" "w_rx w' = w_rx w" "w_data w' = w_data w"
    "w_tx w' = w_tx w" "w_date w' = w_date w"
    by (auto simp: r(2) mog_file_close_def intro: quiet_trans)
  show "http' = http\<lparr>h_forward := None\<rparr>"
    by (rule r(1))
qed

lemma stop0_owned:
  assumes "stop0 status (http, w) = Ret (nx, http', w')" "h_forward http = Some f" "owned i tmp path f w"
  shows "quiet (path_comps path) w w'" "h_forward http' = None" "nx = MOG_NEXT_CLOSE" "w_rx w' = w_rx w" "w_data w' = w_data w"
proof -
  obtain http1 w1 where 1: "(case status of None \<Rightarrow> Ret (http, w) | Some st \<Rightarrow> mog_http_resp0 st False (http, w)) = Ret (http1, w1)"
    and c: "file_close_null (http1, w1) = Ret (http', w')" "nx = MOG_NEXT_CLOSE"
    using assms(1) by (auto simp: stop0_def)
  have q: "quiet (path_comps path) w w1 \<and> w_names w1 = w_names w \<and> h_forward http1 = Some f \<and> w_rx w1 = w_rx w \<and>
      w_data w1 = w_data w"
    using 1 assms(2) resp0_quiet [of _ False http w http1 w1] by (cases status) auto
  then have o: "owned i tmp path f w1"
    using owned_same_names [OF assms(3)] by blast
  note cl = close_owned [OF c(1) _ o]
  show "quiet (path_comps path) w w'" "h_forward http' = None" "w_rx w' = w_rx w" "w_data w' = w_data w"
    using cl q quiet_trans by auto
  show "nx = MOG_NEXT_CLOSE"
    by (rule c(2))
qed

lemma write_err_owned:
  assumes "write_err m (http, w) = Ret (nx, http', w')" "h_forward http = Some f" "owned i tmp path f w"
  shows "quiet (path_comps path) w w'" "h_forward http' = None" "nx = MOG_NEXT_CLOSE" "w_rx w' = w_rx w" "w_data w' = w_data w"
proof -
  obtain st where "stop0 (Some st) (http, w) = Ret (nx, http', w')"
    using assms(1) by (auto simp: write_err_def split: if_splits)
  from stop0_owned [OF this assms(2,3)]
  show "quiet (path_comps path) w w'" "h_forward http' = None" "nx = MOG_NEXT_CLOSE" "w_rx w' = w_rx w" "w_data w' = w_data w"
    by blast+
qed

text \<open>What readers see when the new file appears: the old state, then the new one.\<close>

definition appears :: "string list \<Rightarrow> bytes \<Rightarrow> world \<Rightarrow> world \<Rightarrow> bool" where
  "appears t d w w' \<longleftrightarrow> visible w' t = Some d \<and>
     (\<exists>l l'. w_log w' = w_log w @ l @ l' \<and> (\<forall>v \<in> set l. v t = visible w t) \<and> (\<forall>v \<in> set l'. v t = Some d))"

lemma appearsI:
  "visible w' t = Some d \<Longrightarrow> w_log w' = w_log w @ l @ l' \<Longrightarrow> \<forall>v \<in> set l. v t = visible w t \<Longrightarrow>
   \<forall>v \<in> set l'. v t = Some d \<Longrightarrow> appears t d w w'"
  unfolding appears_def by blast

lemma quiet_appears:
  assumes "quiet t w w1" "appears t d w1 w2"
  shows "appears t d w w2"
proof -
  obtain l where l: "w_log w1 = w_log w @ l" "\<forall>v \<in> set l. v t = visible w t" "visible w1 t = visible w t"
    using assms(1) by (auto simp: quiet_def)
  obtain l1 l2 where l2: "w_log w2 = w_log w1 @ l1 @ l2" "\<forall>v \<in> set l1. v t = visible w1 t" "\<forall>v \<in> set l2. v t = Some d"
    "visible w2 t = Some d"
    using assms(2) by (auto simp: appears_def)
  show ?thesis
    by (rule appearsI [where l = "l @ l1" and l' = l2]) (use l l2 in auto)
qed

lemma appears_quiet:
  assumes "appears t d w w1" "quiet t w1 w2"
  shows "appears t d w w2"
proof -
  obtain l l' where l: "w_log w1 = w_log w @ l @ l'" "\<forall>v \<in> set l. v t = visible w t" "\<forall>v \<in> set l'. v t = Some d"
    "visible w1 t = Some d"
    using assms(1) by (auto simp: appears_def)
  obtain l2 where l2: "w_log w2 = w_log w1 @ l2" "\<forall>v \<in> set l2. v t = visible w1 t" "visible w2 t = visible w1 t"
    using assms(2) by (auto simp: quiet_def)
  show ?thesis
    by (rule appearsI [where l = l and l' = "l' @ l2"]) (use l l2 in auto)
qed

lemma commit_owned:
  assumes "set_perms_commit perms (http, w) = Ret (ok, http', w')" "h_forward http = Some f" "owned i tmp path f w"
  shows "ok \<Longrightarrow> appears (path_comps path) (w_data w i) w w' \<and> http' = http\<lparr>h_forward := Some (f\<lparr>fl_tmppath := None\<rparr>)\<rparr> \<and>
      w_perm w' i = perms \<and> w_names w' (path_comps tmp) = None \<and> w_names w' (path_comps path) = Some i"
    "\<not> ok \<Longrightarrow> quiet (path_comps path) w w' \<and> http' = http \<and> owned i tmp path f w'"
    "w_rx w' = w_rx w" "w_data w' = w_data w" "w_tx w' = w_tx w" "w_date w' = w_date w"
proof -
  have f: "fl_node f = FReg i" "fl_tmppath f = Some tmp" "fl_path f = Some path" "path_comps path \<noteq> path_comps tmp"
    "w_names w (path_comps tmp) = Some i" "w_names w (path_comps path) \<noteq> Some i"
    using assms(3) by (auto simp: owned_def)
  note e = assms(1) [unfolded set_perms_commit_def prod.case assms(2) option.case f(1-3)]
  obtain b w1 where c: "fs_call (sys_fchmod (FReg i) perms) False w = Ret (b, w1)"
    using e by (cases "fs_call (sys_fchmod (FReg i) perms) False w") (simp_all del: obind_Ret, force)
  have k: "if b then mog_rename tmp path w1 = Ret (ok, w') \<and>
         http' = (if ok then http\<lparr>h_forward := Some (f\<lparr>fl_tmppath := None\<rparr>)\<rparr> else http)
       else \<not> ok \<and> http' = http \<and> w' = w1"
  proof (cases b)
    case True
    obtain r w2 where m: "mog_rename tmp path w1 = Ret (r, w2)"
      using e True unfolding c by (cases "mog_rename tmp path w1") (simp_all del: obind_Ret, force)
    show ?thesis
      using e True unfolding c by (cases r) (simp_all add: m del: obind_Ret)
  qed (use e c in \<open>simp del: obind_Ret\<close>)
  have 1: "w_names w1 = w_names w" "w_data w1 = w_data w" "w_rx w1 = w_rx w" "w_log w1 = w_log w"
    "w_tx w1 = w_tx w" "w_date w1 = w_date w"
    and p: "b \<Longrightarrow> w_perm w1 i = perms"
    using c by (auto simp: fs_call_def sys_fchmod_def set_errno_def split: list.splits option.splits)
  note rn = mog_rename_def fs_call_def sys_rename_def Let_def set_errno_def snap_def
  have r: "w_rx w2 = w_rx w1 \<and> w_data w2 = w_data w1 \<and> w_perm w2 = w_perm w1 \<and>
      w_tx w2 = w_tx w1 \<and> w_date w2 = w_date w1 \<and>
      (if r then w_names w2 = (w_names w1)(path_comps tmp := None, path_comps path \<mapsto> i) \<and> w_log w2 = w_log w1 @ [visible w2]
       else w_names w2 = w_names w1 \<and> w_log w2 = w_log w1)" if "mog_rename tmp path w1 = Ret (r, w2)" for r w2
    using that f(5,6) 1(1)
    by (auto simp: rn visible_def fun_eq_iff split: list.splits option.splits if_splits)
  show "w_rx w' = w_rx w" "w_data w' = w_data w" "w_tx w' = w_tx w" "w_date w' = w_date w"
    using k r 1 by (auto split: if_splits)
  show "appears (path_comps path) (w_data w i) w w' \<and> http' = http\<lparr>h_forward := Some (f\<lparr>fl_tmppath := None\<rparr>)\<rparr> \<and>
      w_perm w' i = perms \<and> w_names w' (path_comps tmp) = None \<and> w_names w' (path_comps path) = Some i" if ok: ok
  proof -
    have b: b and rr: "mog_rename tmp path w1 = Ret (True, w')" and h: "http' = http\<lparr>h_forward := Some (f\<lparr>fl_tmppath := None\<rparr>)\<rparr>"
      using k ok by (auto split: if_splits)
    have v: "visible w' (path_comps path) = Some (w_data w i)"
      using r [OF rr] 1 by (simp add: visible_def)
    have "appears (path_comps path) (w_data w i) w w'"
      by (rule appearsI [where l = "[]" and l' = "[visible w']", OF v]) (use r [OF rr] 1 v in auto)
    then show ?thesis
      using r [OF rr] p [OF b] h f(4) by auto
  qed
  show "quiet (path_comps path) w w' \<and> http' = http \<and> owned i tmp path f w'" if "\<not> ok"
  proof -
    have "http' = http" "w_names w' = w_names w" "w_data w' = w_data w" "w_log w' = w_log w"
      using k r 1 that by (auto split: if_splits)
    then show ?thesis
      using assms(3) by (auto intro: quiet_same owned_same_names)
  qed
qed

text \<open>The response with this status has been sent, or is buffered, or the socket broke on the way.\<close>

definition responded :: "bytes \<Rightarrow> bool \<Rightarrow> world \<Rightarrow> mog_http \<Rightarrow> world \<Rightarrow> bool" where
  "responded status keep w http' w' \<longleftrightarrow>
     wr_conserves (sk_sent (w_tx w)) (resp_bytes status (w_date w) keep) (h_wbuf http') (w_tx w')"

lemma resp0_responded:
  assumes "mog_http_resp0 status alive (http, w1) = Ret (http', w')" "w_tx w1 = w_tx w" "w_date w1 = w_date w"
  shows "responded status (alive \<and> h_persistent http) w http' w'"
  using resp0_effect [OF assms(1)] assms(2,3) by (auto simp: responded_def)

lemma close_plain:
  assumes "file_close_null (http, w) = Ret (http', w')" "h_forward http = Some f" "fl_tmppath f = None"
  shows "quiet t w w'" "http' = http\<lparr>h_forward := None\<rparr>" "w_rx w' = w_rx w" "w_data w' = w_data w"
    "w_tx w' = w_tx w" "w_date w' = w_date w" "w_names w' = w_names w" "w_perm w' = w_perm w"
  using assms by (auto simp: file_close_null_def mog_file_close_def intro: quiet_same)

definition digest_ok :: "(bytes \<Rightarrow> bytes) \<Rightarrow> mog_http \<Rightarrow> mog_file \<Rightarrow> bool" where
  "digest_ok md5 http f \<longleftrightarrow> (\<forall>d. fl_digest f = Some d \<longrightarrow> h_expect_md5 http = take 16 (md5 d))"

text \<open>Either the finished file appears and the client is told so, or nothing changed and it is told that.\<close>

definition put_result :: "(bytes \<Rightarrow> bytes) \<Rightarrow> nat \<Rightarrow> nat \<Rightarrow> bytes \<Rightarrow> mog_http \<Rightarrow> mog_file \<Rightarrow> world \<Rightarrow> mog_http \<Rightarrow> world \<Rightarrow> bool" where
  "put_result md5 perms i path http f w http' w' \<longleftrightarrow>
     (appears (path_comps path) (w_data w i) w w' \<and> digest_ok md5 http f \<and>
        w_names w' (path_comps path) = Some i \<and> w_perm w' i = perms \<and>
        responded ''201 Created'' (h_persistent http) w http' w') \<or>
     (quiet (path_comps path) w w' \<and>
        (responded ''500 Internal Server Error'' False w http' w' \<or>
         \<not> digest_ok md5 http f \<and> responded ''400 Bad Request'' (h_persistent http) w http' w'))"

lemma put_commit_owned:
  assumes "put_commit_resp md5 perms (http, w) = Ret (http', w')" "h_forward http = Some f" "owned i tmp path f w"
  shows "put_result md5 perms i path http f w http' w' \<and> h_forward http' = None \<and> w_rx w' = w_rx w \<and> w_data w' = w_data w"
proof (cases "digest_ok md5 http f")
  case True
  then have m: "md5_ok md5 http = Ret True"
    using assms(2) by (auto simp: md5_ok_def digest_ok_def split: option.splits)
  obtain ok http1 w1 http2 w2 where c: "set_perms_commit perms (http, w) = Ret (ok, http1, w1)"
    and cl: "file_close_null (http1, w1) = Ret (http2, w2)"
    and r: "(if ok then mog_http_resp0 ''201 Created'' True (http2, w2)
      else mog_http_resp0 ''500 Internal Server Error'' False (http2, w2)) = Ret (http', w')"
    using assms(1) m by (auto simp: put_commit_resp_def)
  note co = commit_owned [OF c assms(2,3)]
  show ?thesis
  proof (cases ok)
    case True
    note k = co(1) [OF True]
    have p: "h_forward http1 = Some (f\<lparr>fl_tmppath := None\<rparr>)" "fl_tmppath (f\<lparr>fl_tmppath := None\<rparr>) = None"
      using k by simp_all
    note cp = close_plain [OF cl p]
    have r1: "mog_http_resp0 ''201 Created'' True (http2, w2) = Ret (http', w')"
      using r True by simp
    note rq = resp0_quiet [OF r1]
    have "appears (path_comps path) (w_data w i) w w'"
      using k cp(1) rq(1) appears_quiet by blast
    moreover have "responded ''201 Created'' (h_persistent http) w http' w'"
      using resp0_responded [OF r1, of w] co(5,6) cp(2,5,6) k by simp
    moreover have "w_perm w' = w_perm w2"
      using resp0_effect [OF r1] by auto
    ultimately show ?thesis
      using k cp(2-4,7,8) rq(2-5) co(3,4) \<open>digest_ok md5 http f\<close> by (simp add: put_result_def)
  next
    case False
    note k = co(2) [OF False]
    have fw: "h_forward http1 = Some f"
      using k assms(2) by simp
    note cp = close_owned [OF cl fw conjunct2 [OF conjunct2 [OF k]]]
    have r1: "mog_http_resp0 ''500 Internal Server Error'' False (http2, w2) = Ret (http', w')"
      using r False by simp
    note rq = resp0_quiet [OF r1]
    have "quiet (path_comps path) w w'"
      using k cp(1) rq(1) quiet_trans by blast
    then show ?thesis
      using resp0_responded [OF r1, of w] co(3-6) cp rq(3-5) by (simp add: put_result_def)
  qed
next
  case False
  then have "md5_ok md5 http = Ret False"
    using assms(2) by (auto simp: md5_ok_def digest_ok_def split: option.splits)
  then obtain http1 w1 where cl: "file_close_null (http, w) = Ret (http1, w1)"
    and r: "mog_http_resp0 ''400 Bad Request'' True (http1, w1) = Ret (http', w')"
    using assms(1) by (auto simp: put_commit_resp_def)
  note cp = close_owned [OF cl assms(2,3)] and rq = resp0_quiet [OF r]
  have "quiet (path_comps path) w w'"
    using cp(1) rq(1) quiet_trans by blast
  then show ?thesis
    using resp0_responded [OF r, of w] cp rq(3-5) False by (simp add: put_result_def)
qed

lemma http_put_commit_owned:
  assumes "http_put_commit md5 perms (http, w) = Ret (nx, http', w')" "h_forward http = Some f" "owned i tmp path f w"
  shows "put_result md5 perms i path http f w http' w' \<and> h_forward http' = None \<and> w_rx w' = w_rx w \<and> w_data w' = w_data w \<and>
    nx \<in> {MOG_NEXT_WAIT_WR, MOG_NEXT_CLOSE, MOG_NEXT_ACTIVE}"
proof -
  obtain http1 w1 where c: "put_commit_resp md5 perms (http, w) = Ret (http1, w1)"
    and k: "(if h_wbuf http1 \<noteq> WNull \<and> h_wbuf http1 \<noteq> WError then Ret (MOG_NEXT_WAIT_WR, http1, w1)
       else if \<not> h_persistent http1 \<or> h_wbuf http1 = WError then Ret (MOG_NEXT_CLOSE, http1, w1)
       else Ret (MOG_NEXT_ACTIVE, mog_http_reset http1, w1)) = Ret (nx, http', w')"
    using assms(1) by (auto simp: http_put_commit_def)
  have "w' = w1" "h_wbuf http' = h_wbuf http1" "h_forward http1 = None \<Longrightarrow> h_forward http' = None"
    "nx \<in> {MOG_NEXT_WAIT_WR, MOG_NEXT_CLOSE, MOG_NEXT_ACTIVE}"
    using k by (auto simp: mog_http_reset_def mog_http_reset_parser_def split: if_splits)
  then show ?thesis
    using put_commit_owned [OF c assms(2,3)] by (simp add: put_result_def responded_def)
qed

section \<open>Bodies of known length\<close>

lemma sys_read_effect:
  assumes "sys_read n w = Ret (r, w1)"
  shows "w_names w1 = w_names w" "w_data w1 = w_data w" "w_log w1 = w_log w" "w_tx w1 = w_tx w" "w_date w1 = w_date w"
    "w_heap w1 = w_heap w" "w_next w1 = w_next w"
    "case r of RdData e \<Rightarrow> w_rx w = e @ w_rx w1 \<and> length e \<le> n \<and> e \<noteq> [] | _ \<Rightarrow> w_rx w1 = w_rx w"
  using assms by (auto simp: sys_read_def Let_def set_errno_def split: list.splits rres.splits if_splits)

lemma uploading_owned: "uploading i tmp path d f w \<Longrightarrow> owned i tmp path f w"
  by (simp add: uploading_def)

lemma uploading_same:
  "uploading i tmp path d f w \<Longrightarrow> w_names w' = w_names w \<Longrightarrow> w_data w' = w_data w \<Longrightarrow> uploading i tmp path d f w'"
  by (simp add: uploading_def owned_def)

text \<open>
  How a handler leaves an upload of which \<open>d\<close> was stored and whose client sent \<open>e\<close> meanwhile:
  still waiting for the rest, or finished with the whole file in place, or given up with the path
  as it was.
\<close>

definition put_waits :: "nat \<Rightarrow> bytes \<Rightarrow> bytes \<Rightarrow> bytes \<Rightarrow> mog_http \<Rightarrow> mog_file \<Rightarrow> world \<Rightarrow> mog_http \<Rightarrow> world \<Rightarrow> bool" where
  "put_waits i tmp path d http f w http' w' \<longleftrightarrow>
     quiet (path_comps path) w w' \<and> w_tx w' = w_tx w \<and> w_date w' = w_date w \<and>
     (\<exists>f'. http' = http\<lparr>h_forward := Some f'\<rparr> \<and> uploading i tmp path d f' w' \<and>
        (fl_digest f' = None \<longleftrightarrow> fl_digest f = None))"

definition put_done :: "(bytes \<Rightarrow> bytes) \<Rightarrow> bytes \<Rightarrow> bytes \<Rightarrow> mog_http \<Rightarrow> mog_file \<Rightarrow> world \<Rightarrow> mog_http \<Rightarrow> world \<Rightarrow> bool" where
  "put_done md5 path d http f w http' w' \<longleftrightarrow>
     appears (path_comps path) d w w' \<and> h_forward http' = None \<and>
     responded ''201 Created'' (h_persistent http) w http' w' \<and>
     (fl_digest f \<noteq> None \<longrightarrow> h_expect_md5 http = take 16 (md5 d))"

definition put_gave_up :: "bytes \<Rightarrow> world \<Rightarrow> mog_http \<Rightarrow> world \<Rightarrow> bool" where
  "put_gave_up path w http' w' \<longleftrightarrow> quiet (path_comps path) w w' \<and> h_forward http' = None"

lemma put_waitsI:
  "quiet (path_comps path) w w' \<Longrightarrow> w_tx w' = w_tx w \<Longrightarrow> w_date w' = w_date w \<Longrightarrow> http' = http\<lparr>h_forward := Some f'\<rparr> \<Longrightarrow>
   uploading i tmp path d f' w' \<Longrightarrow> (fl_digest f' = None \<longleftrightarrow> fl_digest f = None) \<Longrightarrow> put_waits i tmp path d http f w http' w'"
  unfolding put_waits_def by (intro conjI exI [of _ f'])

lemma put_waitsE:
  assumes "put_waits i tmp path d http f w http' w'"
  obtains f' where "http' = http\<lparr>h_forward := Some f'\<rparr>" "uploading i tmp path d f' w'"
    "fl_digest f' = None \<longleftrightarrow> fl_digest f = None" "quiet (path_comps path) w w'" "w_tx w' = w_tx w" "w_date w' = w_date w"
  using assms unfolding put_waits_def by (elim conjE exE)

lemma put_waits_then:
  assumes "put_waits i tmp path d http f w http1 w1"
  shows "put_waits i tmp path d' http1 (the (h_forward http1)) w1 http' w' \<Longrightarrow> put_waits i tmp path d' http f w http' w'"
    "put_done md5 path d' http1 (the (h_forward http1)) w1 http' w' \<Longrightarrow> put_done md5 path d' http f w http' w'"
    "put_gave_up path w1 http' w' \<Longrightarrow> put_gave_up path w http' w'"
proof -
  obtain f1 where h: "http1 = http\<lparr>h_forward := Some f1\<rparr>" "uploading i tmp path d f1 w1" "fl_digest f1 = None \<longleftrightarrow> fl_digest f = None"
    and q: "quiet (path_comps path) w w1" "w_tx w1 = w_tx w" "w_date w1 = w_date w"
    using assms by (elim put_waitsE)
  show "put_waits i tmp path d' http f w http' w'" if w: "put_waits i tmp path d' http1 (the (h_forward http1)) w1 http' w'"
  proof -
    obtain f2 where f2: "http' = http1\<lparr>h_forward := Some f2\<rparr>" "uploading i tmp path d' f2 w'"
      "fl_digest f2 = None \<longleftrightarrow> fl_digest (the (h_forward http1)) = None"
      and q2: "quiet (path_comps path) w1 w'" "w_tx w' = w_tx w1" "w_date w' = w_date w1"
      using w by (elim put_waitsE)
    show ?thesis
      by (rule put_waitsI [OF quiet_trans [OF q(1) q2(1)] _ _ _ f2(2)]) (use q q2 h f2 in simp_all)
  qed
  show "put_done md5 path d' http f w http' w'" if "put_done md5 path d' http1 (the (h_forward http1)) w1 http' w'"
    using that quiet_appears [OF q(1)] h q(2,3) by (simp add: put_done_def responded_def)
  show "put_gave_up path w http' w'" if "put_gave_up path w1 http' w'"
    using that quiet_trans [OF q(1)] by (simp add: put_gave_up_def)
qed

lemma commit_done:
  assumes "http_put_commit md5 perms (http, w) = Ret (nx, http', w')" "h_forward http = Some f" "uploading i tmp path d f w"
  shows "put_done md5 path d http f w http' w' \<or> put_gave_up path w http' w'" "w_rx w' = w_rx w" "nx \<noteq> MOG_NEXT_WAIT_RD"
proof -
  note c = http_put_commit_owned [OF assms(1,2) uploading_owned [OF assms(3)]]
  have d: "w_data w i = d" "fl_digest f \<in> {None, Some d}"
    using assms(3) by (simp_all add: uploading_def)
  show "put_done md5 path d http f w http' w' \<or> put_gave_up path w http' w'" "w_rx w' = w_rx w" "nx \<noteq> MOG_NEXT_WAIT_RD"
    using c d by (auto simp: put_result_def put_done_def put_gave_up_def digest_ok_def)
qed

lemma identity_loop_put:
  assumes "identity_loop as md5 perms need bl (http, w) = Ret (nx, http', w')"
    "h_forward http = Some f" "uploading i tmp path d f w"
  shows "\<exists>e. w_rx w = e @ w_rx w' \<and>
    (nx = MOG_NEXT_WAIT_RD \<and> int (length e) < need \<and> put_waits i tmp path (d @ e) http f w http' w' \<or>
     nx \<noteq> MOG_NEXT_WAIT_RD \<and> int (length e) = need \<and> put_done md5 path (d @ e) http f w http' w' \<or>
     nx \<noteq> MOG_NEXT_WAIT_RD \<and> put_gave_up path w http' w')"
  using assms
proof (induction "as" arbitrary: need bl http w f d)
  case (Cons a "as")
  have need: "0 < need"
    using Cons.prems(1) by (auto simp: assert_then_def split: if_splits)
  define n where "n = min bl (nat need)"
  obtain r w1 where rd: "sys_read n w = Ret (r, w1)"
    using Cons.prems(1) by (auto simp: Let_def n_def)
  note re = sys_read_effect [OF rd]
  have up1: "uploading i tmp path d f w1"
    using uploading_same [OF Cons.prems(3) re(1,2)] .
  have q1: "quiet (path_comps path) w w1"
    using quiet_same [OF re(1,2,3)] .
  have wt: "put_waits i tmp path d http f w http w1"
    using q1 re(4,5) up1 Cons.prems(2) unfolding put_waits_def by (auto intro!: exI [of _ f])
  note pr = Cons.prems(1) [simplified identity_loop.simps prod.case Let_def n_def [symmetric] rd obind.simps]
  show ?case
  proof (cases r)
    case (RdData e)
    have e: "w_rx w = e @ w_rx w1" "length e \<le> n" "e \<noteq> []"
      using re(8) RdData by simp_all
    obtain ok f1 w2 where wf: "mog_http_write_full f e w1 = Ret (ok, f1, w2)"
      using pr RdData Cons.prems(2) by auto
    note wo = write_full_owned [OF wf uploading_owned [OF up1]]
    let ?h = "http\<lparr>h_forward := Some f1\<rparr>"
    have k: "(if \<not> ok then write_err None (?h, w2)
        else if need - int (length e) = 0 then http_put_commit md5 perms (?h, w2)
        else identity_loop as md5 perms (need - int (length e)) n (?h, w2)) = Ret (nx, http', w')"
      using pr RdData Cons.prems(2) wf by simp
    have rx: "w_rx w = e @ w_rx w2"
      using e(1) wo(3) by simp
    show ?thesis
    proof (cases ok)
      case False
      then have s: "write_err None (?h, w2) = Ret (nx, http', w')"
        using k by simp
      note we = write_err_owned [OF s _ wo(1)]
      show ?thesis
        using we wo(2) q1 rx by (auto simp: put_gave_up_def intro: quiet_trans)
    next
      case True
      note up2 = wo(8) [OF True up1]
      have wt2: "put_waits i tmp path (d @ e) http f w ?h w2"
        using quiet_trans [OF q1 wo(2)] wo(5,6,7) re(4,5) up2 unfolding put_waits_def by auto
      show ?thesis
      proof (cases "need - int (length e) = 0")
        case nd: True
        then have c: "http_put_commit md5 perms (?h, w2) = Ret (nx, http', w')"
          using k True by simp
        have "put_done md5 path (d @ e) ?h f1 w2 http' w' \<or> put_gave_up path w2 http' w'" "w_rx w' = w_rx w2" "nx \<noteq> MOG_NEXT_WAIT_RD"
          using commit_done [OF c _ up2] by simp_all
        then show ?thesis
          using put_waits_then(2,3) [OF wt2] rx nd by auto
      next
        case nd: False
        then have l: "identity_loop as md5 perms (need - int (length e)) n (?h, w2) = Ret (nx, http', w')"
          using k True by simp
        from Cons.IH [OF l _ up2] obtain e2 where e2: "w_rx w2 = e2 @ w_rx w'"
          "nx = MOG_NEXT_WAIT_RD \<and> int (length e2) < need - int (length e) \<and> put_waits i tmp path ((d @ e) @ e2) ?h f1 w2 http' w' \<or>
           nx \<noteq> MOG_NEXT_WAIT_RD \<and> int (length e2) = need - int (length e) \<and> put_done md5 path ((d @ e) @ e2) ?h f1 w2 http' w' \<or>
           nx \<noteq> MOG_NEXT_WAIT_RD \<and> put_gave_up path w2 http' w'"
          by auto
        show ?thesis
          using e2 put_waits_then [OF wt2] rx by (intro exI [of _ "e @ e2"]) auto
      qed
    qed
  next
    case RdEof
    then have s: "stop0 None (http, w1) = Ret (nx, http', w')"
      using pr by simp
    note st = stop0_owned [OF s Cons.prems(2) uploading_owned [OF up1]]
    show ?thesis
      using st re(8) RdEof q1 by (auto simp: put_gave_up_def intro: quiet_trans)
  next
    case RdErr
    consider "w_errno w1 = Some EAGAIN" | "w_errno w1 = Some EINTR" | "w_errno w1 \<noteq> Some EAGAIN" "w_errno w1 \<noteq> Some EINTR"
      by blast
    then show ?thesis
    proof cases
      case 1
      then show ?thesis
        using pr RdErr wt need re(8) by auto
    next
      case 2
      then have "identity_loop as md5 perms need n (http, w1) = Ret (nx, http', w')"
        using pr RdErr by simp
      from Cons.IH [OF this Cons.prems(2) up1] show ?thesis
        using put_waits_then [OF wt] re(8) RdErr Cons.prems(2) by auto
    next
      case 3
      then have s: "stop0 None (http, w1) = Ret (nx, http', w')"
        using pr RdErr by simp
      note st = stop0_owned [OF s Cons.prems(2) uploading_owned [OF up1]]
      show ?thesis
        using st re(8) RdErr q1 by (auto simp: put_gave_up_def intro: quiet_trans)
    qed
  qed
qed simp

text \<open>One event on a client that uploads a body of known length.\<close>

lemma identity_step_put:
  assumes "mog_http_put_in_progress md5 perms (http, w) = Ret (nx, http', w')"
    and http: "\<not> h_chunked http" "\<not> h_has_content_range http" "h_forward http = Some f"
    and up: "uploading i tmp path d f w"
  shows "\<exists>e. w_rx w = e @ w_rx w' \<and>
    (nx = MOG_NEXT_WAIT_RD \<and> put_waits i tmp path (d @ e) http f w http' w' \<or>
     nx \<noteq> MOG_NEXT_WAIT_RD \<and> int (length (d @ e)) = h_content_len http \<and> put_done md5 path (d @ e) http f w http' w' \<or>
     nx \<noteq> MOG_NEXT_WAIT_RD \<and> put_gave_up path w http' w')"
proof -
  have foff: "fl_foff f = int (length d)"
    using up by (simp add: uploading_def)
  let ?need = "h_content_len http - int (length d)"
  have r: "(if ?need = 0 then http_put_commit md5 perms (http, w)
      else identity_loop (w_rd w) md5 perms ?need fsbuf_size (http, w)) = Ret (nx, http', w')"
    using assms(1) http foff by (simp add: mog_http_put_in_progress_def identity_put_in_progress_def Let_def)
  show ?thesis
  proof (cases "?need = 0")
    case True
    then have c: "http_put_commit md5 perms (http, w) = Ret (nx, http', w')"
      using r by simp
    show ?thesis
      using commit_done [OF c http(3) up] True by (intro exI [of _ "[]"]) auto
  next
    case False
    then have l: "identity_loop (w_rd w) md5 perms ?need fsbuf_size (http, w) = Ret (nx, http', w')"
      using r by simp
    from identity_loop_put [OF l http(3) up] obtain e where e: "w_rx w = e @ w_rx w'"
      "nx = MOG_NEXT_WAIT_RD \<and> int (length e) < ?need \<and> put_waits i tmp path (d @ e) http f w http' w' \<or>
       nx \<noteq> MOG_NEXT_WAIT_RD \<and> int (length e) = ?need \<and> put_done md5 path (d @ e) http f w http' w' \<or>
       nx \<noteq> MOG_NEXT_WAIT_RD \<and> put_gave_up path w http' w'"
      by (elim exE conjE)
    from e(2) show ?thesis
      by (intro exI [of _ e] conjI e(1)) auto
  qed
qed

text \<open>
  The events of an upload: whenever the client has sent more, the handler runs again, until it
  says something else than to wait.
\<close>

primrec put_rounds :: "nat \<Rightarrow> (bytes \<Rightarrow> bytes) \<Rightarrow> nat \<Rightarrow> client \<Rightarrow> (mog_next \<times> client) outcome" where
  "put_rounds 0 md5 perms s = Ret (MOG_NEXT_WAIT_RD, s)"
| "put_rounds (Suc n) md5 perms s =
     obind (mog_http_put_in_progress md5 perms s) (\<lambda>(nx, s1).
       if nx = MOG_NEXT_WAIT_RD then put_rounds n md5 perms s1 else Ret (nx, s1))"

lemma put_rounds_put:
  assumes "put_rounds n md5 perms (http, w) = Ret (nx, http', w')"
    and "\<not> h_chunked http" "\<not> h_has_content_range http" "h_forward http = Some f"
    and "uploading i tmp path d f w"
  shows "\<exists>e. w_rx w = e @ w_rx w' \<and>
    (nx = MOG_NEXT_WAIT_RD \<and> put_waits i tmp path (d @ e) http f w http' w' \<or>
     nx \<noteq> MOG_NEXT_WAIT_RD \<and> int (length (d @ e)) = h_content_len http \<and> put_done md5 path (d @ e) http f w http' w' \<or>
     nx \<noteq> MOG_NEXT_WAIT_RD \<and> put_gave_up path w http' w')"
  using assms
proof (induction n arbitrary: http w f d)
  case 0
  have "put_waits i tmp path (d @ []) http f w http w"
    by (rule put_waitsI [where f' = f]) (use 0 in simp_all)
  then show ?case
    using 0 by (intro exI [of _ "[]"]) simp
next
  case (Suc n)
  obtain nx1 http1 w1 where s: "mog_http_put_in_progress md5 perms (http, w) = Ret (nx1, http1, w1)"
    and k: "(if nx1 = MOG_NEXT_WAIT_RD then put_rounds n md5 perms (http1, w1) else Ret (nx1, http1, w1)) = Ret (nx, http', w')"
    using Suc.prems(1) by auto
  obtain e where e: "w_rx w = e @ w_rx w1"
    and c: "nx1 = MOG_NEXT_WAIT_RD \<and> put_waits i tmp path (d @ e) http f w http1 w1 \<or>
     nx1 \<noteq> MOG_NEXT_WAIT_RD \<and> int (length (d @ e)) = h_content_len http \<and> put_done md5 path (d @ e) http f w http1 w1 \<or>
     nx1 \<noteq> MOG_NEXT_WAIT_RD \<and> put_gave_up path w http1 w1"
    using identity_step_put [OF s Suc.prems(2-5)] by (elim exE conjE)
  show ?case
  proof (cases "nx1 = MOG_NEXT_WAIT_RD")
    case True
    then have pw: "put_waits i tmp path (d @ e) http f w http1 w1" and k1: "put_rounds n md5 perms (http1, w1) = Ret (nx, http', w')"
      using c k by simp_all
    obtain f1 where f1: "http1 = http\<lparr>h_forward := Some f1\<rparr>" "uploading i tmp path (d @ e) f1 w1"
      using pw by (elim put_waitsE)
    have h1: "\<not> h_chunked http1" "\<not> h_has_content_range http1" "h_forward http1 = Some f1" "h_content_len http1 = h_content_len http"
      using f1(1) Suc.prems(2,3) by simp_all
    from Suc.IH [OF k1 h1(1-3) f1(2)] obtain e2 where e2: "w_rx w1 = e2 @ w_rx w'"
      and c2: "nx = MOG_NEXT_WAIT_RD \<and> put_waits i tmp path ((d @ e) @ e2) http1 f1 w1 http' w' \<or>
       nx \<noteq> MOG_NEXT_WAIT_RD \<and> int (length ((d @ e) @ e2)) = h_content_len http1 \<and> put_done md5 path ((d @ e) @ e2) http1 f1 w1 http' w' \<or>
       nx \<noteq> MOG_NEXT_WAIT_RD \<and> put_gave_up path w1 http' w'"
      by (elim exE conjE)
    note t = put_waits_then [OF pw, unfolded h1(3) option.sel]
    have "w_rx w = (e @ e2) @ w_rx w'"
      using e e2 by simp
    moreover have "nx = MOG_NEXT_WAIT_RD \<and> put_waits i tmp path (d @ e @ e2) http f w http' w' \<or>
       nx \<noteq> MOG_NEXT_WAIT_RD \<and> int (length (d @ e @ e2)) = h_content_len http \<and> put_done md5 path (d @ e @ e2) http f w http' w' \<or>
       nx \<noteq> MOG_NEXT_WAIT_RD \<and> put_gave_up path w http' w'"
      using c2 t h1(4) by auto
    ultimately show ?thesis
      by blast
  next
    case False
    then show ?thesis
      using k c e by (intro exI [of _ e] conjI) auto
  qed
qed

end
