(* ===== verification/Mog_Put_Open.thy ===== *)
theory Mog_Put_Open
  imports Mog_Put_Atomic
begin

text \<open>
  The start of a PUT: the name of the temporary file never is the target's, opening it creates a
  fresh inode under that name only, and what came with the header goes into it.
\<close>

section \<open>The temporary name\<close>

lemma split_slash_not_Nil [simp]: "split_slash s \<noteq> []"
  by (induction s) (auto split: list.splits)

lemma split_slash_plain: "CHR ''/'' \<notin> set s \<Longrightarrow> split_slash s = [s]"
  by (induction s) auto

lemma split_slash_suffix:
  assumes "CHR ''/'' \<notin> set s"
  shows "split_slash (p @ s) = butlast (split_slash p) @ [last (split_slash p) @ s]"
proof (induction p)
  case (Cons c p)
  obtain h t where p: "split_slash p = h # t"
    by (cases "split_slash p") auto
  show ?case
    using Cons p by (cases t) auto
qed (simp add: split_slash_plain [OF assms])

lemma digit_char_not_slash: "n < 36 \<Longrightarrow> digit_char n \<noteq> CHR ''/''"
proof
  assume "n < 36" "digit_char n = CHR ''/''"
  then have "of_char (digit_char n) = (47 :: nat)"
    by simp
  with \<open>n < 36\<close> show False
    by (auto simp: of_char_digit_char split: if_splits)
qed

lemma nat_str_not_slash:
  assumes "2 \<le> b" "b \<le> 36"
  shows "CHR ''/'' \<notin> set (nat_str b n)"
proof
  assume "CHR ''/'' \<in> set (nat_str b n)"
  then obtain k where k: "k < b" "CHR ''/'' = digit_char k"
    using set_nat_str [OF assms(1), of n] by (auto simp: subset_iff image_iff)
  show False
    using digit_char_not_slash [of k] k assms(2) by simp
qed

lemma tmp_suffix_not_slash: "CHR ''/'' \<notin> set (tmp_suffix r pid)"
  using nat_str_not_slash [of 16 r] nat_str_not_slash [of 10 pid] by (auto simp: tmp_suffix_def pad_zero_def)

lemma path_comps_tmp: "path_comps path \<noteq> path_comps (path @ tmp_suffix r pid)"
proof -
  let ?s = "tmp_suffix r pid" and ?P = "\<lambda>s :: string. s \<noteq> [] \<and> s \<noteq> ''.''"
  let ?b = "butlast (split_slash path)" and ?l = "last (split_slash path)"
  have s: "2 \<le> length ?s"
    by (simp add: tmp_suffix_def)
  then have P: "?P (?l @ ?s)"
    by (cases ?l; cases ?s) auto
  have 1: "path_comps (path @ ?s) = filter ?P ?b @ [?l @ ?s]"
    unfolding path_comps_def split_slash_suffix [OF tmp_suffix_not_slash] filter_append using P by simp
  have "path_comps path = filter ?P (?b @ [?l])"
    by (simp add: path_comps_def)
  then have 2: "path_comps path = filter ?P ?b @ (if ?P ?l then [?l] else [])"
    unfolding filter_append by simp
  show ?thesis
    unfolding 1 2 same_append_eq using s by (simp split: if_splits) auto
qed

section \<open>Opening\<close>

text \<open>Inode numbers are allocated in order.\<close>

definition names_ok :: "world \<Rightarrow> bool" where
  "names_ok w \<longleftrightarrow> (\<forall>c i. w_names w c = Some i \<longrightarrow> i < w_next w)"

text \<open>Nothing of the files changed, nor of what the client exchanged.\<close>

definition same_files :: "world \<Rightarrow> world \<Rightarrow> bool" where
  "same_files w w' \<longleftrightarrow> w_names w' = w_names w \<and> w_data w' = w_data w \<and> w_log w' = w_log w \<and> w_next w' = w_next w \<and>
     w_rx w' = w_rx w \<and> w_tx w' = w_tx w \<and> w_date w' = w_date w \<and> w_heap w' = w_heap w"

lemma same_files_refl [simp]: "same_files w w"
  by (simp add: same_files_def)

lemma same_files_trans: "same_files w w1 \<Longrightarrow> same_files w1 w2 \<Longrightarrow> same_files w w2"
  by (simp add: same_files_def)

lemma same_files_quiet: "same_files w w' \<Longrightarrow> quiet t w w'"
  by (simp add: same_files_def quiet_same)

lemma same_files_errno [simp]: "same_files w (w'\<lparr>w_errno := e\<rparr>) \<longleftrightarrow> same_files w w'"
  by (simp add: same_files_def)

lemma mkdir_same: "mog_mkdir p w = Ret (b, w') \<Longrightarrow> same_files w w'"
  by (auto simp: mog_mkdir_def fs_call_def sys_mkdir_def Let_def set_errno_def same_files_def
      split: list.splits option.splits if_splits)

lemma mkpath_loop_same: "mkpath_loop p n rc cs w = Ret (b, w') \<Longrightarrow> same_files w w'"
proof (induction cs arbitrary: n rc w)
  case (Cons c cs)
  obtain rc1 w1 where 1: "(if n > 0 then mog_mkdir (take c p) w else Ret (rc, w)) = Ret (rc1, w1)"
    and k: "(if \<not> rc1 \<and> w_errno w1 \<noteq> Some EEXIST then Ret (False, w1) else mkpath_loop p (n + 1) rc1 cs w1) = Ret (b, w')"
    using Cons.prems by (auto split: if_splits)
  have "same_files w w1"
    using 1 mkdir_same by (auto split: if_splits)
  moreover have "same_files w1 w'"
    using k Cons.IH by (auto split: if_splits)
  ultimately show ?case
    by (rule same_files_trans)
qed simp

lemma mkpath_for_same: "mog_mkpath_for p w = Ret (b, w') \<Longrightarrow> same_files w w'"
  by (auto simp: mog_mkpath_for_def set_errno_def dest: mkpath_loop_same split: list.splits)

text \<open>What a successful exclusive open does.\<close>

definition created :: "string list \<Rightarrow> nat \<Rightarrow> world \<Rightarrow> world \<Rightarrow> bool" where
  "created c i w w' \<longleftrightarrow> i = w_next w \<and> w_names w c = None \<and> w_names w' = (w_names w)(c \<mapsto> i) \<and>
     w_data w' = (w_data w)(i := '''') \<and> w_next w' = w_next w + 1 \<and> w_log w' = w_log w @ [visible w'] \<and>
     w_rx w' = w_rx w \<and> w_tx w' = w_tx w \<and> w_date w' = w_date w \<and> w_heap w' = w_heap w"

definition opened :: "string list \<Rightarrow> nat option \<Rightarrow> world \<Rightarrow> world \<Rightarrow> bool" where
  "opened c fd w w' \<longleftrightarrow> (case fd of None \<Rightarrow> same_files w w' | Some i \<Rightarrow> created c i w w')"

lemma same_files_opened: "same_files w w1 \<Longrightarrow> opened c fd w1 w' \<Longrightarrow> opened c fd w w'"
  by (cases fd) (auto simp: opened_def same_files_def created_def)

lemma visible_log [simp]: "visible (w\<lparr>w_log := l\<rparr>) = visible w"
  by (simp add: visible_def fun_eq_iff)

lemma open_put_opened: "mog_open_put True True p w = Ret (fd, w') \<Longrightarrow> opened (path_comps p) fd w w'"
  by (auto simp: mog_open_put_def fs_call_def sys_open_put_def Let_def set_errno_def same_files_def opened_def
      created_def snap_def split: list.splits option.splits if_splits)

lemma mkpath_open_put_opened:
  assumes "mkpath_open_put True True p w = Ret (fd, w')"
  shows "opened (path_comps p) fd w w'"
proof -
  obtain fd1 w1 where o: "mog_open_put True True p w = Ret (fd1, w1)"
    and k: "(if fd1 = None \<and> w_errno w1 = Some ENOENT then
        obind (mog_mkpath_for p w1) (\<lambda>(ok, w2). if ok then mog_open_put True True p w2 else Ret (fd1, set_errno ENOENT w2))
      else Ret (fd1, w1)) = Ret (fd, w')"
    using assms unfolding mkpath_open_put_def by (rule obindE2)
  note op = open_put_opened [OF o]
  show ?thesis
  proof (cases "fd1 = None \<and> w_errno w1 = Some ENOENT")
    case True
    have s: "same_files w w1"
      using op True by (simp add: opened_def)
    obtain ok w2 where m: "mog_mkpath_for p w1 = Ret (ok, w2)"
      and k2: "(if ok then mog_open_put True True p w2 else Ret (None, set_errno ENOENT w2)) = Ret (fd, w')"
      using k True by (auto simp del: obind_Ret elim: obindE2)
    have s2: "same_files w w2"
      using same_files_trans [OF s mkpath_for_same [OF m]] .
    show ?thesis
    proof (cases ok)
      case True
      then show ?thesis
        using k2 same_files_opened [OF s2 open_put_opened] by simp
    next
      case False
      then show ?thesis
        using k2 s2 by (auto simp: opened_def set_errno_def)
    qed
  next
    case False
    then have "fd = fd1" "w' = w1"
      using k by (simp_all split: if_splits)
    then show ?thesis
      using op by simp
  qed
qed

lemma file_open_put_opened:
  assumes "mog_file_open_put True True p w = Ret (fd, w')"
  shows "case fd of None \<Rightarrow> same_files w w' | Some f \<Rightarrow> \<exists>i. f = file_init (FReg i) 0 \<and> created (path_comps p) i w w'"
proof -
  obtain fd1 w1 where o: "mkpath_open_put True True p w = Ret (fd1, w1)"
    and k0: "obind (if fd1 = None then obind (mog_open_expire_retry w1) (\<lambda>(again, w2).
        if again then mkpath_open_put True True p w2 else Ret (fd1, w2)) else Ret (fd1, w1))
      (\<lambda>(fd, w3). Ret (map_option (\<lambda>i. file_init (FReg i) 0) fd, w3)) = Ret (fd, w')"
    using assms unfolding mog_file_open_put_def by (rule obindE2)
  obtain fd2 w2 where k: "(if fd1 = None then obind (mog_open_expire_retry w1) (\<lambda>(again, w2).
        if again then mkpath_open_put True True p w2 else Ret (fd1, w2)) else Ret (fd1, w1)) = Ret (fd2, w2)"
    and "Ret (map_option (\<lambda>i. file_init (FReg i) 0) fd2, w2) = Ret (fd, w')"
    using k0 by (rule obindE2)
  then have fd: "fd = map_option (\<lambda>i. file_init (FReg i) 0) fd2" "w2 = w'"
    by simp_all
  note op = mkpath_open_put_opened [OF o]
  note k = k [unfolded fd(2)]
  have "opened (path_comps p) fd2 w w'"
  proof (cases fd1)
    case None
    have s: "same_files w w1"
      using op None by (simp add: opened_def)
    obtain b w2 where e: "mog_open_expire_retry w1 = Ret (b, w2)"
      and k2: "(if b then mkpath_open_put True True p w2 else Ret (None, w2)) = Ret (fd2, w')"
      using k [unfolded None, simplified] by (auto simp del: obind_Ret elim: obindE2)
    have "same_files w1 w2"
      using e by (auto simp: mog_open_expire_retry_def same_files_def split: if_splits list.splits)
    with s have s2: "same_files w w2"
      by (rule same_files_trans)
    show ?thesis
    proof (cases b)
      case True
      then show ?thesis
        using k2 same_files_opened [OF s2 mkpath_open_put_opened] by simp
    next
      case False
      then show ?thesis
        using k2 s2 by (auto simp: opened_def)
    qed
  qed (use k op in auto)
  then show ?thesis
    by (cases fd2) (auto simp: fd(1) opened_def)
qed

lemma created_uploading:
  assumes "created (path_comps tmp) i w w'" "names_ok w" "path_comps path \<noteq> path_comps tmp"
    and f: "fl_node f = FReg i" "fl_tmppath f = Some tmp" "fl_path f = Some path" "fl_foff f = 0" "fl_digest f \<in> {None, Some ''''}"
  shows "uploading i tmp path '''' f w'" "quiet (path_comps path) w w'"
proof -
  have c: "i = w_next w" "w_names w' = (w_names w)(path_comps tmp \<mapsto> i)" "w_data w' = (w_data w)(i := '''')"
    "w_log w' = w_log w @ [visible w']"
    using assms(1) by (simp_all add: created_def)
  have fresh: "w_names w c \<noteq> Some i" for c
    using assms(2) c(1) by (auto simp: names_ok_def)
  show "uploading i tmp path '''' f w'"
    using assms(3) f c(2,3) fresh by (auto simp: uploading_def owned_def split: if_splits)
  have "visible w' (path_comps path) = visible w (path_comps path)"
    by (rule visible_same) (use c(2,3) assms(3) fresh in auto)
  then show "quiet (path_comps path) w w'"
    using c(4) by (simp add: quiet_def)
qed

lemma created_names_ok: "created c i w w' \<Longrightarrow> names_ok w \<Longrightarrow> names_ok w'"
  by (auto simp: created_def names_ok_def less_Suc_eq split: if_splits)

lemma same_files_names_ok: "same_files w w' \<Longrightarrow> names_ok w \<Longrightarrow> names_ok w'"
  by (simp add: same_files_def names_ok_def)

lemma tmppath_for_effect:
  assumes "tmppath_for path w = Ret (tmp, w')"
  shows "same_files w w'" "path_comps path \<noteq> path_comps tmp"
  using assms path_comps_tmp by (auto simp: tmppath_for_def same_files_def split: list.splits)

text \<open>The temporary file of a PUT without \<^verbatim>\<open>Content-Range\<close>, with one retry when the name is taken.\<close>

definition tmp_opened :: "bytes \<Rightarrow> bytes \<Rightarrow> mog_file option \<Rightarrow> world \<Rightarrow> world \<Rightarrow> bool" where
  "tmp_opened path tmp fd w w' \<longleftrightarrow> path_comps path \<noteq> path_comps tmp \<and>
     (case fd of None \<Rightarrow> same_files w w' | Some f \<Rightarrow> \<exists>i. f = file_init (FReg i) 0 \<and> created (path_comps tmp) i w w')"

lemma tmp_openedI:
  assumes "same_files w w0" "tmppath_for path w0 = Ret (tmp, w1)" "mog_file_open_put True True tmp w1 = Ret (fd, w')"
  shows "tmp_opened path tmp fd w w'"
proof -
  have s: "same_files w w1"
    using same_files_trans [OF assms(1) tmppath_for_effect(1) [OF assms(2)]] .
  have "case fd of None \<Rightarrow> same_files w w' | Some f \<Rightarrow> \<exists>i. f = file_init (FReg i) 0 \<and> created (path_comps tmp) i w w'"
    using file_open_put_opened [OF assms(3)] s
    by (cases fd) (auto simp: created_def same_files_def)
  then show ?thesis
    using tmppath_for_effect(2) [OF assms(2)] by (simp add: tmp_opened_def)
qed

lemma open_tmp_opened:
  assumes "open_tmp path w = Ret (tmp, fd, w')"
  shows "tmp_opened path tmp fd w w'"
proof -
  obtain tmp1 w1 where t1: "tmppath_for path w = Ret (tmp1, w1)"
    and k1: "obind (mog_file_open_put True True tmp1 w1) (\<lambda>(fd, w2).
         if fd = None \<and> w_errno w2 = Some EEXIST
         then obind (tmppath_for path w2) (\<lambda>(tmp, w3).
                obind (mog_file_open_put True True tmp w3) (\<lambda>(fd, w4). Ret (tmp, fd, w4)))
         else Ret (tmp1, fd, w2)) = Ret (tmp, fd, w')"
    using assms unfolding open_tmp_def by (rule obindE2)
  obtain fd2 w2 where o: "mog_file_open_put True True tmp1 w1 = Ret (fd2, w2)"
    and k2: "(if fd2 = None \<and> w_errno w2 = Some EEXIST
         then obind (tmppath_for path w2) (\<lambda>(tmp, w3).
                obind (mog_file_open_put True True tmp w3) (\<lambda>(fd, w4). Ret (tmp, fd, w4)))
         else Ret (tmp1, fd2, w2)) = Ret (tmp, fd, w')"
    using k1 by (rule obindE2)
  note to1 = tmp_openedI [OF same_files_refl t1 o]
  show ?thesis
  proof (cases "fd2 = None \<and> w_errno w2 = Some EEXIST")
    case True
    obtain w3 where "tmppath_for path w2 = Ret (tmp, w3)" "mog_file_open_put True True tmp w3 = Ret (fd, w')"
      using k2 True by auto
    moreover have "same_files w w2"
      using to1 True by (simp add: tmp_opened_def)
    ultimately show ?thesis
      by (intro tmp_openedI)
  next
    case False
    then have "tmp1 = tmp \<and> fd2 = fd \<and> w2 = w'"
      using k2 by auto
    then show ?thesis
      using to1 by simp
  qed
qed

lemma open_put_tmp:
  assumes "open_put path (http, w) = Ret (fd, http', w')" "\<not> h_has_content_range http" "names_ok w"
  shows "http' = http\<lparr>h_forward := fd\<rparr>" "quiet (path_comps path) w w'" "names_ok w'"
    "w_rx w' = w_rx w \<and> w_tx w' = w_tx w \<and> w_date w' = w_date w \<and> w_heap w' = w_heap w"
    "fd = Some f \<Longrightarrow> (\<exists>i tmp. uploading i tmp path '''' f w') \<and>
       (fl_digest f = None \<longleftrightarrow> \<not> (h_has_trailer_md5 http \<or> h_has_expect_md5 http))"
proof -
  let ?g = "\<lambda>tmp f. f\<lparr>fl_tmppath := Some tmp, fl_path := Some path, fl_foff := fl_foff f,
      fl_digest := (if h_has_trailer_md5 http \<or> h_has_expect_md5 http then Some '''' else fl_digest f)\<rparr>"
  note r = assms(1) [unfolded open_put_def prod.case, simplified assms(2) if_False simp_thms]
  obtain tmp fd0 w1 where t1: "open_tmp path w = Ret (tmp, fd0, w1)"
    using r by auto
  have e: "fd = map_option (?g tmp) fd0 \<and> http' = http\<lparr>h_forward := fd\<rparr> \<and> w1 = w'"
    using r unfolding t1 by (cases fd0) (auto simp: Let_def)
  then have fd: "fd = map_option (?g tmp) fd0" and h: "http' = http\<lparr>h_forward := fd\<rparr>"
    by simp_all
  have t: "open_tmp path w = Ret (tmp, fd0, w')"
    using t1 e by simp

  note to = open_tmp_opened [OF t]
  show "http' = http\<lparr>h_forward := fd\<rparr>"
    by (rule h)
  have "quiet (path_comps path) w w' \<and> names_ok w' \<and>
      (w_rx w' = w_rx w \<and> w_tx w' = w_tx w \<and> w_date w' = w_date w \<and> w_heap w' = w_heap w) \<and>
      (\<forall>f. fd = Some f \<longrightarrow> (\<exists>i tmp. uploading i tmp path '''' f w') \<and>
        (fl_digest f = None \<longleftrightarrow> \<not> (h_has_trailer_md5 http \<or> h_has_expect_md5 http)))"
  proof (cases fd0)
    case None
    then have "same_files w w'"
      using to by (simp add: tmp_opened_def)
    then show ?thesis
      using assms(3) fd None same_files_quiet same_files_names_ok by (auto simp: same_files_def)
  next
    case (Some g)
    obtain i where i: "g = file_init (FReg i) 0" "created (path_comps tmp) i w w'" "path_comps path \<noteq> path_comps tmp"
      using to Some by (auto simp: tmp_opened_def)
    have "uploading i tmp path '''' (?g tmp g) w'" "quiet (path_comps path) w w'"
      using created_uploading [OF i(2) assms(3) i(3), of "?g tmp g"] by (simp_all add: i(1) file_init_def)
    then have "\<exists>j t. uploading j t path '''' (?g tmp g) w'" "quiet (path_comps path) w w'"
      by blast+
    moreover have "fl_digest (?g tmp g) = None \<longleftrightarrow> \<not> (h_has_trailer_md5 http \<or> h_has_expect_md5 http)"
      by (simp add: i(1) file_init_def)
    moreover have "fd = Some (?g tmp g)"
      using fd Some by simp
    moreover have "w_rx w' = w_rx w" "w_tx w' = w_tx w" "w_date w' = w_date w" "w_heap w' = w_heap w"
      using i(2) by (simp_all add: created_def)
    ultimately show ?thesis
      using created_names_ok [OF i(2) assms(3)] by (simp only: option.inject) simp

  qed
  then show "quiet (path_comps path) w w'" "names_ok w'"
    "w_rx w' = w_rx w \<and> w_tx w' = w_tx w \<and> w_date w' = w_date w \<and> w_heap w' = w_heap w"
    "fd = Some f \<Longrightarrow> (\<exists>i tmp. uploading i tmp path '''' f w') \<and>
       (fl_digest f = None \<longleftrightarrow> \<not> (h_has_trailer_md5 http \<or> h_has_expect_md5 http))"
    by simp_all
qed

section \<open>The header\<close>

lemma http_path_effect:
  assumes "http_path http buf w = Ret (p, w')"
  shows "same_files w w'" "p = Some path \<Longrightarrow> path = take (h_path_end http - h_path_tip http) (drop (h_path_tip http) buf) \<and> w' = w"
  using assms by (auto simp: http_path_def mog_http_path_def Let_def set_errno_def same_files_def split: if_splits option.splits)

lemma stop0_no_forward:
  assumes "stop0 (Some st) (http, w) = Ret (nx, http', w')" "h_forward http = None"
  shows "mog_http_resp0 st False (http, w) = Ret (http', w')"
proof -
  obtain http1 w1 where r: "mog_http_resp0 st False (http, w) = Ret (http1, w1)"
    and c: "file_close_null (http1, w1) = Ret (http', w')"
    using assms(1) by (auto simp: stop0_def)
  have "h_forward http1 = None"
    using resp0_quiet(3) [OF r] assms(2) by simp
  then show ?thesis
    using c r by (simp add: file_close_null_def)
qed

lemma write_err_quiet:
  assumes "write_err m (http, w) = Ret (nx, http', w')" "h_forward http = None"
  shows "quiet t w w'" "h_forward http' = None"
proof -
  obtain st where "stop0 (Some st) (http, w) = Ret (nx, http', w')"
    using assms(1) by (auto simp: write_err_def split: if_splits)
  note r = resp0_quiet [OF stop0_no_forward [OF this assms(2)]]
  show "quiet t w w'" "h_forward http' = None"
    using r assms(2) by simp_all
qed

lemma put_err_quiet:
  assumes "put_err (http, w) = Ret (http', w')" "h_forward http = None"
  shows "quiet t w w'" "h_forward http' = None"
proof -
  consider st where "mog_http_resp0 st False (http, w) = Ret (http', w')"
    | nx where "write_err None (http, w) = Ret (nx, http', w')"
    using assms(1) by (auto simp: put_err_def split: if_splits)
  then have "quiet t w w' \<and> h_forward http' = None"
    by cases (use assms(2) resp0_quiet(1,3) write_err_quiet in auto)
  then show "quiet t w w'" "h_forward http' = None"
    by simp_all
qed

text \<open>The body bytes that came with the header are stored at once.\<close>

lemma identity_body_uploading:
  assumes "identity_body_after_header buf (http, w) = Ret (http', w')" "h_forward http = Some f" "uploading i tmp path '''' f w"
    and len: "0 \<le> h_content_len http" "h_content_len http < 2 ^ 63"
    and body: "body = take (nat (h_content_len http)) (drop (h_offset http) buf)"
  shows "quiet (path_comps path) w w' \<and>
    (h_forward http' = None \<or>
     (\<exists>f'. http' = http\<lparr>h_forward := Some f', h_offset := h_offset http + length body\<rparr> \<and> uploading i tmp path body f' w' \<and>
       (fl_digest f' = None \<longleftrightarrow> fl_digest f = None) \<and>
       w_rx w' = w_rx w \<and> w_tx w' = w_tx w \<and> w_date w' = w_date w \<and> w_heap w' = w_heap w))"
proof -
  define n where "n = min (nat (h_content_len http mod 2 ^ 64)) (length buf - h_offset http)"
  have m: "nat (h_content_len http mod 2 ^ 64) = nat (h_content_len http)"
    using len by simp
  have n: "length body = n" "take n (drop (h_offset http) buf) = body"
    unfolding body n_def m length_drop [symmetric] take_min_length length_take by (simp_all only: min.commute)
  note r = assms(1) [unfolded identity_body_after_header_def prod.case Let_def n_def [symmetric] assms(2) option.case n(2)]
  show ?thesis
  proof (cases "n = 0")
    case True
    then have "body = []" "http' = http" "w' = w"
      using r n(1) by simp_all
    then show ?thesis
      using assms(2,3) by (cases http) auto
  next
    case False
    let ?h = "http\<lparr>h_offset := h_offset http + n\<rparr>"
    obtain ok f1 w1 where wf: "mog_http_write_full f body w = Ret (ok, f1, w1)"
      and k: "(if ok then Ret (?h\<lparr>h_forward := Some f1\<rparr>, w1)
        else obind (write_err None (?h\<lparr>h_forward := Some f1\<rparr>, w1)) (\<lambda>(_, s). Ret s)) = Ret (http', w')"
      using r [unfolded if_not_P [OF False]] by (rule obindE3)
    note wo = write_full_owned [OF wf uploading_owned [OF assms(3)]]
    show ?thesis
    proof (cases ok)
      case True
      then have e: "http' = http\<lparr>h_forward := Some f1, h_offset := h_offset http + length body\<rparr>" "w' = w1"
        using k n(1) by (cases http, simp)+
      have "uploading i tmp path body f1 w1"
        using wo(8) [OF True assms(3)] by simp
      then show ?thesis
        using wo(2,3,5,6,7,9) e by (intro conjI disjI2 exI [of _ f1]) simp_all
    next
      case False
      then obtain nx where "write_err None (?h\<lparr>h_forward := Some f1\<rparr>, w1) = Ret (nx, http', w')"
        using k by auto
      from write_err_owned [OF this _ wo(1)] show ?thesis
        using wo(2) quiet_trans by auto
    qed
  qed
qed

lemma put_first_body_uploading:
  assumes "put_first_body md5 perms buf (http, w) = Ret (http', w')" "\<not> h_chunked http" "h_forward http = Some f"
    "uploading i tmp path '''' f w"
    and len: "0 \<le> h_content_len http" "h_content_len http < 2 ^ 63"
    and body: "body = take (nat (h_content_len http)) (drop (h_offset http) buf)"
  shows "quiet (path_comps path) w w' \<and>
    (h_forward http' = None \<or>
     (\<exists>f'. http' = http\<lparr>h_forward := Some f', h_offset := h_offset http + length body\<rparr> \<and> uploading i tmp path body f' w' \<and>
       (fl_digest f' = None \<longleftrightarrow> fl_digest f = None) \<and>
       w_rx w' = w_rx w \<and> w_tx w' = w_tx w \<and> w_date w' = w_date w \<and> w_heap w' = w_heap w))"
proof (cases "length buf = h_offset http")
  case True
  then have "body = []" "http' = http" "w' = w"
    using assms(1,2) body by (simp_all add: put_first_body_def)
  then show ?thesis
    using assms(3,4) by (cases http) auto
next
  case False
  then have "identity_body_after_header buf (http, w) = Ret (http', w')"
    using assms(1,2) by (simp add: put_first_body_def)
  from identity_body_uploading [OF this assms(3,4) len body] show ?thesis .
qed

lemma mog_http_put_identity:
  assumes "mog_http_put md5 perms buf (http, w) = Ret (http', w')"
    and http: "\<not> h_chunked http" "\<not> h_has_content_range http" "h_forward http = None" "h_content_len http < 2 ^ 63"
    and ok: "names_ok w"
    and path: "path = take (h_path_end http - h_path_tip http) (drop (h_path_tip http) buf)"
    and body: "body = take (nat (h_content_len http)) (drop (h_offset http) buf)"
  shows "quiet (path_comps path) w w' \<and>
    (h_forward http' = None \<or>
     (\<exists>i tmp f'. http' = http\<lparr>h_forward := Some f', h_offset := h_offset http + length body\<rparr> \<and> uploading i tmp path body f' w' \<and>
       (fl_digest f' = None \<longleftrightarrow> \<not> (h_has_trailer_md5 http \<or> h_has_expect_md5 http)) \<and>
       w_rx w' = w_rx w \<and> w_tx w' = w_tx w \<and> w_date w' = w_date w \<and> w_heap w' = w_heap w))"
proof (cases "h_getonly http")
  case True
  then have "mog_http_resp0 ''405 Method Not Allowed'' False (http, w) = Ret (http', w')"
    using assms(1) by (simp add: mog_http_put_def)
  from resp0_quiet [OF this] show ?thesis
    using http(3) by simp
next
  case False
  note r = assms(1) [unfolded mog_http_put_def prod.case if_not_P [OF False]]
  obtain p w1 where hp: "http_path http buf w = Ret (p, w1)"
    using r by (rule obindE2)
  note r1 = r [unfolded hp obind.simps prod.case]
  show ?thesis
  proof (cases p)
    case None
    then have "put_err (http, w1) = Ret (http', w')"
      using r1 by simp
    from put_err_quiet [OF this http(3)] same_files_quiet [OF http_path_effect(1) [OF hp]] show ?thesis
      using quiet_trans by blast
  next
    case (Some q)
    have q: "q = path" "w1 = w"
      using http_path_effect(2) [OF hp Some] by (simp_all add: path)
    have r2: "(if \<not> lengths_ok http then obind (write_err (Some ''400 Bad Request'') (http, w)) (\<lambda>(_, s). Ret s)
        else obind (open_put path (http, w)) (\<lambda>(fd, http2, w2).
          if fd = None then put_err (http2, w2) else put_first_body md5 perms buf (http2, w2))) = Ret (http', w')"
      using r1 unfolding Some option.case q by (elim assert_thenE)
    show ?thesis
    proof (cases "lengths_ok http")
      case False
      then obtain nx where "write_err (Some ''400 Bad Request'') (http, w) = Ret (nx, http', w')"
        using r2 by auto
      from write_err_quiet [OF this http(3)] show ?thesis
        by simp
    next
      case True
      then have len: "0 \<le> h_content_len http"
        by (auto simp: lengths_ok_def split: if_splits)
      obtain fd http2 w2 where op: "open_put path (http, w) = Ret (fd, http2, w2)"
        and k: "(if fd = None then put_err (http2, w2) else put_first_body md5 perms buf (http2, w2)) = Ret (http', w')"
        using r2 True by (auto simp del: obind_Ret elim!: obindE3)
      note o = open_put_tmp [OF op http(2) ok]
      show ?thesis
      proof (cases fd)
        case None
        then show ?thesis
          using k put_err_quiet(1) [of http2 w2 http' w' "path_comps path"] put_err_quiet(2) [of http2 w2 http' w']
            o(1) quiet_trans [OF o(2)] by simp
      next
        case (Some f)
        obtain i tmp where up: "uploading i tmp path '''' f w2"
          using o(5) [OF Some] by blast
        have h2: "http2 = http\<lparr>h_forward := Some f\<rparr>" "\<not> h_chunked http2" "h_forward http2 = Some f"
          "0 \<le> h_content_len http2" "h_content_len http2 < 2 ^ 63" "body = take (nat (h_content_len http2)) (drop (h_offset http2) buf)"
          using o(1) Some http len body by simp_all
        have fb: "put_first_body md5 perms buf (http2, w2) = Ret (http', w')"
          using k Some by simp
        note pf = put_first_body_uploading [OF fb h2(2,3) up h2(4-6)]
        have q: "quiet (path_comps path) w w'"
          using quiet_trans [OF o(2) conjunct1 [OF pf]] .
        from conjunct2 [OF pf] show ?thesis
        proof (elim disjE exE conjE)
          fix f'
          assume f': "http' = http2\<lparr>h_forward := Some f', h_offset := h_offset http2 + length body\<rparr>" "uploading i tmp path body f' w'"
            "fl_digest f' = None \<longleftrightarrow> fl_digest f = None" "w_rx w' = w_rx w2" "w_tx w' = w_tx w2" "w_date w' = w_date w2" "w_heap w' = w_heap w2"
          have "http' = http\<lparr>h_forward := Some f', h_offset := h_offset http + length body\<rparr>"
            using f'(1) h2(1) by simp
          then show ?thesis
            using q f'(2-7) o(4) o(5) [OF Some] by (intro conjI disjI2 exI [of _ i] exI [of _ tmp] exI [of _ f']) simp_all
        qed (use q in simp)
      qed
    qed
  qed
qed

end
