(* ===== verification/Mog_Date.thy ===== *)
theory Mog_Date
  imports Mog_Prelude
begin

text \<open>
  \<^verbatim>\<open>http_date.c\<close>: the dates in the response headers. \<^verbatim>\<open>gmtime_r\<close> is modelled by counting years and
  months from 1970, in the proleptic Gregorian calendar; times are seconds since the epoch and may be
  negative.
\<close>

section \<open>Model\<close>

record tm =
  tm_sec :: int
  tm_min :: int
  tm_hour :: int
  tm_mday :: int
  tm_mon :: nat
  tm_year :: int
  tm_wday :: nat

definition leap_year :: "int \<Rightarrow> bool" where
  "leap_year y \<longleftrightarrow> 4 dvd y \<and> (\<not> 100 dvd y \<or> 400 dvd y)"

definition year_days :: "int \<Rightarrow> int" where
  "year_days y = (if leap_year y then 366 else 365)"

definition month_days :: "int \<Rightarrow> int list" where
  "month_days y = [31, if leap_year y then 29 else 28, 31, 30, 31, 30, 31, 31, 30, 31, 30, 31]"

text \<open>The year that the day \<open>d\<close>, counted from the start of the year \<open>y\<close>, falls into, and its day there.\<close>

function year_of :: "int \<Rightarrow> int \<Rightarrow> int \<times> int" where
  "year_of y d = (if d < year_days y then (y, d) else year_of (y + 1) (d - year_days y))"
  by pat_completeness auto
termination
  by (relation "measure (\<lambda>(y, d). nat d)") (auto simp: year_days_def split: if_splits)

declare year_of.simps [simp del]

fun month_of :: "nat \<Rightarrow> int list \<Rightarrow> int \<Rightarrow> nat \<times> int" where
  "month_of m [] d = (m, d)"
| "month_of m (l # ls) d = (if d < l then (m, d) else month_of (m + 1) ls (d - l))"

text \<open>The calendar repeats after 400 years, which are 146097 days and a whole number of weeks.\<close>

definition gmtime :: "int \<Rightarrow> tm" where
  "gmtime t =
     (let days = t div 86400; s = t mod 86400;
          (y, yday) = year_of (1970 + 400 * (days div 146097)) (days mod 146097);
          (mon, mday) = month_of 0 (month_days y) yday in
      \<lparr>tm_sec = s mod 60, tm_min = s div 60 mod 60, tm_hour = s div 3600, tm_mday = mday + 1, tm_mon = mon,
       tm_year = y - 1900, tm_wday = nat ((days + 4) mod 7)\<rparr>)"

definition week :: "bytes list" where
  "week = [''Sun'', ''Mon'', ''Tue'', ''Wed'', ''Thu'', ''Fri'', ''Sat'']"

definition months :: "bytes list" where
  "months = [''Jan'', ''Feb'', ''Mar'', ''Apr'', ''May'', ''Jun'', ''Jul'', ''Aug'', ''Sep'', ''Oct'', ''Nov'', ''Dec'']"

text \<open>The conversions \<^verbatim>\<open>%02d\<close> and \<^verbatim>\<open>%4d\<close> as they are used here.\<close>

definition fmt_02d :: "int \<Rightarrow> bytes" where
  "fmt_02d i = pad_zero 2 (nat_str 10 (nat i))"

definition fmt_4d :: "int \<Rightarrow> bytes" where
  "fmt_4d i = replicate (4 - length (int_str i)) (CHR '' '') @ int_str i"

definition MOG_HTTPDATE_CAPA :: nat where
  "MOG_HTTPDATE_CAPA = 30"

definition mog_http_date :: "nat \<Rightarrow> int \<Rightarrow> bytes outcome" where
  "mog_http_date len t =
     assert_then (len \<ge> MOG_HTTPDATE_CAPA)
      (let tm = gmtime t;
           s = week ! tm_wday tm @ '', '' @ fmt_02d (tm_mday tm) @ '' '' @ months ! tm_mon tm @ '' '' @
               fmt_4d (tm_year tm + 1900) @ '' '' @ fmt_02d (tm_hour tm) @ '':'' @ fmt_02d (tm_min tm) @ '':'' @
               fmt_02d (tm_sec tm) @ '' GMT'' in
       assert_then (length s = MOG_HTTPDATE_CAPA - 1) (Ret s))"

text \<open>\<^verbatim>\<open>mog_now\<close> keeps the string of the last second it was asked for.\<close>

record mog_now =
  ntime :: int
  httpdate :: bytes

definition mog_now :: "int \<Rightarrow> mog_now \<Rightarrow> mog_now outcome" where
  "mog_now tnow now =
     (if ntime now = tnow then Ret now
      else obind (mog_http_date MOG_HTTPDATE_CAPA tnow) (\<lambda>s. Ret \<lparr>ntime = tnow, httpdate = s\<rparr>))"

section \<open>The calendar\<close>

text \<open>The number of days from the start of 1970 to the start of the year \<open>y\<close>.\<close>

definition year_start :: "int \<Rightarrow> int" where
  "year_start y = 365 * (y - 1970) + (y - 1) div 4 - (y - 1) div 100 + (y - 1) div 400 - 477"

lemma div_pred: "0 < k \<Longrightarrow> y div k - (y - 1) div k = (if k dvd y then 1 else 0)" for y k :: int
proof -
  assume k: "0 < k"
  show ?thesis
  proof (cases "k dvd y")
    case True
    then obtain m where "y = k * m"
      by blast
    moreover have "(k * m - 1) div k = m - 1"
      using k by (intro int_div_pos_eq [of _ _ _ "k - 1"]) (simp_all add: algebra_simps)
    ultimately show ?thesis
      using k by simp
  next
    case False
    then have "0 < y mod k"
      using k by (metis mod_0_imp_dvd order_le_less pos_mod_sign)
    moreover have "y - 1 = k * (y div k) + (y mod k - 1)"
      by simp
    ultimately have "(y - 1) div k = y div k"
      using k pos_mod_bound [OF k, of y] by (intro int_div_pos_eq [of _ _ _ "y mod k - 1"]) auto
    then show ?thesis
      using False by simp
  qed
qed

lemma year_start_Suc: "year_start (y + 1) = year_start y + year_days y"
proof -
  have d: "100 dvd y \<longrightarrow> 4 dvd y" "400 dvd y \<longrightarrow> 100 dvd y"
    using dvd_trans [of 4 100 y] dvd_trans [of 100 400 y] by simp_all
  have "y div 4 - (y - 1) div 4 - (y div 100 - (y - 1) div 100) + (y div 400 - (y - 1) div 400) = year_days y - 365"
    unfolding year_days_def leap_year_def div_pred [OF zero_less_numeral]
    by (cases "4 dvd y"; cases "100 dvd y"; cases "400 dvd y") (use d in simp_all)
  then show ?thesis
    unfolding year_start_def by (simp only: add_diff_cancel_right') (simp add: algebra_simps)
qed

lemma year_start_cycle: "year_start (1970 + 400 * q) = 146097 * q"
proof -
  have "(1970 + 400 * q - 1) div 4 = 492 + 100 * q" "(1970 + 400 * q - 1) div 100 = 19 + 4 * q" "(1970 + 400 * q - 1) div 400 = 4 + q"
    by (rule int_div_pos_eq [of _ _ _ 1] int_div_pos_eq [of _ _ _ 69] int_div_pos_eq [of _ _ _ 369]; simp)+
  then show ?thesis
    by (simp add: year_start_def)
qed

lemma year_of_exact:
  assumes "year_of y d = (y', d')" "0 \<le> d"
  shows "0 \<le> d' \<and> d' < year_days y' \<and> year_start y' + d' = year_start y + d"
  using assms
proof (induction y d rule: year_of.induct)
  case (1 y d)
  show ?case
  proof (cases "d < year_days y")
    case True
    then show ?thesis
      using 1 by (simp add: year_of.simps [of y d])
  next
    case False
    then have "0 \<le> d' \<and> d' < year_days y' \<and> year_start y' + d' = year_start (y + 1) + (d - year_days y)"
      using 1 by (intro 1(1)) (simp_all add: year_of.simps [of y d])
    then show ?thesis
      by (simp add: year_start_Suc)
  qed
qed

lemma month_of_exact:
  assumes "month_of m ls d = (m', d')" "0 \<le> d" "d < sum_list ls"
  shows "m \<le> m' \<and> m' < m + length ls \<and> 0 \<le> d' \<and> d' < ls ! (m' - m) \<and> d = sum_list (take (m' - m) ls) + d'"
  using assms
proof (induction m ls d rule: month_of.induct)
  case (2 m l ls d)
  show ?case
  proof (cases "d < l")
    case False
    then have "m + 1 \<le> m' \<and> m' < m + 1 + length ls \<and> 0 \<le> d' \<and> d' < ls ! (m' - (m + 1)) \<and>
        d - l = sum_list (take (m' - (m + 1)) ls) + d'"
      using 2 by simp
    moreover then obtain k where "m' - m = Suc k" "m' - (m + 1) = k"
      by (metis Suc_diff_le Suc_eq_plus1 diff_Suc_Suc)
    ultimately show ?thesis
      by auto
  qed (use 2 in auto)
qed simp

lemma sum_month_days: "sum_list (month_days y) = year_days y"
  by (simp add: month_days_def year_days_def)

text \<open>The time a broken-down date stands for.\<close>

definition tm_time :: "tm \<Rightarrow> int" where
  "tm_time tm =
     86400 * (year_start (tm_year tm + 1900) + sum_list (take (tm_mon tm) (month_days (tm_year tm + 1900))) + tm_mday tm - 1) +
     3600 * tm_hour tm + 60 * tm_min tm + tm_sec tm"

definition tm_ok :: "tm \<Rightarrow> bool" where
  "tm_ok tm \<longleftrightarrow> 0 \<le> tm_sec tm \<and> tm_sec tm < 60 \<and> 0 \<le> tm_min tm \<and> tm_min tm < 60 \<and> 0 \<le> tm_hour tm \<and> tm_hour tm < 24 \<and>
     tm_mon tm < 12 \<and> 1 \<le> tm_mday tm \<and> tm_mday tm \<le> month_days (tm_year tm + 1900) ! tm_mon tm \<and> tm_wday tm < 7"

lemma gmtime_exact: "tm_ok (gmtime t) \<and> tm_time (gmtime t) = t"
proof -
  define days where "days = t div 86400"
  define s where "s = t mod 86400"
  obtain y yday where y: "year_of (1970 + 400 * (days div 146097)) (days mod 146097) = (y, yday)"
    by fastforce
  obtain mon mday where m: "month_of 0 (month_days y) yday = (mon, mday)"
    by fastforce
  have yd: "0 \<le> yday" "yday < year_days y" "year_start y + yday = days"
    using year_of_exact [OF y] by (simp_all add: year_start_cycle)
  have md: "mon < 12" "0 \<le> mday" "mday < month_days y ! mon" "yday = sum_list (take mon (month_days y)) + mday"
    using month_of_exact [OF m yd(1)] yd(2) unfolding sum_month_days by (simp_all add: month_days_def)
  have g: "gmtime t = \<lparr>tm_sec = s mod 60, tm_min = s div 60 mod 60, tm_hour = s div 3600, tm_mday = mday + 1, tm_mon = mon,
       tm_year = y - 1900, tm_wday = nat ((days + 4) mod 7)\<rparr>"
    using y m by (simp add: gmtime_def days_def s_def Let_def)
  have s: "0 \<le> s" "s < 86400" "t = 86400 * days + s"
    by (simp_all add: s_def days_def)
  have h: "s div 3600 = s div 60 div 60"
    using zdiv_zmult2_eq [of 60 s 60] by simp
  have lin: "3600 * a + 60 * b + c = s" if "60 * a + b = m" "60 * m + c = s" for a b c m :: int
    using that by linarith
  have hms: "3600 * (s div 3600) + 60 * (s div 60 mod 60) + s mod 60 = s" "s div 3600 < 24" "0 \<le> s div 3600"
    unfolding h by (rule lin [OF mult_div_mod_eq mult_div_mod_eq]) (use s(1,2) in simp_all)
  have "tm_ok (gmtime t)"
    using md hms(2,3) unfolding g tm_ok_def by (simp add: nat_less_iff)
  moreover have "tm_time (gmtime t) = t"
    using hms(1) s(3) yd(3) md(4) unfolding g tm_time_def by simp
  ultimately show ?thesis
    by blast
qed

section \<open>The printed date\<close>

lemma length_nat_str: "0 < k \<Longrightarrow> length (nat_str 10 n) \<le> k \<longleftrightarrow> n < 10 ^ k"
proof (induction n arbitrary: k rule: less_induct)
  case (less n)
  show ?case
  proof (cases "n < 10")
    case True
    then have "n < 10 ^ k"
      using less.prems power_increasing [of 1 k "10 :: nat"] by simp
    then show ?thesis
      using True less.prems by (simp add: nat_str.simps [of 10 n])
  next
    case False
    then have l: "length (nat_str 10 n) = Suc (length (nat_str 10 (n div 10)))"
      by (simp add: nat_str.simps [of 10 n])
    show ?thesis
    proof (cases "k = 1")
      case True
      then show ?thesis
        using False l by simp
    next
      case k: False
      then obtain k' where k': "k = Suc k'" "0 < k'"
        using less.prems by (cases k) auto
      have "length (nat_str 10 n) \<le> k \<longleftrightarrow> n div 10 < 10 ^ k'"
        using l k' less.IH [of "n div 10" k'] False by simp
      also have "\<dots> \<longleftrightarrow> n < 10 ^ k"
        using k' by (simp add: div_less_iff_less_mult mult.commute)
      finally show ?thesis .
    qed
  qed
qed

lemma length_nat_str_pos: "0 < length (nat_str b n)"
  by simp

lemma length_fmt_02d: "0 \<le> i \<Longrightarrow> i < 100 \<Longrightarrow> length (fmt_02d i) = 2"
  using length_nat_str [of 2 "nat i"] by (simp add: fmt_02d_def pad_zero_def nat_less_iff)

lemma length_int_str: "length (int_str i) \<le> 4 \<longleftrightarrow> - 999 \<le> i \<and> i \<le> 9999"
  using length_nat_str [of 3 "nat (- i)"] length_nat_str [of 4 "nat i"] by (auto simp: int_str_def nat_less_iff)

lemma length_fmt_4d: "length (fmt_4d i) = 4 \<longleftrightarrow> - 999 \<le> i \<and> i \<le> 9999"
  using length_int_str [of i] by (auto simp: fmt_4d_def)

lemma length_names: "d < 7 \<Longrightarrow> length (week ! d) = 3" "m < 12 \<Longrightarrow> length (months ! m) = 3"
  by (simp_all add: week_def months_def nth_Cons' numeral_eq_Suc)


text \<open>The cached date is the date of the second it was asked for.\<close>

lemma mog_now_fresh:
  assumes "mog_now tnow now = Ret now'" "ntime now = tnow \<longrightarrow> mog_http_date MOG_HTTPDATE_CAPA tnow = Ret (httpdate now)"
  shows "ntime now' = tnow" "mog_http_date MOG_HTTPDATE_CAPA tnow = Ret (httpdate now')"
  using assms by (auto simp: mog_now_def split: if_splits)

end
