(* ===== verification/Mog_Http_Get.thy ===== *)
theory Mog_Http_Get
  imports Mog_Http_Write Mog_Date
begin

text \<open>
  \<^verbatim>\<open>http_get.c\<close>: GET and HEAD. Opening the file sends the response header, and the file follows in
  calls of \<^verbatim>\<open>sendfile\<close>. \<open>mtime\<close> gives the modification time the kernel reports for a path.
\<close>

section \<open>Model\<close>

text \<open>What is served: the whole file, \<open>count\<close> bytes from \<open>offset\<close>, or an error.\<close>

datatype get_range = Resp200 | Resp206 int int | BadRange

text \<open>
  The validation of ranges in \<^verbatim>\<open>http_get_resp_hdr\<close>, with the client because an end past the file
  is cut off there.
\<close>

definition get_range_of :: "int \<Rightarrow> mog_http \<Rightarrow> (get_range \<times> mog_http) outcome" where
  "get_range_of st_size http =
     (let beg = h_range_beg http; en = h_range_end http;
          resp206 = (\<lambda>offset count http. assert_then (count > 0) (assert_then (offset \<ge> 0) (Ret (Resp206 offset count, http)))) in
      if \<not> h_has_range http then Ret (Resp200, http)
      else if en < 0 \<and> beg < 0 then Ret (BadRange, http)
      else if beg \<ge> st_size then Ret (BadRange, http)
      else if beg \<ge> 0 \<and> en \<ge> 0 \<and> beg > en then Ret (BadRange, http)
      else if en < 0 then assert_then (beg \<ge> 0) (resp206 beg (wrap64 (st_size - beg)) http)
      else if beg < 0 then
        (let offset = wrap64 (st_size - en) in
         if offset < 0 then Ret (Resp200, http) else resp206 offset (wrap64 (st_size - offset)) http)
      else
        (let http1 = (if en \<ge> st_size then http\<lparr>h_range_end := st_size - 1\<rparr> else http) in
         resp206 beg (wrap64 (h_range_end http1 + 1 - beg)) http1))"

definition connection_value :: "mog_http \<Rightarrow> bytes" where
  "connection_value http = (if h_persistent http then ''keep-alive'' else ''close'')"

definition hdr_200 :: "bytes \<Rightarrow> bytes \<Rightarrow> int \<Rightarrow> mog_http \<Rightarrow> bytes" where
  "hdr_200 date modified st_size http =
     ''HTTP/1.1 200 OK'' @ crlf @ ''Status: 200 OK'' @ crlf @ ''Date: '' @ date @ crlf @
     ''Last-Modified: '' @ modified @ crlf @ ''Content-Length: '' @ int_str st_size @ crlf @
     ''Content-Type: application/octet-stream'' @ crlf @ ''Accept-Ranges: bytes'' @ crlf @
     ''Connection: '' @ connection_value http @ crlf @ crlf"

definition hdr_206 :: "bytes \<Rightarrow> bytes \<Rightarrow> int \<Rightarrow> int \<Rightarrow> int \<Rightarrow> mog_http \<Rightarrow> bytes" where
  "hdr_206 date modified st_size offset count http =
     ''HTTP/1.1 206 Partial Content'' @ crlf @ ''Status: 206 Partial Content'' @ crlf @ ''Date: '' @ date @ crlf @
     ''Last-Modified: '' @ modified @ crlf @ ''Content-Length: '' @ int_str count @ crlf @
     ''Content-Type: application/octet-stream'' @ crlf @
     ''Content-Range: bytes '' @ int_str offset @ ''-'' @ int_str (offset + count - 1) @ ''/'' @ int_str st_size @ crlf @
     ''Connection: '' @ connection_value http @ crlf @ crlf"

definition hdr_416 :: "bytes \<Rightarrow> int \<Rightarrow> mog_http \<Rightarrow> bytes" where
  "hdr_416 date st_size http =
     ''HTTP/1.1 416 Requested Range Not Satisfiable'' @ crlf @
     ''Status: 416 Requested Range Not Satisfiable'' @ crlf @ ''Date: '' @ date @ crlf @
     ''Content-Length: 0'' @ crlf @ ''Content-Type: text/plain'' @ crlf @
     ''Content-Range: bytes */'' @ int_str st_size @ crlf @
     ''Connection: '' @ connection_value http @ crlf @ crlf"

text \<open>The end of \<^verbatim>\<open>http_get_resp_hdr\<close>: the header is sent; a HEAD request gets nothing more.\<close>

definition send_hdr :: "bytes \<Rightarrow> int \<Rightarrow> mog_http \<times> world \<Rightarrow> (int \<times> mog_http \<times> world) outcome" where
  "send_hdr hdr count = (\<lambda>(http, w).
     assert_then (length hdr < fsbuf_size) (assert_then (h_wbuf http = WNull)
       (let count1 = (if h_http_method http = MOG_HTTP_METHOD_HEAD then 0 else count) in
        obind (mog_trysend True hdr (w_tx w)) (\<lambda>(wb, tx).
          Ret (count1, http\<lparr>h_wbuf := wb\<rparr>, w\<lparr>w_tx := tx\<rparr>)))))"

definition http_get_resp_hdr :: "int \<Rightarrow> int \<Rightarrow> mog_http \<times> world \<Rightarrow> (int \<times> mog_http \<times> world) outcome" where
  "http_get_resp_hdr st_mtime st_size = (\<lambda>(http, w).
     assert_then (fsbuf_size div 2 > MOG_HTTPDATE_CAPA)
      (obind (mog_http_date MOG_HTTPDATE_CAPA st_mtime) (\<lambda>modified.
        obind (get_range_of st_size http) (\<lambda>(r, http1).
          case r of
            Resp200 \<Rightarrow> send_hdr (hdr_200 (w_date w) modified st_size http1) st_size (http1, w)
          | Resp206 offset count \<Rightarrow>
              (let http2 = http1\<lparr>h_forward := map_option (\<lambda>f. f\<lparr>fl_foff := offset, fl_fsize := wrap64 (offset + count)\<rparr>)
                                              (h_forward http1)\<rparr> in
               send_hdr (hdr_206 (w_date w) modified st_size offset count http2) count (http2, w))
          | BadRange \<Rightarrow>
              (case h_forward http1 of
                 None \<Rightarrow>
                   assert_then (h_http_method http1 = MOG_HTTP_METHOD_HEAD)
                     (send_hdr (hdr_416 (w_date w) st_size http1) 0 (http1, w))
               | Some f \<Rightarrow>
                   send_hdr (hdr_416 (w_date w) st_size http1) 0 (http1\<lparr>h_forward := None\<rparr>, mog_file_close f w))))))"

text \<open>\<^verbatim>\<open>fstat\<close> on the open file.\<close>

definition sys_fstat :: "fnode \<Rightarrow> world \<Rightarrow> ((bool \<times> int) option \<times> world)" where
  "sys_fstat n w = (Some (node_stat n w), w)"

definition get_err :: "mog_http \<times> world \<Rightarrow> (mog_http \<times> world) outcome" where
  "get_err = (\<lambda>(http, w).
     if w_errno w = Some EACCES then mog_http_resp0 ''403 Forbidden'' True (http, w)
     else if w_errno w = Some ENOENT then mog_http_resp0 ''404 Not Found'' True (http, w)
     else mog_http_resp0 ''500 Internal Server Error'' True (http, w))"

text \<open>The advice given to the kernel about long files (\<^verbatim>\<open>mog_fadv_sequential\<close>) has no effect here.\<close>

definition mog_http_get_open :: "(bytes \<Rightarrow> int) \<Rightarrow> bytes \<Rightarrow> mog_http \<times> world \<Rightarrow> (mog_http \<times> world) outcome" where
  "mog_http_get_open mtime buf = (\<lambda>(http, w).
     let forbidden = mog_http_resp0 ''403 Forbidden'' True;
         resp_hdr = (\<lambda>t n s. obind (http_get_resp_hdr t n s) (\<lambda>(_, s1). Ret s1)) in
     obind (http_path http buf w) (\<lambda>(p, w1).
       case p of
         None \<Rightarrow> forbidden (http, w1)
       | Some path \<Rightarrow>
           assert_then (h_forward http = None) (assert_then (path \<noteq> [] \<and> hd path = CHR ''/'')
            (if tl path = [] then resp_hdr 0 0 (http, w1)
             else if h_http_method http = MOG_HTTP_METHOD_HEAD then
               obind (mog_stat path w1) (\<lambda>(st, w2).
                 case st of
                   None \<Rightarrow> get_err (http, w2)
                 | Some (reg, st_size) \<Rightarrow>
                     if \<not> reg then forbidden (http, w2) else resp_hdr (mtime path) st_size (http, w2))
             else
               obind (mog_file_open_read path w1) (\<lambda>(fd, w2).
                 case fd of
                   None \<Rightarrow> get_err (http, w2)
                 | Some f \<Rightarrow>
                     assert_then (fl_path f = None)
                      (obind (fs_call (sys_fstat (fl_node f)) None w2) (\<lambda>(st, w3).
                        case st of
                          None \<Rightarrow> get_err (http, mog_file_close f w3)
                        | Some (reg, st_size) \<Rightarrow>
                            if \<not> reg then forbidden (http, mog_file_close f w3)
                            else resp_hdr (mtime path) st_size
                                   (http\<lparr>h_forward := Some (f\<lparr>fl_fsize := st_size\<rparr>)\<rparr>, w3))))))))"

section \<open>Sending the file\<close>

text \<open>
  \<^verbatim>\<open>sendfile\<close> from the offset of the file: at least one byte unless the file ends there. The answers
  are those of the socket.
\<close>

definition sys_sendfile :: "mog_file \<Rightarrow> nat \<Rightarrow> world \<Rightarrow> (int \<times> mog_file \<times> world) outcome" where
  "sys_sendfile f count w =
     (case sk_script (w_tx w) of
        [] \<Rightarrow> Starved
      | WErr e # as \<Rightarrow> Ret (-1, f, set_errno e (w\<lparr>w_tx := (w_tx w)\<lparr>sk_script := as\<rparr>\<rparr>))
      | Wrote k # as \<Rightarrow>
          (case fl_node f of
             FDir \<Rightarrow> Ret (-1, f, set_errno EINVAL (w\<lparr>w_tx := (w_tx w)\<lparr>sk_script := as\<rparr>\<rparr>))
           | FReg i \<Rightarrow>
               (let d = take (min (max 1 k) count) (drop (nat (fl_foff f)) (w_data w i)) in
                Ret (int (length d), f\<lparr>fl_foff := fl_foff f + int (length d)\<rparr>,
                     w\<lparr>w_tx := \<lparr>sk_sent = sk_sent (w_tx w) @ d, sk_script = as\<rparr>\<rparr>))))"

definition max_sendfile :: int where
  "max_sendfile = 1024 * 1024 * 100"

text \<open>
  The label \<^verbatim>\<open>done\<close>. When the connection closes, \<^verbatim>\<open>http->forward\<close> keeps its value, which nothing reads
  any more.
\<close>

definition get_done :: "mog_http \<times> world \<Rightarrow> (mog_next \<times> mog_http \<times> world) outcome" where
  "get_done = (\<lambda>(http, w).
     case h_forward http of
       None \<Rightarrow> Abort
     | Some f \<Rightarrow>
         if h_persistent http then Ret (MOG_NEXT_ACTIVE, mog_http_reset http, mog_file_close f w)
         else Ret (MOG_NEXT_CLOSE, http, mog_file_close f w))"

primrec sendfile_loop :: "wres list \<Rightarrow> nat \<Rightarrow> mog_http \<times> world \<Rightarrow> (mog_next \<times> mog_http \<times> world) outcome" where
  "sendfile_loop [] count s = Starved"
| "sendfile_loop (a # as) count s = (case s of (http, w) \<Rightarrow>
     (case h_forward http of
        None \<Rightarrow> Abort
      | Some f \<Rightarrow>
          obind (sys_sendfile f count w) (\<lambda>(r, f1, w1).
            let http1 = http\<lparr>h_forward := Some f1\<rparr> in
            if r > 0 then
              (if fl_foff f1 = fl_fsize f1 then get_done (http1, w1) else Ret (MOG_NEXT_ACTIVE, http1, w1))
            else if r < 0 \<and> w_errno w1 = Some EAGAIN then Ret (MOG_NEXT_WAIT_WR, http1, w1)
            else if r < 0 \<and> w_errno w1 = Some EINTR then sendfile_loop as count (http1, w1)
            else get_done (http1\<lparr>h_persistent := False\<rparr>, w1))))"

definition mog_http_get_in_progress :: "mog_http \<times> world \<Rightarrow> (mog_next \<times> mog_http \<times> world) outcome" where
  "mog_http_get_in_progress = (\<lambda>(http, w).
     assert_then (h_wbuf http = WNull)
      (case h_forward http of
         None \<Rightarrow> Abort
       | Some f \<Rightarrow>
           assert_then (fl_fsize f \<ge> 0) (assert_then (fl_foff f \<ge> 0)
            (let count = min (fl_fsize f - fl_foff f) max_sendfile in
             if count = 0 then get_done (http, w)
             else sendfile_loop (sk_script (w_tx w)) (nat (count mod 2 ^ 64)) (http, w)))))"

section \<open>Ranges\<close>

text \<open>
  The positions a \<^verbatim>\<open>Range\<close> header asks for: \<^verbatim>\<open>bytes=beg-end\<close>, \<^verbatim>\<open>bytes=beg-\<close> (no end) or the last \<open>en\<close>
  bytes, \<^verbatim>\<open>bytes=-end\<close> (no beginning).
\<close>

definition wanted :: "int \<Rightarrow> int \<Rightarrow> int \<Rightarrow> int set" where
  "wanted beg en sz =
     {p. 0 \<le> p \<and> p < sz \<and> (if beg < 0 then sz - en \<le> p else beg \<le> p \<and> (en < 0 \<or> p \<le> en))}"



end
