(* ===== verification/Mog_Http_Table.thy ===== *)
theory Mog_Http_Table
  imports Mog_Chunk
begin

text \<open>
  The automaton of \<^verbatim>\<open>http_parser.c\<close> as data. A row \<open>(n, rs, d)\<close> is the \<^verbatim>\<open>case n\<close> of the generated code:
  a character in one of the ranges \<open>rs\<close> jumps to the label given there, any other to \<open>d\<close>; \<open>St m\<close> is the
  label \<^verbatim>\<open>stm\<close> and \<open>Tr m\<close> the label \<^verbatim>\<open>trm\<close>. An entry \<open>(m, as, n)\<close> of the second kind of list is the label
  \<^verbatim>\<open>trm\<close>: its actions in their order and the state it goes to. Actions are named after what they do in
  \<^verbatim>\<open>http_parser.rl\<close> and \<^verbatim>\<open>http_common.rl\<close>. The lists follow the order of the code.
\<close>

datatype http_lab = St nat | Tr nat

datatype http_act =
    A_ignore_header | A_ignore_trailer | A_more_headers | A_more_trailers | A_einval | A_md5_check
  | A_method mog_http_method | A_path_tip | A_path_end | A_persistent bool | A_line_end | A_has_range
  | A_done | A_trailers_done | A_chunked | A_has_content_range | A_content_len | A_tmp_tip | A_md5
  | A_range_init | A_range_beg bool | A_range_end bool | A_trailer_md5

type_synonym http_row = "nat \<times> (int \<times> int \<times> http_lab) list \<times> http_lab"
type_synonym http_tr = "nat \<times> http_act list \<times> nat"

definition http_rows_1 :: "http_row list" where
  "http_rows_1 = [
    (1, [(68, 68, Tr 0), (71, 71, Tr 2), (72, 72, Tr 3), (77, 77, Tr 4), (80, 80, Tr 5)], St 0),
    (2, [(69, 69, St 3)], St 0)]"

definition http_trs_1 :: "http_tr list" where
  "http_trs_1 = [
    (27, [A_ignore_header], 0),
    (77, [A_einval, A_ignore_header], 0),
    (85, [A_md5_check, A_ignore_header], 0),
    (123, [A_einval, A_ignore_header], 0),
    (202, [A_einval, A_ignore_header], 0),
    (205, [A_einval, A_ignore_header], 0),
    (268, [A_ignore_trailer], 0),
    (283, [A_md5_check, A_ignore_trailer], 0),
    (0, [A_method MOG_HTTP_METHOD_DELETE], 2)]"

definition http_rows_2 :: "http_row list" where
  "http_rows_2 = [
    (3, [(76, 76, St 4)], St 0),
    (4, [(69, 69, St 5)], St 0),
    (5, [(84, 84, St 6)], St 0),
    (6, [(69, 69, St 7)], St 0),
    (7, [(32, 32, St 8)], St 0),
    (8, [(47, 47, Tr 12), (104, 104, St 222)], St 0),
    (9, [(32, 32, Tr 14), (45, 46, St 186), (47, 47, Tr 12), (48, 57, St 186), (65, 90, St 186), (97, 122, St 186)], St 0),
    (10, [(72, 72, St 11)], St 0),
    (11, [(84, 84, St 12)], St 0),
    (12, [(84, 84, St 13)], St 0),
    (13, [(80, 80, St 14)], St 0),
    (14, [(47, 47, St 15)], St 0),
    (15, [(49, 49, St 16)], St 0),
    (16, [(46, 46, St 17)], St 0),
    (17, [(48, 48, St 18), (49, 49, Tr 24)], St 0),
    (18, [(13, 13, St 19)], St 0),
    (19, [(10, 10, Tr 26)], St 0)]"

definition http_trs_2 :: "http_tr list" where
  "http_trs_2 = [
    (12, [A_path_tip], 9),
    (14, [A_path_end], 10),
    (24, [A_persistent True], 18)]"

definition http_rows_3 :: "http_row list" where
  "http_rows_3 = [
    (20, [(13, 13, St 21), (67, 67, St 22), (82, 82, St 101), (84, 84, St 119), (99, 99, St 22), (114, 114, St 101), (116, 116, St 119)], Tr 27),
    (21, [(10, 10, Tr 32)], St 0),
    (468, [], St 0),
    (22, [(79, 79, St 23), (111, 111, St 23)], Tr 27),
    (23, [(78, 78, St 24), (110, 110, St 24)], Tr 27),
    (24, [(78, 78, St 25), (84, 84, St 51), (110, 110, St 25), (116, 116, St 51)], Tr 27),
    (25, [(69, 69, St 26), (101, 101, St 26)], Tr 27),
    (26, [(67, 67, St 27), (99, 99, St 27)], Tr 27),
    (27, [(84, 84, St 28), (116, 116, St 28)], Tr 27),
    (28, [(73, 73, St 29), (105, 105, St 29)], Tr 27),
    (29, [(79, 79, St 30), (111, 111, St 30)], Tr 27),
    (30, [(78, 78, St 31), (110, 110, St 31)], Tr 27),
    (31, [(58, 58, St 32)], Tr 27),
    (32, [(9, 9, St 32), (13, 13, St 33), (32, 32, St 32), (67, 67, St 36), (75, 75, St 42), (99, 99, St 36), (107, 107, St 42)], Tr 27)]"

definition http_trs_3 :: "http_tr list" where
  "http_trs_3 = [
    (26, [A_line_end], 20),
    (138, [A_line_end, A_has_range], 20),
    (32, [A_done], 468)]"

definition http_rows_4 :: "http_row list" where
  "http_rows_4 = [
    (33, [(10, 10, Tr 47)], Tr 27),
    (34, [(9, 9, St 35), (32, 32, St 35)], Tr 27),
    (35, [(9, 9, St 35), (32, 32, St 35), (67, 67, St 36), (75, 75, St 42), (99, 99, St 36), (107, 107, St 42)], Tr 27),
    (36, [(76, 76, St 37), (108, 108, St 37)], Tr 27),
    (37, [(79, 79, St 38), (111, 111, St 38)], Tr 27),
    (38, [(83, 83, St 39), (115, 115, St 39)], Tr 27),
    (39, [(69, 69, Tr 52), (101, 101, Tr 52)], Tr 27),
    (40, [(9, 9, St 40), (13, 13, St 41), (32, 32, St 40)], Tr 27),
    (41, [(10, 10, Tr 26)], Tr 27),
    (42, [(69, 69, St 43), (101, 101, St 43)], Tr 27),
    (43, [(69, 69, St 44), (101, 101, St 44)], Tr 27),
    (44, [(80, 80, St 45), (112, 112, St 45)], Tr 27),
    (45, [(45, 45, St 46)], Tr 27)]"

definition http_trs_4 :: "http_tr list" where
  "http_trs_4 = [
    (47, [A_line_end], 34),
    (52, [A_persistent False], 40),
    (63, [A_persistent True], 40),
    (186, [A_chunked], 40),
    (209, [A_has_content_range], 40),
    (187, [A_chunked], 41),
    (210, [A_has_content_range], 41)]"

definition http_rows_5 :: "http_row list" where
  "http_rows_5 = [
    (46, [(65, 65, St 47), (97, 97, St 47)], Tr 27),
    (47, [(76, 76, St 48), (108, 108, St 48)], Tr 27),
    (48, [(73, 73, St 49), (105, 105, St 49)], Tr 27),
    (49, [(86, 86, St 50), (118, 118, St 50)], Tr 27),
    (50, [(69, 69, Tr 63), (101, 101, Tr 63)], Tr 27),
    (51, [(69, 69, St 52), (101, 101, St 52)], Tr 27),
    (52, [(78, 78, St 53), (110, 110, St 53)], Tr 27),
    (53, [(84, 84, St 54), (116, 116, St 54)], Tr 27),
    (54, [(45, 45, St 55)], Tr 27),
    (55, [(76, 76, St 56), (77, 77, St 67), (82, 82, St 166), (108, 108, St 56), (109, 109, St 67), (114, 114, St 166)], Tr 27),
    (56, [(69, 69, St 57), (101, 101, St 57)], Tr 27),
    (57, [(78, 78, St 58), (110, 110, St 58)], Tr 27),
    (58, [(71, 71, St 59), (103, 103, St 59)], Tr 27),
    (59, [(84, 84, St 60), (116, 116, St 60)], Tr 27),
    (60, [(72, 72, St 61), (104, 104, St 61)], Tr 27),
    (61, [(58, 58, St 62)], Tr 27)]"

definition http_rows_6 :: "http_row list" where
  "http_rows_6 = [
    (62, [(9, 9, St 62), (13, 13, St 63), (32, 32, St 62), (48, 57, Tr 79)], Tr 77),
    (63, [(10, 10, Tr 80)], Tr 27),
    (64, [(9, 9, St 65), (32, 32, St 65)], Tr 27),
    (65, [(9, 9, St 65), (32, 32, St 65), (48, 57, Tr 79)], Tr 77),
    (66, [(9, 9, St 40), (13, 13, St 41), (32, 32, St 40), (48, 57, Tr 79)], Tr 77),
    (67, [(68, 68, St 68), (100, 100, St 68)], Tr 27),
    (68, [(53, 53, St 69)], Tr 27),
    (69, [(58, 58, St 70)], Tr 27),
    (70, [(9, 9, St 70), (13, 13, St 71), (32, 32, St 70), (43, 43, Tr 87), (47, 57, Tr 87), (65, 90, Tr 87), (97, 122, Tr 87)], Tr 85),
    (71, [(10, 10, Tr 88)], Tr 27),
    (72, [(9, 9, St 73), (32, 32, St 73)], Tr 27),
    (73, [(9, 9, St 73), (32, 32, St 73), (43, 43, Tr 87), (47, 57, Tr 87), (65, 90, Tr 87), (97, 122, Tr 87)], Tr 85)]"

definition http_trs_6 :: "http_tr list" where
  "http_trs_6 = [
    (80, [A_line_end], 64),
    (79, [A_content_len], 66),
    (88, [A_line_end], 72)]"

definition http_rows_7 :: "http_row list" where
  "http_rows_7 = [
    (74, [(43, 43, St 75), (47, 57, St 75), (65, 90, St 75), (97, 122, St 75)], Tr 85),
    (75, [(43, 43, St 76), (47, 57, St 76), (65, 90, St 76), (97, 122, St 76)], Tr 85),
    (76, [(43, 43, St 77), (47, 57, St 77), (65, 90, St 77), (97, 122, St 77)], Tr 85),
    (77, [(43, 43, St 78), (47, 57, St 78), (65, 90, St 78), (97, 122, St 78)], Tr 85),
    (78, [(43, 43, St 79), (47, 57, St 79), (65, 90, St 79), (97, 122, St 79)], Tr 85),
    (79, [(43, 43, St 80), (47, 57, St 80), (65, 90, St 80), (97, 122, St 80)], Tr 85),
    (80, [(43, 43, St 81), (47, 57, St 81), (65, 90, St 81), (97, 122, St 81)], Tr 85),
    (81, [(43, 43, St 82), (47, 57, St 82), (65, 90, St 82), (97, 122, St 82)], Tr 85),
    (82, [(43, 43, St 83), (47, 57, St 83), (65, 90, St 83), (97, 122, St 83)], Tr 85)]"

definition http_trs_7 :: "http_tr list" where
  "http_trs_7 = [
    (87, [A_tmp_tip], 74)]"

definition http_rows_8 :: "http_row list" where
  "http_rows_8 = [
    (83, [(43, 43, St 84), (47, 57, St 84), (65, 90, St 84), (97, 122, St 84)], Tr 85),
    (84, [(43, 43, St 85), (47, 57, St 85), (65, 90, St 85), (97, 122, St 85)], Tr 85),
    (85, [(43, 43, St 86), (47, 57, St 86), (65, 90, St 86), (97, 122, St 86)], Tr 85),
    (86, [(43, 43, St 87), (47, 57, St 87), (65, 90, St 87), (97, 122, St 87)], Tr 85),
    (87, [(43, 43, St 88), (47, 57, St 88), (65, 90, St 88), (97, 122, St 88)], Tr 85),
    (88, [(43, 43, St 89), (47, 57, St 89), (65, 90, St 89), (97, 122, St 89)], Tr 85),
    (89, [(43, 43, St 90), (47, 57, St 90), (65, 90, St 90), (97, 122, St 90)], Tr 85),
    (90, [(43, 43, St 91), (47, 57, St 91), (65, 90, St 91), (97, 122, St 91)], Tr 85),
    (91, [(43, 43, St 92), (47, 57, St 92), (65, 90, St 92), (97, 122, St 92)], Tr 85)]"

definition http_rows_9 :: "http_row list" where
  "http_rows_9 = [
    (92, [(43, 43, St 93), (47, 57, St 93), (65, 90, St 93), (97, 122, St 93)], Tr 85),
    (93, [(43, 43, St 94), (47, 57, St 94), (65, 90, St 94), (97, 122, St 94)], Tr 85),
    (94, [(43, 43, St 95), (47, 57, St 95), (65, 90, St 95), (97, 122, St 95)], Tr 85),
    (95, [(61, 61, St 96)], Tr 85),
    (96, [(61, 61, St 97)], Tr 85),
    (97, [(9, 9, Tr 113), (13, 13, Tr 114), (32, 32, Tr 113)], Tr 85),
    (98, [(9, 9, St 98), (13, 13, St 99), (32, 32, St 98)], Tr 85),
    (99, [(10, 10, Tr 117)], Tr 85),
    (100, [(13, 13, St 21), (67, 67, St 22), (82, 82, St 101), (84, 84, St 119), (99, 99, St 22), (114, 114, St 101), (116, 116, St 119)], Tr 85),
    (101, [(65, 65, St 102), (97, 97, St 102)], Tr 27)]"

definition http_trs_9 :: "http_tr list" where
  "http_trs_9 = [
    (113, [A_md5], 98),
    (114, [A_md5], 99),
    (117, [A_line_end], 100)]"

definition http_rows_10 :: "http_row list" where
  "http_rows_10 = [
    (102, [(78, 78, St 103), (110, 110, St 103)], Tr 27),
    (103, [(71, 71, St 104), (103, 103, St 104)], Tr 27),
    (104, [(69, 69, St 105), (101, 101, St 105)], Tr 27),
    (105, [(58, 58, St 106)], Tr 27),
    (106, [(9, 9, St 106), (13, 13, St 107), (32, 32, St 106), (98, 98, Tr 125)], Tr 123),
    (107, [(10, 10, Tr 126)], Tr 27),
    (108, [(9, 9, St 109), (32, 32, St 109)], Tr 27),
    (109, [(9, 9, St 109), (32, 32, St 109), (98, 98, Tr 125)], Tr 123),
    (110, [(121, 121, St 111)], Tr 123),
    (111, [(116, 116, St 112)], Tr 123),
    (112, [(101, 101, St 113)], Tr 123),
    (113, [(115, 115, St 114)], Tr 123),
    (114, [(61, 61, St 115)], Tr 123),
    (115, [(45, 45, St 116), (48, 57, Tr 134)], Tr 123)]"

definition http_trs_10 :: "http_tr list" where
  "http_trs_10 = [
    (126, [A_line_end], 108),
    (125, [A_range_init], 110),
    (134, [A_range_beg True], 115),
    (137, [A_range_end True], 116)]"

definition http_rows_11 :: "http_row list" where
  "http_rows_11 = [
    (116, [(9, 9, St 117), (13, 13, St 118), (32, 32, St 117), (48, 57, Tr 137)], Tr 123),
    (117, [(9, 9, St 117), (13, 13, St 118), (32, 32, St 117)], Tr 27),
    (118, [(10, 10, Tr 138)], Tr 27),
    (119, [(82, 82, St 120), (114, 114, St 120)], Tr 27),
    (120, [(65, 65, St 121), (97, 97, St 121)], Tr 27),
    (121, [(73, 73, St 122), (78, 78, St 141), (105, 105, St 122), (110, 110, St 141)], Tr 27),
    (122, [(76, 76, St 123), (108, 108, St 123)], Tr 27),
    (123, [(69, 69, St 124), (101, 101, St 124)], Tr 27),
    (124, [(82, 82, St 125), (114, 114, St 125)], Tr 27),
    (125, [(58, 58, St 126)], Tr 27),
    (126, [(9, 9, St 126), (13, 13, St 127), (32, 32, St 126), (44, 44, St 40), (45, 45, St 130), (48, 57, St 130), (65, 66, St 130), (67, 67, St 131), (68, 90, St 130), (97, 98, St 130), (99, 99, St 131), (100, 122, St 130)], Tr 27),
    (127, [(10, 10, Tr 150)], Tr 27),
    (128, [(9, 9, St 129), (32, 32, St 129)], Tr 27)]"

definition http_trs_11 :: "http_tr list" where
  "http_trs_11 = [
    (150, [A_line_end], 128)]"

definition http_rows_12 :: "http_row list" where
  "http_rows_12 = [
    (129, [(9, 9, St 129), (32, 32, St 129), (44, 44, St 40), (45, 45, St 130), (48, 57, St 130), (65, 66, St 130), (67, 67, St 131), (68, 90, St 130), (97, 98, St 130), (99, 99, St 131), (100, 122, St 130)], Tr 27),
    (130, [(9, 9, St 40), (13, 13, St 41), (32, 32, St 40), (45, 45, St 130), (48, 57, St 130), (65, 90, St 130), (97, 122, St 130)], Tr 27),
    (131, [(9, 9, St 40), (13, 13, St 41), (32, 32, St 40), (45, 45, St 130), (48, 57, St 130), (65, 78, St 130), (79, 79, St 132), (80, 90, St 130), (97, 110, St 130), (111, 111, St 132), (112, 122, St 130)], Tr 27),
    (132, [(9, 9, St 40), (13, 13, St 41), (32, 32, St 40), (45, 45, St 130), (48, 57, St 130), (65, 77, St 130), (78, 78, St 133), (79, 90, St 130), (97, 109, St 130), (110, 110, St 133), (111, 122, St 130)], Tr 27),
    (133, [(9, 9, St 40), (13, 13, St 41), (32, 32, St 40), (45, 45, St 130), (48, 57, St 130), (65, 83, St 130), (84, 84, St 134), (85, 90, St 130), (97, 115, St 130), (116, 116, St 134), (117, 122, St 130)], Tr 27),
    (134, [(9, 9, St 40), (13, 13, St 41), (32, 32, St 40), (45, 45, St 130), (48, 57, St 130), (65, 68, St 130), (69, 69, St 135), (70, 90, St 130), (97, 100, St 130), (101, 101, St 135), (102, 122, St 130)], Tr 27)]"

definition http_trs_12 :: "http_tr list" where
  "http_trs_12 = [
    (161, [A_trailer_md5], 130)]"

definition http_rows_13 :: "http_row list" where
  "http_rows_13 = [
    (135, [(9, 9, St 40), (13, 13, St 41), (32, 32, St 40), (45, 45, St 130), (48, 57, St 130), (65, 77, St 130), (78, 78, St 136), (79, 90, St 130), (97, 109, St 130), (110, 110, St 136), (111, 122, St 130)], Tr 27),
    (136, [(9, 9, St 40), (13, 13, St 41), (32, 32, St 40), (45, 45, St 130), (48, 57, St 130), (65, 83, St 130), (84, 84, St 137), (85, 90, St 130), (97, 115, St 130), (116, 116, St 137), (117, 122, St 130)], Tr 27),
    (137, [(9, 9, St 40), (13, 13, St 41), (32, 32, St 40), (45, 45, St 138), (48, 57, St 130), (65, 90, St 130), (97, 122, St 130)], Tr 27),
    (138, [(9, 9, St 40), (13, 13, St 41), (32, 32, St 40), (45, 45, St 130), (48, 57, St 130), (65, 76, St 130), (77, 77, St 139), (78, 90, St 130), (97, 108, St 130), (109, 109, St 139), (110, 122, St 130)], Tr 27),
    (139, [(9, 9, St 40), (13, 13, St 41), (32, 32, St 40), (45, 45, St 130), (48, 57, St 130), (65, 67, St 130), (68, 68, St 140), (69, 90, St 130), (97, 99, St 130), (100, 100, St 140), (101, 122, St 130)], Tr 27),
    (140, [(9, 9, St 40), (13, 13, St 41), (32, 32, St 40), (45, 45, St 130), (48, 52, St 130), (53, 53, Tr 161), (54, 57, St 130), (65, 90, St 130), (97, 122, St 130)], Tr 27),
    (141, [(83, 83, St 142), (115, 115, St 142)], Tr 27),
    (142, [(70, 70, St 143), (102, 102, St 143)], Tr 27)]"

definition http_rows_14 :: "http_row list" where
  "http_rows_14 = [
    (143, [(69, 69, St 144), (101, 101, St 144)], Tr 27),
    (144, [(82, 82, St 145), (114, 114, St 145)], Tr 27),
    (145, [(45, 45, St 146)], Tr 27),
    (146, [(69, 69, St 147), (101, 101, St 147)], Tr 27),
    (147, [(78, 78, St 148), (110, 110, St 148)], Tr 27),
    (148, [(67, 67, St 149), (99, 99, St 149)], Tr 27),
    (149, [(79, 79, St 150), (111, 111, St 150)], Tr 27),
    (150, [(68, 68, St 151), (100, 100, St 151)], Tr 27),
    (151, [(73, 73, St 152), (105, 105, St 152)], Tr 27),
    (152, [(78, 78, St 153), (110, 110, St 153)], Tr 27),
    (153, [(71, 71, St 154), (103, 103, St 154)], Tr 27),
    (154, [(58, 58, St 155)], Tr 27),
    (155, [(9, 9, St 155), (13, 13, St 156), (32, 32, St 155), (67, 67, St 159), (99, 99, St 159)], Tr 27),
    (156, [(10, 10, Tr 178)], Tr 27),
    (157, [(9, 9, St 158), (32, 32, St 158)], Tr 27),
    (158, [(9, 9, St 158), (32, 32, St 158), (67, 67, St 159), (99, 99, St 159)], Tr 27)]"

definition http_trs_14 :: "http_tr list" where
  "http_trs_14 = [
    (178, [A_line_end], 157)]"

definition http_rows_15 :: "http_row list" where
  "http_rows_15 = [
    (159, [(72, 72, St 160), (104, 104, St 160)], Tr 27),
    (160, [(85, 85, St 161), (117, 117, St 161)], Tr 27),
    (161, [(78, 78, St 162), (110, 110, St 162)], Tr 27),
    (162, [(75, 75, St 163), (107, 107, St 163)], Tr 27),
    (163, [(69, 69, St 164), (101, 101, St 164)], Tr 27),
    (164, [(68, 68, St 165), (100, 100, St 165)], Tr 27),
    (165, [(9, 9, Tr 186), (13, 13, Tr 187), (32, 32, Tr 186)], Tr 27),
    (166, [(65, 65, St 167), (97, 97, St 167)], Tr 27),
    (167, [(78, 78, St 168), (110, 110, St 168)], Tr 27),
    (168, [(71, 71, St 169), (103, 103, St 169)], Tr 27),
    (169, [(69, 69, St 170), (101, 101, St 170)], Tr 27),
    (170, [(58, 58, St 171)], Tr 27),
    (171, [(9, 9, St 171), (13, 13, St 172), (32, 32, St 171), (98, 98, St 175)], Tr 27),
    (172, [(10, 10, Tr 195)], Tr 27),
    (173, [(9, 9, St 174), (32, 32, St 174)], Tr 27)]"

definition http_trs_15 :: "http_tr list" where
  "http_trs_15 = [
    (195, [A_line_end], 173)]"

definition http_rows_16 :: "http_row list" where
  "http_rows_16 = [
    (174, [(9, 9, St 174), (32, 32, St 174), (98, 98, St 175)], Tr 27),
    (175, [(121, 121, St 176)], Tr 27),
    (176, [(116, 116, St 177)], Tr 27),
    (177, [(101, 101, St 178)], Tr 27),
    (178, [(115, 115, St 179)], Tr 27),
    (179, [(9, 9, St 180), (32, 32, St 180)], Tr 27),
    (180, [(9, 9, St 180), (32, 32, St 180), (48, 57, Tr 203)], Tr 202),
    (181, [(45, 45, St 182), (48, 57, Tr 203)], Tr 202),
    (182, [(48, 57, Tr 206)], Tr 205),
    (183, [(47, 47, St 184), (48, 57, Tr 206)], Tr 205),
    (184, [(42, 42, St 185)], Tr 27),
    (185, [(9, 9, Tr 209), (13, 13, Tr 210), (32, 32, Tr 209)], Tr 27),
    (186, [(32, 32, Tr 14), (45, 57, St 187), (65, 90, St 187), (97, 122, St 187)], St 0),
    (187, [(32, 32, Tr 14), (45, 57, St 188), (65, 90, St 188), (97, 122, St 188)], St 0)]"

definition http_trs_16 :: "http_tr list" where
  "http_trs_16 = [
    (203, [A_range_beg False], 181),
    (206, [A_range_end False], 183)]"

definition http_rows_17 :: "http_row list" where
  "http_rows_17 = [
    (188, [(32, 32, Tr 14), (45, 57, St 189), (65, 90, St 189), (97, 122, St 189)], St 0),
    (189, [(32, 32, Tr 14), (45, 57, St 190), (65, 90, St 190), (97, 122, St 190)], St 0),
    (190, [(32, 32, Tr 14), (45, 57, St 191), (65, 90, St 191), (97, 122, St 191)], St 0),
    (191, [(32, 32, Tr 14), (45, 57, St 192), (65, 90, St 192), (97, 122, St 192)], St 0),
    (192, [(32, 32, Tr 14), (45, 57, St 193), (65, 90, St 193), (97, 122, St 193)], St 0),
    (193, [(32, 32, Tr 14), (45, 57, St 194), (65, 90, St 194), (97, 122, St 194)], St 0),
    (194, [(32, 32, Tr 14), (45, 57, St 195), (65, 90, St 195), (97, 122, St 195)], St 0),
    (195, [(32, 32, Tr 14), (45, 57, St 196), (65, 90, St 196), (97, 122, St 196)], St 0),
    (196, [(32, 32, Tr 14), (45, 57, St 197), (65, 90, St 197), (97, 122, St 197)], St 0)]"

definition http_rows_18 :: "http_row list" where
  "http_rows_18 = [
    (197, [(32, 32, Tr 14), (45, 57, St 198), (65, 90, St 198), (97, 122, St 198)], St 0),
    (198, [(32, 32, Tr 14), (45, 57, St 199), (65, 90, St 199), (97, 122, St 199)], St 0),
    (199, [(32, 32, Tr 14), (45, 57, St 200), (65, 90, St 200), (97, 122, St 200)], St 0),
    (200, [(32, 32, Tr 14), (45, 57, St 201), (65, 90, St 201), (97, 122, St 201)], St 0),
    (201, [(32, 32, Tr 14), (45, 57, St 202), (65, 90, St 202), (97, 122, St 202)], St 0),
    (202, [(32, 32, Tr 14), (45, 57, St 203), (65, 90, St 203), (97, 122, St 203)], St 0),
    (203, [(32, 32, Tr 14), (45, 57, St 204), (65, 90, St 204), (97, 122, St 204)], St 0),
    (204, [(32, 32, Tr 14), (45, 57, St 205), (65, 90, St 205), (97, 122, St 205)], St 0),
    (205, [(32, 32, Tr 14), (45, 57, St 206), (65, 90, St 206), (97, 122, St 206)], St 0)]"

definition http_rows_19 :: "http_row list" where
  "http_rows_19 = [
    (206, [(32, 32, Tr 14), (45, 57, St 207), (65, 90, St 207), (97, 122, St 207)], St 0),
    (207, [(32, 32, Tr 14), (45, 57, St 208), (65, 90, St 208), (97, 122, St 208)], St 0),
    (208, [(32, 32, Tr 14), (45, 57, St 209), (65, 90, St 209), (97, 122, St 209)], St 0),
    (209, [(32, 32, Tr 14), (45, 57, St 210), (65, 90, St 210), (97, 122, St 210)], St 0),
    (210, [(32, 32, Tr 14), (45, 57, St 211), (65, 90, St 211), (97, 122, St 211)], St 0),
    (211, [(32, 32, Tr 14), (45, 57, St 212), (65, 90, St 212), (97, 122, St 212)], St 0),
    (212, [(32, 32, Tr 14), (45, 57, St 213), (65, 90, St 213), (97, 122, St 213)], St 0),
    (213, [(32, 32, Tr 14), (45, 57, St 214), (65, 90, St 214), (97, 122, St 214)], St 0),
    (214, [(32, 32, Tr 14), (45, 57, St 215), (65, 90, St 215), (97, 122, St 215)], St 0)]"

definition http_rows_20 :: "http_row list" where
  "http_rows_20 = [
    (215, [(32, 32, Tr 14), (45, 57, St 216), (65, 90, St 216), (97, 122, St 216)], St 0),
    (216, [(32, 32, Tr 14), (45, 57, St 217), (65, 90, St 217), (97, 122, St 217)], St 0),
    (217, [(32, 32, Tr 14), (45, 57, St 218), (65, 90, St 218), (97, 122, St 218)], St 0),
    (218, [(32, 32, Tr 14), (45, 57, St 219), (65, 90, St 219), (97, 122, St 219)], St 0),
    (219, [(32, 32, Tr 14), (45, 57, St 220), (65, 90, St 220), (97, 122, St 220)], St 0),
    (220, [(32, 32, Tr 14), (45, 57, St 221), (65, 90, St 221), (97, 122, St 221)], St 0),
    (221, [(32, 32, Tr 14)], St 0),
    (222, [(116, 116, St 223)], St 0),
    (223, [(116, 116, St 224)], St 0),
    (224, [(112, 112, St 225)], St 0),
    (225, [(58, 58, St 226)], St 0),
    (226, [(47, 47, St 227)], St 0),
    (227, [(47, 47, St 228)], St 0),
    (228, [(47, 47, St 0)], St 229)]"

definition http_rows_21 :: "http_row list" where
  "http_rows_21 = [
    (229, [(47, 47, Tr 12)], St 229),
    (230, [(69, 69, St 231)], St 0),
    (231, [(84, 84, St 7)], St 0),
    (232, [(69, 69, St 233)], St 0),
    (233, [(65, 65, St 234)], St 0),
    (234, [(68, 68, St 7)], St 0),
    (235, [(75, 75, St 236)], St 0),
    (236, [(67, 67, St 237)], St 0),
    (237, [(79, 79, St 238)], St 0),
    (238, [(76, 76, St 7)], St 0),
    (239, [(85, 85, St 231)], St 0),
    (240, [(45, 45, St 241), (48, 57, St 241), (65, 90, St 241), (97, 122, St 241)], St 0),
    (241, [(45, 45, St 241), (48, 57, St 241), (58, 58, St 242), (65, 90, St 241), (97, 122, St 241)], St 0),
    (242, [(0, 8, St 0), (9, 9, St 242), (10, 12, St 0), (13, 13, St 246), (14, 31, St 0), (32, 32, St 242), (127, 127, St 0)], St 243)]"

definition http_trs_21 :: "http_tr list" where
  "http_trs_21 = [
    (2, [A_method MOG_HTTP_METHOD_GET], 230),
    (3, [A_method MOG_HTTP_METHOD_HEAD], 232),
    (4, [A_method MOG_HTTP_METHOD_MKCOL], 235),
    (5, [A_method MOG_HTTP_METHOD_PUT], 239)]"

definition http_rows_22 :: "http_row list" where
  "http_rows_22 = [
    (243, [(0, 8, St 0), (9, 9, St 244), (10, 12, St 0), (13, 13, St 245), (14, 31, St 0), (127, 127, St 0)], St 243),
    (244, [(9, 9, St 244), (13, 13, St 245), (32, 32, St 244)], St 0),
    (245, [(10, 10, Tr 265)], St 0),
    (469, [], St 0),
    (246, [(10, 10, Tr 266)], St 0),
    (247, [(9, 9, St 248), (32, 32, St 248)], St 0),
    (248, [(0, 8, St 0), (9, 9, St 248), (10, 31, St 0), (32, 32, St 248), (127, 127, St 0)], St 243),
    (249, [(13, 13, St 250), (67, 67, St 251), (99, 99, St 251)], Tr 268),
    (250, [(10, 10, Tr 271)], St 0),
    (470, [], St 0),
    (251, [(79, 79, St 252), (111, 111, St 252)], Tr 268),
    (252, [(78, 78, St 253), (110, 110, St 253)], Tr 268),
    (253, [(84, 84, St 254), (116, 116, St 254)], Tr 268),
    (254, [(69, 69, St 255), (101, 101, St 255)], Tr 268)]"

definition http_trs_22 :: "http_tr list" where
  "http_trs_22 = [
    (265, [A_line_end, A_more_trailers], 469),
    (266, [A_line_end], 247),
    (271, [A_trailers_done], 470)]"

definition http_rows_23 :: "http_row list" where
  "http_rows_23 = [
    (255, [(78, 78, St 256), (110, 110, St 256)], Tr 268),
    (256, [(84, 84, St 257), (116, 116, St 257)], Tr 268),
    (257, [(45, 45, St 258)], Tr 268),
    (258, [(77, 77, St 259), (109, 109, St 259)], Tr 268),
    (259, [(68, 68, St 260), (100, 100, St 260)], Tr 268),
    (260, [(53, 53, St 261)], Tr 268),
    (261, [(58, 58, St 262)], Tr 268),
    (262, [(9, 9, St 262), (13, 13, St 263), (32, 32, St 262), (43, 43, Tr 285), (47, 57, Tr 285), (65, 90, Tr 285), (97, 122, Tr 285)], Tr 283),
    (263, [(10, 10, Tr 286)], Tr 268),
    (264, [(9, 9, St 265), (32, 32, St 265)], Tr 268),
    (265, [(9, 9, St 265), (32, 32, St 265), (43, 43, Tr 285), (47, 57, Tr 285), (65, 90, Tr 285), (97, 122, Tr 285)], Tr 283),
    (266, [(43, 43, St 267), (47, 57, St 267), (65, 90, St 267), (97, 122, St 267)], Tr 283)]"

definition http_trs_23 :: "http_tr list" where
  "http_trs_23 = [
    (286, [A_line_end], 264),
    (285, [A_tmp_tip], 266)]"

definition http_rows_24 :: "http_row list" where
  "http_rows_24 = [
    (267, [(43, 43, St 268), (47, 57, St 268), (65, 90, St 268), (97, 122, St 268)], Tr 283),
    (268, [(43, 43, St 269), (47, 57, St 269), (65, 90, St 269), (97, 122, St 269)], Tr 283),
    (269, [(43, 43, St 270), (47, 57, St 270), (65, 90, St 270), (97, 122, St 270)], Tr 283),
    (270, [(43, 43, St 271), (47, 57, St 271), (65, 90, St 271), (97, 122, St 271)], Tr 283),
    (271, [(43, 43, St 272), (47, 57, St 272), (65, 90, St 272), (97, 122, St 272)], Tr 283),
    (272, [(43, 43, St 273), (47, 57, St 273), (65, 90, St 273), (97, 122, St 273)], Tr 283),
    (273, [(43, 43, St 274), (47, 57, St 274), (65, 90, St 274), (97, 122, St 274)], Tr 283),
    (274, [(43, 43, St 275), (47, 57, St 275), (65, 90, St 275), (97, 122, St 275)], Tr 283),
    (275, [(43, 43, St 276), (47, 57, St 276), (65, 90, St 276), (97, 122, St 276)], Tr 283)]"

definition http_rows_25 :: "http_row list" where
  "http_rows_25 = [
    (276, [(43, 43, St 277), (47, 57, St 277), (65, 90, St 277), (97, 122, St 277)], Tr 283),
    (277, [(43, 43, St 278), (47, 57, St 278), (65, 90, St 278), (97, 122, St 278)], Tr 283),
    (278, [(43, 43, St 279), (47, 57, St 279), (65, 90, St 279), (97, 122, St 279)], Tr 283),
    (279, [(43, 43, St 280), (47, 57, St 280), (65, 90, St 280), (97, 122, St 280)], Tr 283),
    (280, [(43, 43, St 281), (47, 57, St 281), (65, 90, St 281), (97, 122, St 281)], Tr 283),
    (281, [(43, 43, St 282), (47, 57, St 282), (65, 90, St 282), (97, 122, St 282)], Tr 283),
    (282, [(43, 43, St 283), (47, 57, St 283), (65, 90, St 283), (97, 122, St 283)], Tr 283),
    (283, [(43, 43, St 284), (47, 57, St 284), (65, 90, St 284), (97, 122, St 284)], Tr 283),
    (284, [(43, 43, St 285), (47, 57, St 285), (65, 90, St 285), (97, 122, St 285)], Tr 283)]"

definition http_rows_26 :: "http_row list" where
  "http_rows_26 = [
    (285, [(43, 43, St 286), (47, 57, St 286), (65, 90, St 286), (97, 122, St 286)], Tr 283),
    (286, [(43, 43, St 287), (47, 57, St 287), (65, 90, St 287), (97, 122, St 287)], Tr 283),
    (287, [(61, 61, St 288)], Tr 283),
    (288, [(61, 61, St 289)], Tr 283),
    (289, [(9, 9, Tr 311), (13, 13, Tr 312), (32, 32, Tr 311)], Tr 283),
    (290, [(9, 9, St 290), (13, 13, St 291), (32, 32, St 290)], Tr 283),
    (291, [(10, 10, Tr 315)], Tr 283),
    (292, [(13, 13, St 250), (67, 67, St 251), (99, 99, St 251)], Tr 283),
    (293, [(45, 45, St 294), (48, 57, St 294), (65, 90, St 294), (97, 122, St 294)], St 0)]"

definition http_trs_26 :: "http_tr list" where
  "http_trs_26 = [
    (311, [A_md5], 290),
    (312, [A_md5], 291),
    (315, [A_line_end], 292)]"

definition http_rows_27 :: "http_row list" where
  "http_rows_27 = [
    (294, [(45, 45, St 294), (48, 57, St 294), (58, 58, St 295), (65, 90, St 294), (97, 122, St 294)], St 0),
    (295, [(0, 8, St 0), (9, 9, St 295), (10, 12, St 0), (13, 13, St 299), (14, 31, St 0), (32, 32, St 295), (127, 127, St 0)], St 296),
    (296, [(0, 8, St 0), (9, 9, St 297), (10, 12, St 0), (13, 13, St 298), (14, 31, St 0), (127, 127, St 0)], St 296),
    (297, [(9, 9, St 297), (13, 13, St 298), (32, 32, St 297)], St 0),
    (298, [(10, 10, Tr 322)], St 0),
    (471, [], St 0),
    (299, [(10, 10, Tr 323)], St 0),
    (300, [(9, 9, St 301), (32, 32, St 301)], St 0),
    (301, [(0, 8, St 0), (9, 9, St 301), (10, 31, St 0), (32, 32, St 301), (127, 127, St 0)], St 296),
    (302, [(13, 13, St 303), (67, 67, St 304), (82, 82, St 383), (84, 84, St 401), (99, 99, St 304), (114, 114, St 383), (116, 116, St 401)], Tr 27),
    (303, [(10, 10, Tr 329)], St 0),
    (472, [], St 0)]"

definition http_trs_27 :: "http_tr list" where
  "http_trs_27 = [
    (322, [A_line_end, A_more_headers], 471),
    (323, [A_line_end], 300),
    (352, [A_line_end], 302),
    (433, [A_line_end, A_has_range], 302),
    (329, [A_done], 472)]"

definition http_rows_28 :: "http_row list" where
  "http_rows_28 = [
    (304, [(79, 79, St 305), (111, 111, St 305)], Tr 27),
    (305, [(78, 78, St 306), (110, 110, St 306)], Tr 27),
    (306, [(78, 78, St 307), (84, 84, St 333), (110, 110, St 307), (116, 116, St 333)], Tr 27),
    (307, [(69, 69, St 308), (101, 101, St 308)], Tr 27),
    (308, [(67, 67, St 309), (99, 99, St 309)], Tr 27),
    (309, [(84, 84, St 310), (116, 116, St 310)], Tr 27),
    (310, [(73, 73, St 311), (105, 105, St 311)], Tr 27),
    (311, [(79, 79, St 312), (111, 111, St 312)], Tr 27),
    (312, [(78, 78, St 313), (110, 110, St 313)], Tr 27),
    (313, [(58, 58, St 314)], Tr 27),
    (314, [(9, 9, St 314), (13, 13, St 315), (32, 32, St 314), (67, 67, St 318), (75, 75, St 324), (99, 99, St 318), (107, 107, St 324)], Tr 27),
    (315, [(10, 10, Tr 344)], Tr 27),
    (316, [(9, 9, St 317), (32, 32, St 317)], Tr 27),
    (317, [(9, 9, St 317), (32, 32, St 317), (67, 67, St 318), (75, 75, St 324), (99, 99, St 318), (107, 107, St 324)], Tr 27),
    (318, [(76, 76, St 319), (108, 108, St 319)], Tr 27)]"

definition http_trs_28 :: "http_tr list" where
  "http_trs_28 = [
    (344, [A_line_end], 316)]"

definition http_rows_29 :: "http_row list" where
  "http_rows_29 = [
    (319, [(79, 79, St 320), (111, 111, St 320)], Tr 27),
    (320, [(83, 83, St 321), (115, 115, St 321)], Tr 27),
    (321, [(69, 69, Tr 349), (101, 101, Tr 349)], Tr 27),
    (322, [(9, 9, St 322), (13, 13, St 323), (32, 32, St 322)], Tr 27),
    (323, [(10, 10, Tr 352)], Tr 27),
    (324, [(69, 69, St 325), (101, 101, St 325)], Tr 27),
    (325, [(69, 69, St 326), (101, 101, St 326)], Tr 27),
    (326, [(80, 80, St 327), (112, 112, St 327)], Tr 27),
    (327, [(45, 45, St 328)], Tr 27),
    (328, [(65, 65, St 329), (97, 97, St 329)], Tr 27),
    (329, [(76, 76, St 330), (108, 108, St 330)], Tr 27),
    (330, [(73, 73, St 331), (105, 105, St 331)], Tr 27),
    (331, [(86, 86, St 332), (118, 118, St 332)], Tr 27)]"

definition http_trs_29 :: "http_tr list" where
  "http_trs_29 = [
    (349, [A_persistent False], 322),
    (361, [A_persistent True], 322),
    (481, [A_chunked], 322),
    (502, [A_has_content_range], 322),
    (482, [A_chunked], 323),
    (503, [A_has_content_range], 323)]"

definition http_rows_30 :: "http_row list" where
  "http_rows_30 = [
    (332, [(69, 69, Tr 361), (101, 101, Tr 361)], Tr 27),
    (333, [(69, 69, St 334), (101, 101, St 334)], Tr 27),
    (334, [(78, 78, St 335), (110, 110, St 335)], Tr 27),
    (335, [(84, 84, St 336), (116, 116, St 336)], Tr 27),
    (336, [(45, 45, St 337)], Tr 27),
    (337, [(76, 76, St 338), (77, 77, St 349), (82, 82, St 448), (108, 108, St 338), (109, 109, St 349), (114, 114, St 448)], Tr 27),
    (338, [(69, 69, St 339), (101, 101, St 339)], Tr 27),
    (339, [(78, 78, St 340), (110, 110, St 340)], Tr 27),
    (340, [(71, 71, St 341), (103, 103, St 341)], Tr 27),
    (341, [(84, 84, St 342), (116, 116, St 342)], Tr 27),
    (342, [(72, 72, St 343), (104, 104, St 343)], Tr 27),
    (343, [(58, 58, St 344)], Tr 27),
    (344, [(9, 9, St 344), (13, 13, St 345), (32, 32, St 344), (48, 57, Tr 376)], Tr 77),
    (345, [(10, 10, Tr 377)], Tr 27),
    (346, [(9, 9, St 347), (32, 32, St 347)], Tr 27)]"

definition http_trs_30 :: "http_tr list" where
  "http_trs_30 = [
    (377, [A_line_end], 346)]"

definition http_rows_31 :: "http_row list" where
  "http_rows_31 = [
    (347, [(9, 9, St 347), (32, 32, St 347), (48, 57, Tr 376)], Tr 77),
    (348, [(9, 9, St 322), (13, 13, St 323), (32, 32, St 322), (48, 57, Tr 376)], Tr 77),
    (349, [(68, 68, St 350), (100, 100, St 350)], Tr 27),
    (350, [(53, 53, St 351)], Tr 27),
    (351, [(58, 58, St 352)], Tr 27),
    (352, [(9, 9, St 352), (13, 13, St 353), (32, 32, St 352), (43, 43, Tr 383), (47, 57, Tr 383), (65, 90, Tr 383), (97, 122, Tr 383)], Tr 85),
    (353, [(10, 10, Tr 384)], Tr 27),
    (354, [(9, 9, St 355), (32, 32, St 355)], Tr 27),
    (355, [(9, 9, St 355), (32, 32, St 355), (43, 43, Tr 383), (47, 57, Tr 383), (65, 90, Tr 383), (97, 122, Tr 383)], Tr 85),
    (356, [(43, 43, St 357), (47, 57, St 357), (65, 90, St 357), (97, 122, St 357)], Tr 85),
    (357, [(43, 43, St 358), (47, 57, St 358), (65, 90, St 358), (97, 122, St 358)], Tr 85)]"

definition http_trs_31 :: "http_tr list" where
  "http_trs_31 = [
    (376, [A_content_len], 348),
    (384, [A_line_end], 354),
    (383, [A_tmp_tip], 356)]"

definition http_rows_32 :: "http_row list" where
  "http_rows_32 = [
    (358, [(43, 43, St 359), (47, 57, St 359), (65, 90, St 359), (97, 122, St 359)], Tr 85),
    (359, [(43, 43, St 360), (47, 57, St 360), (65, 90, St 360), (97, 122, St 360)], Tr 85),
    (360, [(43, 43, St 361), (47, 57, St 361), (65, 90, St 361), (97, 122, St 361)], Tr 85),
    (361, [(43, 43, St 362), (47, 57, St 362), (65, 90, St 362), (97, 122, St 362)], Tr 85),
    (362, [(43, 43, St 363), (47, 57, St 363), (65, 90, St 363), (97, 122, St 363)], Tr 85),
    (363, [(43, 43, St 364), (47, 57, St 364), (65, 90, St 364), (97, 122, St 364)], Tr 85),
    (364, [(43, 43, St 365), (47, 57, St 365), (65, 90, St 365), (97, 122, St 365)], Tr 85),
    (365, [(43, 43, St 366), (47, 57, St 366), (65, 90, St 366), (97, 122, St 366)], Tr 85),
    (366, [(43, 43, St 367), (47, 57, St 367), (65, 90, St 367), (97, 122, St 367)], Tr 85)]"

definition http_rows_33 :: "http_row list" where
  "http_rows_33 = [
    (367, [(43, 43, St 368), (47, 57, St 368), (65, 90, St 368), (97, 122, St 368)], Tr 85),
    (368, [(43, 43, St 369), (47, 57, St 369), (65, 90, St 369), (97, 122, St 369)], Tr 85),
    (369, [(43, 43, St 370), (47, 57, St 370), (65, 90, St 370), (97, 122, St 370)], Tr 85),
    (370, [(43, 43, St 371), (47, 57, St 371), (65, 90, St 371), (97, 122, St 371)], Tr 85),
    (371, [(43, 43, St 372), (47, 57, St 372), (65, 90, St 372), (97, 122, St 372)], Tr 85),
    (372, [(43, 43, St 373), (47, 57, St 373), (65, 90, St 373), (97, 122, St 373)], Tr 85),
    (373, [(43, 43, St 374), (47, 57, St 374), (65, 90, St 374), (97, 122, St 374)], Tr 85),
    (374, [(43, 43, St 375), (47, 57, St 375), (65, 90, St 375), (97, 122, St 375)], Tr 85),
    (375, [(43, 43, St 376), (47, 57, St 376), (65, 90, St 376), (97, 122, St 376)], Tr 85)]"

definition http_rows_34 :: "http_row list" where
  "http_rows_34 = [
    (376, [(43, 43, St 377), (47, 57, St 377), (65, 90, St 377), (97, 122, St 377)], Tr 85),
    (377, [(61, 61, St 378)], Tr 85),
    (378, [(61, 61, St 379)], Tr 85),
    (379, [(9, 9, Tr 409), (13, 13, Tr 410), (32, 32, Tr 409)], Tr 85),
    (380, [(9, 9, St 380), (13, 13, St 381), (32, 32, St 380)], Tr 85),
    (381, [(10, 10, Tr 413)], Tr 85),
    (382, [(13, 13, St 303), (67, 67, St 304), (82, 82, St 383), (84, 84, St 401), (99, 99, St 304), (114, 114, St 383), (116, 116, St 401)], Tr 85),
    (383, [(65, 65, St 384), (97, 97, St 384)], Tr 27),
    (384, [(78, 78, St 385), (110, 110, St 385)], Tr 27),
    (385, [(71, 71, St 386), (103, 103, St 386)], Tr 27),
    (386, [(69, 69, St 387), (101, 101, St 387)], Tr 27)]"

definition http_trs_34 :: "http_tr list" where
  "http_trs_34 = [
    (409, [A_md5], 380),
    (410, [A_md5], 381),
    (413, [A_line_end], 382)]"

definition http_rows_35 :: "http_row list" where
  "http_rows_35 = [
    (387, [(58, 58, St 388)], Tr 27),
    (388, [(9, 9, St 388), (13, 13, St 389), (32, 32, St 388), (98, 98, Tr 420)], Tr 123),
    (389, [(10, 10, Tr 421)], Tr 27),
    (390, [(9, 9, St 391), (32, 32, St 391)], Tr 27),
    (391, [(9, 9, St 391), (32, 32, St 391), (98, 98, Tr 420)], Tr 123),
    (392, [(121, 121, St 393)], Tr 123),
    (393, [(116, 116, St 394)], Tr 123),
    (394, [(101, 101, St 395)], Tr 123),
    (395, [(115, 115, St 396)], Tr 123),
    (396, [(61, 61, St 397)], Tr 123),
    (397, [(45, 45, St 398), (48, 57, Tr 429)], Tr 123),
    (398, [(9, 9, St 399), (13, 13, St 400), (32, 32, St 399), (48, 57, Tr 432)], Tr 123),
    (399, [(9, 9, St 399), (13, 13, St 400), (32, 32, St 399)], Tr 27)]"

definition http_trs_35 :: "http_tr list" where
  "http_trs_35 = [
    (421, [A_line_end], 390),
    (420, [A_range_init], 392),
    (429, [A_range_beg True], 397),
    (432, [A_range_end True], 398)]"

definition http_rows_36 :: "http_row list" where
  "http_rows_36 = [
    (400, [(10, 10, Tr 433)], Tr 27),
    (401, [(82, 82, St 402), (114, 114, St 402)], Tr 27),
    (402, [(65, 65, St 403), (97, 97, St 403)], Tr 27),
    (403, [(73, 73, St 404), (78, 78, St 423), (105, 105, St 404), (110, 110, St 423)], Tr 27),
    (404, [(76, 76, St 405), (108, 108, St 405)], Tr 27),
    (405, [(69, 69, St 406), (101, 101, St 406)], Tr 27),
    (406, [(82, 82, St 407), (114, 114, St 407)], Tr 27),
    (407, [(58, 58, St 408)], Tr 27),
    (408, [(9, 9, St 408), (13, 13, St 409), (32, 32, St 408), (44, 44, St 322), (45, 45, St 412), (48, 57, St 412), (65, 66, St 412), (67, 67, St 413), (68, 90, St 412), (97, 98, St 412), (99, 99, St 413), (100, 122, St 412)], Tr 27),
    (409, [(10, 10, Tr 445)], Tr 27),
    (410, [(9, 9, St 411), (32, 32, St 411)], Tr 27),
    (411, [(9, 9, St 411), (32, 32, St 411), (44, 44, St 322), (45, 45, St 412), (48, 57, St 412), (65, 66, St 412), (67, 67, St 413), (68, 90, St 412), (97, 98, St 412), (99, 99, St 413), (100, 122, St 412)], Tr 27)]"

definition http_trs_36 :: "http_tr list" where
  "http_trs_36 = [
    (445, [A_line_end], 410),
    (456, [A_trailer_md5], 412)]"

definition http_rows_37 :: "http_row list" where
  "http_rows_37 = [
    (412, [(9, 9, St 322), (13, 13, St 323), (32, 32, St 322), (45, 45, St 412), (48, 57, St 412), (65, 90, St 412), (97, 122, St 412)], Tr 27),
    (413, [(9, 9, St 322), (13, 13, St 323), (32, 32, St 322), (45, 45, St 412), (48, 57, St 412), (65, 78, St 412), (79, 79, St 414), (80, 90, St 412), (97, 110, St 412), (111, 111, St 414), (112, 122, St 412)], Tr 27),
    (414, [(9, 9, St 322), (13, 13, St 323), (32, 32, St 322), (45, 45, St 412), (48, 57, St 412), (65, 77, St 412), (78, 78, St 415), (79, 90, St 412), (97, 109, St 412), (110, 110, St 415), (111, 122, St 412)], Tr 27),
    (415, [(9, 9, St 322), (13, 13, St 323), (32, 32, St 322), (45, 45, St 412), (48, 57, St 412), (65, 83, St 412), (84, 84, St 416), (85, 90, St 412), (97, 115, St 412), (116, 116, St 416), (117, 122, St 412)], Tr 27),
    (416, [(9, 9, St 322), (13, 13, St 323), (32, 32, St 322), (45, 45, St 412), (48, 57, St 412), (65, 68, St 412), (69, 69, St 417), (70, 90, St 412), (97, 100, St 412), (101, 101, St 417), (102, 122, St 412)], Tr 27),
    (417, [(9, 9, St 322), (13, 13, St 323), (32, 32, St 322), (45, 45, St 412), (48, 57, St 412), (65, 77, St 412), (78, 78, St 418), (79, 90, St 412), (97, 109, St 412), (110, 110, St 418), (111, 122, St 412)], Tr 27),
    (418, [(9, 9, St 322), (13, 13, St 323), (32, 32, St 322), (45, 45, St 412), (48, 57, St 412), (65, 83, St 412), (84, 84, St 419), (85, 90, St 412), (97, 115, St 412), (116, 116, St 419), (117, 122, St 412)], Tr 27)]"

definition http_rows_38 :: "http_row list" where
  "http_rows_38 = [
    (419, [(9, 9, St 322), (13, 13, St 323), (32, 32, St 322), (45, 45, St 420), (48, 57, St 412), (65, 90, St 412), (97, 122, St 412)], Tr 27),
    (420, [(9, 9, St 322), (13, 13, St 323), (32, 32, St 322), (45, 45, St 412), (48, 57, St 412), (65, 76, St 412), (77, 77, St 421), (78, 90, St 412), (97, 108, St 412), (109, 109, St 421), (110, 122, St 412)], Tr 27),
    (421, [(9, 9, St 322), (13, 13, St 323), (32, 32, St 322), (45, 45, St 412), (48, 57, St 412), (65, 67, St 412), (68, 68, St 422), (69, 90, St 412), (97, 99, St 412), (100, 100, St 422), (101, 122, St 412)], Tr 27),
    (422, [(9, 9, St 322), (13, 13, St 323), (32, 32, St 322), (45, 45, St 412), (48, 52, St 412), (53, 53, Tr 456), (54, 57, St 412), (65, 90, St 412), (97, 122, St 412)], Tr 27),
    (423, [(83, 83, St 424), (115, 115, St 424)], Tr 27),
    (424, [(70, 70, St 425), (102, 102, St 425)], Tr 27),
    (425, [(69, 69, St 426), (101, 101, St 426)], Tr 27),
    (426, [(82, 82, St 427), (114, 114, St 427)], Tr 27),
    (427, [(45, 45, St 428)], Tr 27),
    (428, [(69, 69, St 429), (101, 101, St 429)], Tr 27),
    (429, [(78, 78, St 430), (110, 110, St 430)], Tr 27)]"

definition http_rows_39 :: "http_row list" where
  "http_rows_39 = [
    (430, [(67, 67, St 431), (99, 99, St 431)], Tr 27),
    (431, [(79, 79, St 432), (111, 111, St 432)], Tr 27),
    (432, [(68, 68, St 433), (100, 100, St 433)], Tr 27),
    (433, [(73, 73, St 434), (105, 105, St 434)], Tr 27),
    (434, [(78, 78, St 435), (110, 110, St 435)], Tr 27),
    (435, [(71, 71, St 436), (103, 103, St 436)], Tr 27),
    (436, [(58, 58, St 437)], Tr 27),
    (437, [(9, 9, St 437), (13, 13, St 438), (32, 32, St 437), (67, 67, St 441), (99, 99, St 441)], Tr 27),
    (438, [(10, 10, Tr 473)], Tr 27),
    (439, [(9, 9, St 440), (32, 32, St 440)], Tr 27),
    (440, [(9, 9, St 440), (32, 32, St 440), (67, 67, St 441), (99, 99, St 441)], Tr 27),
    (441, [(72, 72, St 442), (104, 104, St 442)], Tr 27),
    (442, [(85, 85, St 443), (117, 117, St 443)], Tr 27),
    (443, [(78, 78, St 444), (110, 110, St 444)], Tr 27),
    (444, [(75, 75, St 445), (107, 107, St 445)], Tr 27)]"

definition http_trs_39 :: "http_tr list" where
  "http_trs_39 = [
    (473, [A_line_end], 439)]"

definition http_rows_40 :: "http_row list" where
  "http_rows_40 = [
    (445, [(69, 69, St 446), (101, 101, St 446)], Tr 27),
    (446, [(68, 68, St 447), (100, 100, St 447)], Tr 27),
    (447, [(9, 9, Tr 481), (13, 13, Tr 482), (32, 32, Tr 481)], Tr 27),
    (448, [(65, 65, St 449), (97, 97, St 449)], Tr 27),
    (449, [(78, 78, St 450), (110, 110, St 450)], Tr 27),
    (450, [(71, 71, St 451), (103, 103, St 451)], Tr 27),
    (451, [(69, 69, St 452), (101, 101, St 452)], Tr 27),
    (452, [(58, 58, St 453)], Tr 27),
    (453, [(9, 9, St 453), (13, 13, St 454), (32, 32, St 453), (98, 98, St 457)], Tr 27),
    (454, [(10, 10, Tr 490)], Tr 27),
    (455, [(9, 9, St 456), (32, 32, St 456)], Tr 27),
    (456, [(9, 9, St 456), (32, 32, St 456), (98, 98, St 457)], Tr 27),
    (457, [(121, 121, St 458)], Tr 27),
    (458, [(116, 116, St 459)], Tr 27),
    (459, [(101, 101, St 460)], Tr 27),
    (460, [(115, 115, St 461)], Tr 27)]"

definition http_trs_40 :: "http_tr list" where
  "http_trs_40 = [
    (490, [A_line_end], 455)]"

definition http_rows_41 :: "http_row list" where
  "http_rows_41 = [
    (461, [(9, 9, St 462), (32, 32, St 462)], Tr 27),
    (462, [(9, 9, St 462), (32, 32, St 462), (48, 57, Tr 497)], Tr 202),
    (463, [(45, 45, St 464), (48, 57, Tr 497)], Tr 202),
    (464, [(48, 57, Tr 499)], Tr 205),
    (465, [(47, 47, St 466), (48, 57, Tr 499)], Tr 205),
    (466, [(42, 42, St 467)], Tr 27)]"

definition http_trs_41 :: "http_tr list" where
  "http_trs_41 = [
    (497, [A_range_beg False], 463),
    (499, [A_range_end False], 465)]"

definition http_rows_42 :: "http_row list" where
  "http_rows_42 = [
    (467, [(9, 9, Tr 502), (13, 13, Tr 503), (32, 32, Tr 502)], Tr 27)]"

definition http_rows :: "http_row list" where
  "http_rows = http_rows_1 @ http_rows_2 @ http_rows_3 @ http_rows_4 @ http_rows_5 @ http_rows_6 @
     http_rows_7 @ http_rows_8 @ http_rows_9 @ http_rows_10 @ http_rows_11 @ http_rows_12 @
     http_rows_13 @ http_rows_14 @ http_rows_15 @ http_rows_16 @ http_rows_17 @ http_rows_18 @
     http_rows_19 @ http_rows_20 @ http_rows_21 @ http_rows_22 @ http_rows_23 @ http_rows_24 @
     http_rows_25 @ http_rows_26 @ http_rows_27 @ http_rows_28 @ http_rows_29 @ http_rows_30 @
     http_rows_31 @ http_rows_32 @ http_rows_33 @ http_rows_34 @ http_rows_35 @ http_rows_36 @
     http_rows_37 @ http_rows_38 @ http_rows_39 @ http_rows_40 @ http_rows_41 @ http_rows_42"

definition http_trs :: "http_tr list" where
  "http_trs = http_trs_1 @ http_trs_2 @ http_trs_3 @ http_trs_4 @ http_trs_6 @ http_trs_7 @
     http_trs_9 @ http_trs_10 @ http_trs_11 @ http_trs_12 @ http_trs_14 @ http_trs_15 @
     http_trs_16 @ http_trs_21 @ http_trs_22 @ http_trs_23 @ http_trs_26 @ http_trs_27 @
     http_trs_28 @ http_trs_29 @ http_trs_30 @ http_trs_31 @ http_trs_34 @ http_trs_35 @
     http_trs_36 @ http_trs_39 @ http_trs_40 @ http_trs_41"

lemmas http_rows_defs = http_rows_def http_rows_1_def http_rows_2_def http_rows_3_def http_rows_4_def http_rows_5_def http_rows_6_def http_rows_7_def http_rows_8_def http_rows_9_def http_rows_10_def http_rows_11_def http_rows_12_def http_rows_13_def http_rows_14_def http_rows_15_def http_rows_16_def http_rows_17_def http_rows_18_def http_rows_19_def http_rows_20_def http_rows_21_def http_rows_22_def http_rows_23_def http_rows_24_def http_rows_25_def http_rows_26_def http_rows_27_def http_rows_28_def http_rows_29_def http_rows_30_def http_rows_31_def http_rows_32_def http_rows_33_def http_rows_34_def http_rows_35_def http_rows_36_def http_rows_37_def http_rows_38_def http_rows_39_def http_rows_40_def http_rows_41_def http_rows_42_def

lemmas http_trs_defs = http_trs_def http_trs_1_def http_trs_2_def http_trs_3_def http_trs_4_def http_trs_6_def http_trs_7_def http_trs_9_def http_trs_10_def http_trs_11_def http_trs_12_def http_trs_14_def http_trs_15_def http_trs_16_def http_trs_21_def http_trs_22_def http_trs_23_def http_trs_26_def http_trs_27_def http_trs_28_def http_trs_29_def http_trs_30_def http_trs_31_def http_trs_34_def http_trs_35_def http_trs_36_def http_trs_39_def http_trs_40_def http_trs_41_def

text \<open>Looking up the labels.\<close>

lemma http_tr_simps:
  shows "map_of http_trs 27 = Some ([A_ignore_header], 0)"
    "map_of http_trs 77 = Some ([A_einval, A_ignore_header], 0)"
    "map_of http_trs 85 = Some ([A_md5_check, A_ignore_header], 0)"
    "map_of http_trs 123 = Some ([A_einval, A_ignore_header], 0)"
    "map_of http_trs 202 = Some ([A_einval, A_ignore_header], 0)"
    "map_of http_trs 205 = Some ([A_einval, A_ignore_header], 0)"
    "map_of http_trs 268 = Some ([A_ignore_trailer], 0)"
    "map_of http_trs 283 = Some ([A_md5_check, A_ignore_trailer], 0)"
    "map_of http_trs 0 = Some ([A_method MOG_HTTP_METHOD_DELETE], 2)"
    "map_of http_trs 12 = Some ([A_path_tip], 9)"
    "map_of http_trs 14 = Some ([A_path_end], 10)"
    "map_of http_trs 24 = Some ([A_persistent True], 18)"
    "map_of http_trs 26 = Some ([A_line_end], 20)"
    "map_of http_trs 138 = Some ([A_line_end, A_has_range], 20)"
    "map_of http_trs 32 = Some ([A_done], 468)"
    "map_of http_trs 47 = Some ([A_line_end], 34)"
    "map_of http_trs 52 = Some ([A_persistent False], 40)"
    "map_of http_trs 63 = Some ([A_persistent True], 40)"
    "map_of http_trs 186 = Some ([A_chunked], 40)"
    "map_of http_trs 209 = Some ([A_has_content_range], 40)"
    "map_of http_trs 187 = Some ([A_chunked], 41)"
    "map_of http_trs 210 = Some ([A_has_content_range], 41)"
    "map_of http_trs 80 = Some ([A_line_end], 64)"
    "map_of http_trs 79 = Some ([A_content_len], 66)"
    "map_of http_trs 88 = Some ([A_line_end], 72)"
    "map_of http_trs 87 = Some ([A_tmp_tip], 74)"
    "map_of http_trs 113 = Some ([A_md5], 98)"
    "map_of http_trs 114 = Some ([A_md5], 99)"
    "map_of http_trs 117 = Some ([A_line_end], 100)"
    "map_of http_trs 126 = Some ([A_line_end], 108)"
    "map_of http_trs 125 = Some ([A_range_init], 110)"
    "map_of http_trs 134 = Some ([A_range_beg True], 115)"
    "map_of http_trs 137 = Some ([A_range_end True], 116)"
    "map_of http_trs 150 = Some ([A_line_end], 128)"
    "map_of http_trs 161 = Some ([A_trailer_md5], 130)"
    "map_of http_trs 178 = Some ([A_line_end], 157)"
    "map_of http_trs 195 = Some ([A_line_end], 173)"
    "map_of http_trs 203 = Some ([A_range_beg False], 181)"
    "map_of http_trs 206 = Some ([A_range_end False], 183)"
    "map_of http_trs 2 = Some ([A_method MOG_HTTP_METHOD_GET], 230)"
    "map_of http_trs 3 = Some ([A_method MOG_HTTP_METHOD_HEAD], 232)"
    "map_of http_trs 4 = Some ([A_method MOG_HTTP_METHOD_MKCOL], 235)"
    "map_of http_trs 5 = Some ([A_method MOG_HTTP_METHOD_PUT], 239)"
    "map_of http_trs 265 = Some ([A_line_end, A_more_trailers], 469)"
    "map_of http_trs 266 = Some ([A_line_end], 247)"
    "map_of http_trs 271 = Some ([A_trailers_done], 470)"
    "map_of http_trs 286 = Some ([A_line_end], 264)"
    "map_of http_trs 285 = Some ([A_tmp_tip], 266)"
    "map_of http_trs 311 = Some ([A_md5], 290)"
    "map_of http_trs 312 = Some ([A_md5], 291)"
    "map_of http_trs 315 = Some ([A_line_end], 292)"
    "map_of http_trs 322 = Some ([A_line_end, A_more_headers], 471)"
    "map_of http_trs 323 = Some ([A_line_end], 300)"
    "map_of http_trs 352 = Some ([A_line_end], 302)"
    "map_of http_trs 433 = Some ([A_line_end, A_has_range], 302)"
    "map_of http_trs 329 = Some ([A_done], 472)"
    "map_of http_trs 344 = Some ([A_line_end], 316)"
    "map_of http_trs 349 = Some ([A_persistent False], 322)"
    "map_of http_trs 361 = Some ([A_persistent True], 322)"
    "map_of http_trs 481 = Some ([A_chunked], 322)"
    "map_of http_trs 502 = Some ([A_has_content_range], 322)"
    "map_of http_trs 482 = Some ([A_chunked], 323)"
    "map_of http_trs 503 = Some ([A_has_content_range], 323)"
    "map_of http_trs 377 = Some ([A_line_end], 346)"
    "map_of http_trs 376 = Some ([A_content_len], 348)"
    "map_of http_trs 384 = Some ([A_line_end], 354)"
    "map_of http_trs 383 = Some ([A_tmp_tip], 356)"
    "map_of http_trs 409 = Some ([A_md5], 380)"
    "map_of http_trs 410 = Some ([A_md5], 381)"
    "map_of http_trs 413 = Some ([A_line_end], 382)"
    "map_of http_trs 421 = Some ([A_line_end], 390)"
    "map_of http_trs 420 = Some ([A_range_init], 392)"
    "map_of http_trs 429 = Some ([A_range_beg True], 397)"
    "map_of http_trs 432 = Some ([A_range_end True], 398)"
    "map_of http_trs 445 = Some ([A_line_end], 410)"
    "map_of http_trs 456 = Some ([A_trailer_md5], 412)"
    "map_of http_trs 473 = Some ([A_line_end], 439)"
    "map_of http_trs 490 = Some ([A_line_end], 455)"
    "map_of http_trs 497 = Some ([A_range_beg False], 463)"
    "map_of http_trs 499 = Some ([A_range_end False], 465)"
  by (simp_all add: http_trs_defs)

end
