(* ===== verification/Mog_Http_Parser.thy ===== *)
theory Mog_Http_Parser
  imports Mog_Http_Table
begin

text \<open>
  Running the automaton of \<^verbatim>\<open>http_parser.c\<close> over a buffer. It shares its variables and control flow
  with the chunk parser: a label \<^verbatim>\<open>stN\<close> advances \<open>p\<close> and stops at the end of the buffer, and
  an action can leave at once.
\<close>

section \<open>Model\<close>

definition to_u8 :: "int \<Rightarrow> nat outcome" where
  "to_u8 n = assert_then (n \<le> 255) (Ret (nat n))"

fun row_lookup :: "(int \<times> int \<times> http_lab) list \<Rightarrow> http_lab \<Rightarrow> int \<Rightarrow> http_lab" where
  "row_lookup [] d c = d"
| "row_lookup ((lo, hi, l) # rs) d c = (if lo \<le> c \<and> c \<le> hi then l else row_lookup rs d c)"

text \<open>An action falls through to the next one or jumps.\<close>

datatype act_res = Next chunk_vars | Jump chunk_ctl

definition upd_http :: "(mog_http \<Rightarrow> mog_http) \<Rightarrow> chunk_vars \<Rightarrow> act_res outcome" where
  "upd_http g v = Ret (Next (v\<lparr>cp_http := g (cp_http v)\<rparr>))"

text \<open>\<^verbatim>\<open>length_incr\<close> on one of the length fields; \<open>n\<close> is the state a refused digit leaves in.\<close>

definition incr_field :: "nat \<Rightarrow> char \<Rightarrow> int \<Rightarrow> (int \<Rightarrow> mog_http \<Rightarrow> mog_http) \<Rightarrow> chunk_vars \<Rightarrow> act_res outcome" where
  "incr_field n c len put v =
     (case length_incr len c of
        (True, len1) \<Rightarrow> upd_http (put len1) v
      | (False, len1) \<Rightarrow>
          obind (fbreak n (v\<lparr>cp_http := put len1 (cp_http v), cp_w := set_errno ERANGE (cp_w v)\<rparr>))
            (\<lambda>k. Ret (Jump k)))"

text \<open>Going back to the start of the current line, to skip it.\<close>

definition ignore_header :: "bytes \<Rightarrow> chunk_vars \<Rightarrow> chunk_ctl outcome" where
  "ignore_header buf v =
     (let le = h_line_end (cp_http v) in
      assert_then (le > 0) (assert_then (buf ! le = CHR 0x0A)
        (assert_then (int le + 1 \<le> int (length buf)) (go 293 (v\<lparr>cp_p := int le + 1\<rparr>)))))"

definition ignore_trailer :: "bytes \<Rightarrow> chunk_vars \<Rightarrow> chunk_ctl outcome" where
  "ignore_trailer buf v =
     (let le = h_line_end (cp_http v) in
      obind (if le > 0 then assert_then (buf ! le = CHR 0x0A) (Ret (v\<lparr>cp_p := int le + 1\<rparr>))
             else Ret (v\<lparr>cp_p := 0\<rparr>)) (\<lambda>v1.
        assert_then (cp_p v1 \<le> int (length buf)) (go 240 v1)))"

primrec do_act :: "http_act \<Rightarrow> bytes \<Rightarrow> char \<Rightarrow> nat \<Rightarrow> chunk_vars \<Rightarrow> act_res outcome" where
  "do_act A_ignore_header buf c n v = obind (ignore_header buf v) (\<lambda>k. Ret (Jump k))"
| "do_act A_ignore_trailer buf c n v = obind (ignore_trailer buf v) (\<lambda>k. Ret (Jump k))"
| "do_act A_more_headers buf c n v = obind (go 302 v) (\<lambda>k. Ret (Jump k))"
| "do_act A_more_trailers buf c n v = obind (go 249 v) (\<lambda>k. Ret (Jump k))"
| "do_act A_einval buf c n v = obind (fbreak n (v\<lparr>cp_w := set_errno EINVAL (cp_w v)\<rparr>)) (\<lambda>k. Ret (Jump k))"
| "do_act A_md5_check buf c n v =
     (if \<not> h_has_expect_md5 (cp_http v)
      then obind (fbreak n (v\<lparr>cp_w := set_errno EINVAL (cp_w v)\<rparr>)) (\<lambda>k. Ret (Jump k))
      else Ret (Next v))"
| "do_act (A_method m) buf c n v = upd_http (\<lambda>h. h\<lparr>h_http_method := m\<rparr>) v"
| "do_act A_path_tip buf c n v = obind (to_u8 (cp_p v)) (\<lambda>k. upd_http (\<lambda>h. h\<lparr>h_path_tip := k\<rparr>) v)"
| "do_act A_path_end buf c n v = obind (to_u8 (cp_p v)) (\<lambda>k. upd_http (\<lambda>h. h\<lparr>h_path_end := k\<rparr>) v)"
| "do_act (A_persistent b) buf c n v = upd_http (\<lambda>h. h\<lparr>h_persistent := b\<rparr>) v"
| "do_act A_line_end buf c n v = obind (set_line_end v) (\<lambda>v1. Ret (Next v1))"
| "do_act A_has_range buf c n v = upd_http (\<lambda>h. h\<lparr>h_has_range := True\<rparr>) v"
| "do_act A_done buf c n v = obind (fbreak n (v\<lparr>cp_done := True\<rparr>)) (\<lambda>k. Ret (Jump k))"
| "do_act A_trailers_done buf c n v =
     obind (set_line_end (v\<lparr>cp_http := (cp_http v)\<lparr>h_chunk_state := MOG_CHUNK_STATE_DONE\<rparr>\<rparr>)) (\<lambda>v1.
       obind (fbreak n (v1\<lparr>cp_done := True\<rparr>)) (\<lambda>k. Ret (Jump k)))"
| "do_act A_chunked buf c n v = upd_http (\<lambda>h. h\<lparr>h_chunked := True\<rparr>) v"
| "do_act A_has_content_range buf c n v = upd_http (\<lambda>h. h\<lparr>h_has_content_range := True\<rparr>) v"
| "do_act A_content_len buf c n v =
     incr_field n c (h_content_len (cp_http v)) (\<lambda>l h. h\<lparr>h_content_len := l\<rparr>) v"
| "do_act A_tmp_tip buf c n v = obind (to_u16 (cp_p v)) (\<lambda>k. upd_http (\<lambda>h. h\<lparr>h_tmp_tip := k\<rparr>) v)"
| "do_act A_md5 buf c n v = obind (md5_decode buf v) (\<lambda>v1. Ret (Next v1))"
| "do_act A_range_init buf c n v = upd_http (\<lambda>h. h\<lparr>h_range_beg := -1, h_range_end := -1\<rparr>) v"
| "do_act (A_range_beg opt) buf c n v =
     incr_field n c (if opt \<and> h_range_beg (cp_http v) < 0 then 0 else h_range_beg (cp_http v)) (\<lambda>l h. h\<lparr>h_range_beg := l\<rparr>) v"
| "do_act (A_range_end opt) buf c n v =
     incr_field n c (if opt \<and> h_range_end (cp_http v) < 0 then 0 else h_range_end (cp_http v)) (\<lambda>l h. h\<lparr>h_range_end := l\<rparr>) v"
| "do_act A_trailer_md5 buf c n v = upd_http (\<lambda>h. h\<lparr>h_has_trailer_md5 := True\<rparr>) v"

definition goto_st :: "nat \<Rightarrow> chunk_vars \<Rightarrow> chunk_ctl outcome" where
  "goto_st n v = (if n = 0 then st0 v else go n v)"

primrec run_acts :: "http_act list \<Rightarrow> bytes \<Rightarrow> char \<Rightarrow> nat \<Rightarrow> chunk_vars \<Rightarrow> chunk_ctl outcome" where
  "run_acts [] buf c n v = goto_st n v"
| "run_acts (a # as) buf c n v =
     obind (do_act a buf c n v) (\<lambda>r. case r of Next v1 \<Rightarrow> run_acts as buf c n v1 | Jump k \<Rightarrow> Ret k)"

definition goto_lab :: "http_lab \<Rightarrow> bytes \<Rightarrow> char \<Rightarrow> chunk_vars \<Rightarrow> chunk_ctl outcome" where
  "goto_lab l buf c v =
     (case l of
        St n \<Rightarrow> goto_st n v
      | Tr m \<Rightarrow> (case map_of http_trs m of None \<Rightarrow> Abort | Some (as, n) \<Rightarrow> run_acts as buf c n v))"

definition http_trans :: "bytes \<Rightarrow> chunk_vars \<Rightarrow> chunk_ctl outcome" where
  "http_trans buf v =
     (let c = buf ! nat (cp_p v) in
      case map_of http_rows (cp_cs v) of
        None \<Rightarrow> Ret (Out v)
      | Some (rs, d) \<Rightarrow> goto_lab (row_lookup rs d (sc c)) buf c v)"

primrec http_exec :: "nat \<Rightarrow> bytes \<Rightarrow> chunk_vars \<Rightarrow> chunk_vars outcome" where
  "http_exec 0 buf v = Starved"
| "http_exec (Suc fuel) buf v =
     obind (http_trans buf v) (\<lambda>r.
       case r of
         Out v1 \<Rightarrow> Ret v1
       | Goto n v1 \<Rightarrow>
           let v2 = v1\<lparr>cp_p := cp_p v1 + 1, cp_cs := n\<rparr> in
           if cp_p v2 = int (length buf) then Ret v2 else http_exec fuel buf v2)"

definition mog_http_parse :: "bytes \<Rightarrow> mog_http \<times> world \<Rightarrow> (mog_parser_state \<times> mog_http \<times> world) outcome" where
  "mog_http_parse buf = (\<lambda>(http, w).
     assert_then (h_wbuf http = WNull) (assert_then (h_offset http \<le> length buf)
      (let v = \<lparr>cp_p = int (h_offset http), cp_cs = nat (h_cs http), cp_done = False, cp_http = http,
                cp_w = w\<lparr>w_errno := None\<rparr>\<rparr> in
       obind (if h_offset http = length buf then Ret v else http_exec (chunk_fuel (length buf)) buf v) (\<lambda>v1.
         let cs = (if cp_done v1 then 468 else cp_cs v1);
             http1 = (cp_http v1)\<lparr>h_cs := int cs, h_offset := nat (cp_p v1)\<rparr> in
         if cs = 0 \<or> w_errno (cp_w v1) \<noteq> None then Ret (MOG_PARSER_ERROR, http1, cp_w v1)
         else assert_then (cp_p v1 \<le> int (length buf))
           (Ret (if cs = 468 then MOG_PARSER_DONE else MOG_PARSER_CONTINUE, http1, cp_w v1))))))"

section \<open>The shape of the automaton\<close>

text \<open>
  The states that skip an ignored line. They are entered only by going back to the start of the
  line and left only at its end, so every line is read at most twice.
\<close>

definition skipping :: "nat \<Rightarrow> bool" where
  "skipping n \<longleftrightarrow> (240 \<le> n \<and> n < 249) \<or> (293 \<le> n \<and> n < 302)"

definition tr_shape :: "nat \<Rightarrow> http_act list \<Rightarrow> nat \<Rightarrow> bool" where
  "tr_shape n as m \<longleftrightarrow> m \<le> 472 \<and>
     (if as \<noteq> [] \<and> last as \<in> {A_ignore_header, A_ignore_trailer} then \<not> skipping n \<and> m = 0 \<and> set (butlast as) \<subseteq> {A_einval, A_md5_check}
      else if as \<noteq> [] \<and> last as \<in> {A_more_headers, A_more_trailers} then as \<in> {[A_line_end, A_more_headers], [A_line_end, A_more_trailers]}
      else (skipping m = skipping n) \<and> set as \<inter> {A_ignore_header, A_ignore_trailer, A_more_headers, A_more_trailers} = {})"

definition lab_shape :: "nat \<Rightarrow> http_lab \<Rightarrow> bool" where
  "lab_shape n l \<longleftrightarrow>
     (case l of
        St m \<Rightarrow> m \<le> 472 \<and> (m = 0 \<or> skipping m = skipping n)
      | Tr t \<Rightarrow> (case map_of http_trs t of None \<Rightarrow> False | Some (as, m) \<Rightarrow> tr_shape n as m))"

definition rows_shape :: "http_row list \<Rightarrow> bool" where
  "rows_shape rows \<longleftrightarrow> list_all (\<lambda>(n, rs, d). list_all (\<lambda>(lo, hi, l). lab_shape n l) rs \<and> lab_shape n d) rows"

lemma rows_shape_append: "rows_shape (a @ b) \<longleftrightarrow> rows_shape a \<and> rows_shape b"
  by (simp add: rows_shape_def)

lemma lab_shape_St: "lab_shape n (St m) \<longleftrightarrow> m \<le> 472 \<and> (m = 0 \<or> skipping m = skipping n)"
  by (simp add: lab_shape_def)

lemma http_rows_shape: "rows_shape http_rows"
  unfolding http_rows_def rows_shape_append
  by (intro conjI; simp add: rows_shape_def lab_shape_St http_rows_defs; simp add: lab_shape_def tr_shape_def skipping_def http_tr_simps)

text \<open>There is a row for each of the states 1 to 472.\<close>

lemma map_fst_rows:
  "map fst http_rows = [1] @ [2..<22] @ [468] @ [22..<246] @ [469] @ [246..<251] @ [470] @ [251..<299] @ [471] @
     [299..<304] @ [472] @ [304..<468]"
  by (simp add: http_rows_defs)

lemma http_rows_dom: "map_of http_rows n = None \<longleftrightarrow> \<not> (1 \<le> n \<and> n \<le> 472)"
proof -
  have "n \<in> fst ` set http_rows \<longleftrightarrow> n \<in> set (map fst http_rows)"
    by simp
  also have "\<dots> \<longleftrightarrow> 1 \<le> n \<and> n \<le> 472"
    unfolding map_fst_rows set_append set_upt by auto
  finally show ?thesis
    by (auto simp: map_of_eq_None_iff)
qed

section \<open>One transition\<close>

abbreviation le :: "chunk_vars \<Rightarrow> nat" where
  "le v \<equiv> h_line_end (cp_http v)"

lemmas act_defs = upd_http_def incr_field_def ignore_header_def ignore_trailer_def set_line_end_def to_u8_def to_u16_def
  md5_decode_def fbreak_def go_def st0_def

lemma do_act_not_Starved: "do_act a buf c n v \<noteq> Starved"
  by (cases a) (auto simp: act_defs assert_then_def Let_def split: prod.splits bool.splits)

lemma do_act_Next:
  assumes "do_act a buf c n v = Ret (Next v1)"
  shows "cp_p v1 = cp_p v" "le v1 = (if a = A_line_end then nat (cp_p v) else le v)"
    "a \<notin> {A_ignore_header, A_ignore_trailer, A_more_headers, A_more_trailers}"
  using assms by (cases a; auto simp: act_defs assert_then_def Let_def split: prod.splits bool.splits if_splits)+

lemma do_act_Goto:
  assumes "do_act a buf c n v = Ret (Jump (Goto m v1))"
  shows "a = A_ignore_header \<and> m = 293 \<and> cp_p v1 = int (le v) + 1 \<and> le v1 = le v \<or>
    a = A_ignore_trailer \<and> m = 240 \<and> cp_p v1 = (if le v = 0 then 0 else int (le v) + 1) \<and> le v1 = le v \<or>
    a = A_more_headers \<and> m = 302 \<and> v1 = v \<or> a = A_more_trailers \<and> m = 249 \<and> v1 = v"
  using assms by (cases a) (auto simp: act_defs assert_then_def Let_def split: prod.splits bool.splits if_splits)

lemma run_acts_not_Starved: "run_acts as buf c n v \<noteq> Starved"
proof (induction "as" arbitrary: v)
  case (Cons a "as")
  then show ?case
    using do_act_not_Starved [of a buf c n v] by (auto simp: obind_Starved split: act_res.splits)
qed (simp add: goto_st_def go_def st0_def)

end
