(* ===== verification/Mog_Http.thy ===== *)
theory Mog_Http
  imports Mog_Put_Open Mog_Http_Get Mog_Http_Parse
begin

text \<open>
  \<^verbatim>\<open>http.c\<close> and \<^verbatim>\<open>http_dav.c\<close>: what a worker does with an HTTP client when its socket is ready. One
  step either flushes a buffered response, or goes on with the file being sent or received, or reads
  and parses a request and answers it. The mark the path gets in the read buffer
  (\<^verbatim>\<open>path[len] = '\0'\<close>) lies before \<^verbatim>\<open>http->offset\<close> and is not read again, so the buffer keeps
  its contents here.
\<close>

section \<open>DELETE and MKCOL\<close>

definition mog_http_delete :: "bytes \<Rightarrow> client \<Rightarrow> client outcome" where
  "mog_http_delete buf = (\<lambda>(http, w).
     if h_getonly http then mog_http_resp0 ''405 Method Not Allowed'' True (http, w)
     else
       obind (http_path http buf w) (\<lambda>(p, w1).
         case p of
           None \<Rightarrow> mog_http_resp0 ''403 Forbidden'' True (http, w1)
         | Some path \<Rightarrow>
             assert_then (path \<noteq> [] \<and> hd path = CHR ''/'')
              (if tl path = [] then mog_http_resp0 ''403 Forbidden'' True (http, w1)
               else
                 obind (mog_unlink path w1) (\<lambda>(ok, w2).
                   if ok then mog_http_resp0 ''204 No Content'' True (http, w2)
                   else if w_errno w2 \<in> {Some EPERM, Some EISDIR, Some EACCES}
                   then mog_http_resp0 ''403 Forbidden'' True (http, w2)
                   else if w_errno w2 = Some ENOENT then mog_http_resp0 ''404 Not Found'' True (http, w2)
                   else mog_http_resp0 ''500 Internal Server Error'' True (http, w2)))))"

definition mog_http_mkcol :: "bytes \<Rightarrow> client \<Rightarrow> client outcome" where
  "mog_http_mkcol buf = (\<lambda>(http, w).
     if h_getonly http then mog_http_resp0 ''405 Method Not Allowed'' True (http, w)
     else
       obind (http_path http buf w) (\<lambda>(p, w1).
         if p \<noteq> None then mog_http_resp0 ''400 Bad Request'' True (http, w1)
         else mog_http_resp0 ''403 Forbidden'' True (http, w1)))"

section \<open>The request loop\<close>

text \<open>
  \<^verbatim>\<open>http_defer_rbuf\<close>: the bytes behind the request are kept for the next one, in the client's own
  buffer or a new one. \<open>i\<close> is the buffer the request was read into and \<open>buf\<close> its contents.
\<close>

definition http_defer_rbuf :: "nat \<Rightarrow> bytes \<Rightarrow> client \<Rightarrow> client outcome" where
  "http_defer_rbuf i buf = (\<lambda>(http, w).
     if h_skip_rbuf_defer http then Ret (http\<lparr>h_skip_rbuf_defer := False\<rparr>, w)
     else
       (let src = drop (h_offset http) buf in
        assert_then (h_offset http \<le> length buf) (assert_then (length src \<le> MOG_RBUF_MAX_SIZE)
         (if src = [] then
            obind (mog_rbuf_free_and_null (h_rbuf http) (w_heap w)) (\<lambda>(r, hp).
              Ret (http\<lparr>h_rbuf := r, h_offset := 0\<rparr>, w\<lparr>w_heap := hp\<rparr>))
          else
            obind (case h_rbuf http of
                     Some old \<Rightarrow> assert_then (old = i) (Ret (old, w_heap w))
                   | None \<Rightarrow> mog_rbuf_new (length src) (w_heap w)) (\<lambda>(j, hp).
              case rh_bufs hp j of
                None \<Rightarrow> Abort
              | Some b \<Rightarrow>
                  Ret (http\<lparr>h_rbuf := Some j, h_offset := 0\<rparr>,
                    w\<lparr>w_heap := hp\<lparr>rh_bufs := (rh_bufs hp)(j \<mapsto>
                      b\<lparr>rb_rptr := src @ drop (length src) (rb_rptr b), rb_rsize := Some (length src)\<rparr>)\<rparr>\<rparr>))))))"

definition http_process_client ::
  "(bytes \<Rightarrow> int) \<Rightarrow> (bytes \<Rightarrow> bytes) \<Rightarrow> nat \<Rightarrow> bytes \<Rightarrow> client \<Rightarrow> client outcome" where
  "http_process_client mtime md5 perms buf s =
     (case h_http_method (fst s) of
        MOG_HTTP_METHOD_NONE \<Rightarrow> Abort
      | MOG_HTTP_METHOD_GET \<Rightarrow> mog_http_get_open mtime buf s
      | MOG_HTTP_METHOD_HEAD \<Rightarrow> mog_http_get_open mtime buf s
      | MOG_HTTP_METHOD_DELETE \<Rightarrow> mog_http_delete buf s
      | MOG_HTTP_METHOD_MKCOL \<Rightarrow> mog_http_mkcol buf s
      | MOG_HTTP_METHOD_PUT \<Rightarrow> mog_http_put md5 perms buf s)"

text \<open>The descriptor itself is released by \<^verbatim>\<open>mog_fd_put\<close>.\<close>

definition http_close :: "client \<Rightarrow> client outcome" where
  "http_close = (\<lambda>(http, w).
     obind (mog_rbuf_free (h_rbuf http) (w_heap w)) (\<lambda>hp.
       assert_then (h_wbuf http = WNull \<or> h_wbuf http = WError) (Ret (http, w\<lparr>w_heap := hp\<rparr>))))"

definition http_wbuf_in_progress :: "client \<Rightarrow> (mog_next \<times> client) outcome" where
  "http_wbuf_in_progress = (\<lambda>(http, w).
     case h_wbuf http of
       WNull \<Rightarrow> Abort
     | WError \<Rightarrow> Abort
     | WBuf b \<Rightarrow>
         obind (mog_tryflush b (w_tx w)) (\<lambda>(st, wb, tx).
           let http1 = http\<lparr>h_wbuf := wb\<rparr>; w1 = w\<lparr>w_tx := tx\<rparr> in
           case st of
             MOG_WRSTATE_ERR \<Rightarrow> Ret (MOG_NEXT_CLOSE, http1, w1)
           | MOG_WRSTATE_DONE \<Rightarrow>
               if \<not> h_persistent http1 then Ret (MOG_NEXT_CLOSE, http1, w1)
               else
                 (let http2 = (if h_forward http1 = None then mog_http_reset http1 else http1) in
                  assert_then (h_offset http2 = 0) (Ret (MOG_NEXT_ACTIVE, http2, w1)))
           | MOG_WRSTATE_BUSY \<Rightarrow> Ret (MOG_NEXT_WAIT_WR, http1, w1)))"

definition http_forward_in_progress :: "(bytes \<Rightarrow> bytes) \<Rightarrow> nat \<Rightarrow> client \<Rightarrow> (mog_next \<times> client) outcome" where
  "http_forward_in_progress md5 perms s =
     (if h_http_method (fst s) = MOG_HTTP_METHOD_GET then mog_http_get_in_progress s
      else assert_then (h_http_method (fst s) = MOG_HTTP_METHOD_PUT) (mog_http_put_in_progress md5 perms s))"

text \<open>The labels \<^verbatim>\<open>err507or400\<close> and \<^verbatim>\<open>err400\<close>.\<close>

definition err400 :: "client \<Rightarrow> (mog_next \<times> client) outcome" where
  "err400 s = obind (mog_http_resp0 ''400 Bad Request'' False s) (\<lambda>s1. Ret (MOG_NEXT_CLOSE, s1))"

definition err507or400 :: "client \<Rightarrow> (mog_next \<times> client) outcome" where
  "err507or400 s =
     (if w_errno (snd s) = Some ERANGE
      then obind (mog_http_resp0 ''507 Insufficient Storage'' False s) (\<lambda>s1. Ret (MOG_NEXT_CLOSE, s1))
      else err400 s)"

text \<open>The case \<^verbatim>\<open>MOG_PARSER_DONE\<close>.\<close>

definition http_answer ::
  "(bytes \<Rightarrow> int) \<Rightarrow> (bytes \<Rightarrow> bytes) \<Rightarrow> nat \<Rightarrow> nat \<Rightarrow> bytes \<Rightarrow> client \<Rightarrow> (mog_next \<times> client) outcome" where
  "http_answer mtime md5 perms i buf s =
     obind (http_process_client mtime md5 perms buf s) (\<lambda>s1.
       if h_wbuf (fst s1) = WError then Ret (MOG_NEXT_CLOSE, s1)
       else if h_wbuf (fst s1) \<noteq> WNull then obind (http_defer_rbuf i buf s1) (\<lambda>s2. Ret (MOG_NEXT_WAIT_WR, s2))
       else if h_forward (fst s1) \<noteq> None then obind (http_defer_rbuf i buf s1) (http_forward_in_progress md5 perms)
       else if \<not> h_persistent (fst s1) then Ret (MOG_NEXT_CLOSE, s1)
       else obind (http_defer_rbuf i buf s1) (\<lambda>(http2, w2). Ret (MOG_NEXT_ACTIVE, mog_http_reset http2, w2)))"

text \<open>
  From the label \<^verbatim>\<open>parse\<close> on: \<open>buf\<close> is what the buffer \<open>i\<close> holds and \<open>reread\<close> the jump to the label of
  that name, with the buffer and the number of bytes in it.
\<close>

definition http_parse_step ::
  "(bytes \<Rightarrow> int) \<Rightarrow> (bytes \<Rightarrow> bytes) \<Rightarrow> nat \<Rightarrow> (nat \<Rightarrow> nat \<Rightarrow> client \<Rightarrow> (mog_next \<times> client) outcome) \<Rightarrow>
   nat \<Rightarrow> bytes \<Rightarrow> client \<Rightarrow> (mog_next \<times> client) outcome" where
  "http_parse_step mtime md5 perms reread i buf s =
     obind (mog_http_parse buf s) (\<lambda>(st, http, w).
       case st of
         MOG_PARSER_ERROR \<Rightarrow> err507or400 (http, w)
       | MOG_PARSER_CONTINUE \<Rightarrow>
           assert_then (h_wbuf http = WNull)
            (case rh_bufs (w_heap w) i of
               None \<Rightarrow> Abort
             | Some b \<Rightarrow>
                 if h_offset http \<ge> rb_rcapa b then
                   (let hp = (w_heap w)\<lparr>rh_bufs := (rh_bufs (w_heap w))(i \<mapsto> b\<lparr>rb_rsize := Some (length buf)\<rparr>)\<rparr> in
                    obind (mog_rbuf_grow i hp) (\<lambda>(r, hp1).
                      case r of
                        None \<Rightarrow> err400 (http\<lparr>h_rbuf := None\<rparr>, w\<lparr>w_heap := hp1\<rparr>)
                      | Some j \<Rightarrow> reread j (length buf) (http\<lparr>h_rbuf := Some j\<rparr>, w\<lparr>w_heap := hp1\<rparr>)))
                 else reread i (length buf) (http, w))
       | MOG_PARSER_DONE \<Rightarrow> http_answer mtime md5 perms i buf (http, w))"

text \<open>
  The loop at \<^verbatim>\<open>reread\<close>, by recursion over the answers left. The buffer is filled from \<^verbatim>\<open>http->offset\<close>
  on; the bytes before it must have been written.
\<close>

primrec http_reread ::
  "rres list \<Rightarrow> (bytes \<Rightarrow> int) \<Rightarrow> (bytes \<Rightarrow> bytes) \<Rightarrow> nat \<Rightarrow> nat \<Rightarrow> nat \<Rightarrow> client \<Rightarrow> (mog_next \<times> client) outcome" where
  "http_reread [] mtime md5 perms i buf_len s = Starved"
| "http_reread (a # as) mtime md5 perms i buf_len s = (case s of (http, w) \<Rightarrow>
     (case rh_bufs (w_heap w) i of
        None \<Rightarrow> Abort
      | Some b \<Rightarrow>
          obind (sys_read (rb_rcapa b - h_offset http) w) (\<lambda>(r, w1).
            case r of
              RdData d \<Rightarrow>
                assert_then (h_offset http \<le> length (rb_rptr b))
                 (let buf = take (h_offset http) (rb_rptr b) @ d in
                  http_parse_step mtime md5 perms (http_reread as mtime md5 perms) i buf
                    (http, w1\<lparr>w_heap := rbuf_store i buf (w_heap w1)\<rparr>))
            | RdEof \<Rightarrow> Ret (MOG_NEXT_CLOSE, http, w1)
            | RdErr \<Rightarrow>
                if w_errno w1 = Some EAGAIN then
                  (if buf_len > 0 then
                     (let (j, hp) = (case h_rbuf http of Some j \<Rightarrow> (j, w_heap w1) | None \<Rightarrow> mog_rbuf_detach i (w_heap w1)) in
                      Ret (MOG_NEXT_WAIT_RD, http\<lparr>h_rbuf := Some j\<rparr>, w1\<lparr>w_heap := hp\<lparr>rh_bufs := (rh_bufs hp)(j :=
                        map_option (\<lambda>b. b\<lparr>rb_rsize := Some buf_len\<rparr>) (rh_bufs hp j))\<rparr>\<rparr>))
                   else Ret (MOG_NEXT_WAIT_RD, http, w1))
                else if w_errno w1 = Some EINTR then http_reread as mtime md5 perms i buf_len (http, w1)
                else Ret (MOG_NEXT_CLOSE, http, w1))))"

definition http_queue_step ::
  "(bytes \<Rightarrow> int) \<Rightarrow> (bytes \<Rightarrow> bytes) \<Rightarrow> nat \<Rightarrow> client \<Rightarrow> (mog_next \<times> client) outcome" where
  "http_queue_step mtime md5 perms = (\<lambda>(http, w).
     if h_wbuf http \<noteq> WNull then http_wbuf_in_progress (http, w)
     else if h_forward http \<noteq> None then http_forward_in_progress md5 perms (http, w)
     else
       obind (case h_rbuf http of
                Some i \<Rightarrow> Ret (i, w_heap w)
              | None \<Rightarrow> mog_rbuf_get MOG_RBUF_BASE_SIZE (w_heap w)) (\<lambda>(i, hp).
         let w1 = w\<lparr>w_heap := hp\<rparr> in
         case rh_bufs hp i of
           None \<Rightarrow> Abort
         | Some b \<Rightarrow>
             assert_then (h_offset http < rb_rcapa b)
              (if h_rbuf http = None then http_reread (w_rd w1) mtime md5 perms i 0 (http, w1)
               else
                 (case rb_rsize b of
                    None \<Rightarrow> Abort
                  | Some n \<Rightarrow>
                      assert_then (h_offset http \<le> n) (assert_then (n \<le> rb_rcapa b)
                       (if h_offset http < n
                        then http_parse_step mtime md5 perms (http_reread (w_rd w1) mtime md5 perms) i
                               (take n (rb_rptr b)) (http, w1)
                        else http_reread (w_rd w1) mtime md5 perms i n (http, w1)))))))"

definition mog_http_queue_step ::
  "(bytes \<Rightarrow> int) \<Rightarrow> (bytes \<Rightarrow> bytes) \<Rightarrow> nat \<Rightarrow> client \<Rightarrow> (mog_next \<times> client) outcome" where
  "mog_http_queue_step mtime md5 perms s =
     obind (http_queue_step mtime md5 perms s) (\<lambda>(rv, s1).
       obind (if rv = MOG_NEXT_CLOSE then http_close s1 else Ret s1) (\<lambda>s2.
         assert_then (rv \<noteq> MOG_NEXT_IGNORE) (Ret (rv, s2))))"

text \<open>
  \<^verbatim>\<open>mog_http_quit_step\<close> during a graceful shutdown: where the client goes, with the number of clients
  left.
\<close>

datatype quit_next = Quit_Idle_RD | Quit_Idle_WR | Quit_Active | Quit_Closed

definition mog_http_quit_step ::
  "(bytes \<Rightarrow> int) \<Rightarrow> (bytes \<Rightarrow> bytes) \<Rightarrow> nat \<Rightarrow> nat \<times> client \<Rightarrow> (quit_next \<times> nat \<times> client) outcome" where
  "mog_http_quit_step mtime md5 perms = (\<lambda>(nr_active, s).
     let close = (\<lambda>s1. obind (http_close s1) (\<lambda>s2. Ret (Quit_Closed, nr_active - 1, s2))) in
     obind (http_queue_step mtime md5 perms s) (\<lambda>(rv, s1).
       case rv of
         MOG_NEXT_WAIT_RD \<Rightarrow>
           if h_forward (fst s1) \<noteq> None \<or> h_rbuf (fst s1) \<noteq> None then Ret (Quit_Idle_RD, nr_active, s1) else close s1
       | MOG_NEXT_CLOSE \<Rightarrow> close s1
       | MOG_NEXT_ACTIVE \<Rightarrow> Ret (Quit_Active, nr_active, s1)
       | MOG_NEXT_WAIT_WR \<Rightarrow> Ret (Quit_Idle_WR, nr_active, s1)
       | MOG_NEXT_IGNORE \<Rightarrow> Abort))"

end
