(* ===== verification/Mog_Http_Serve.thy ===== *)
theory Mog_Http_Serve
  imports Mog_Http
begin

text \<open>
  What a client and the readers of the file system see of whole requests, from the parsed request to
  the end of the transfer: PUT is atomic, GET sends the bytes that were asked for.
\<close>

section \<open>Uploads\<close>

text \<open>A worker goes on with an upload each time the socket is readable.\<close>

primrec upload_rounds ::
  "nat \<Rightarrow> (bytes \<Rightarrow> int) \<Rightarrow> (bytes \<Rightarrow> bytes) \<Rightarrow> nat \<Rightarrow> mog_next \<times> client \<Rightarrow> (mog_next \<times> client) outcome" where
  "upload_rounds 0 mtime md5 perms r = Ret r"
| "upload_rounds (Suc n) mtime md5 perms r =
     (if fst r = MOG_NEXT_WAIT_RD \<and> h_forward (fst (snd r)) \<noteq> None
      then obind (http_queue_step mtime md5 perms (snd r)) (upload_rounds n mtime md5 perms)
      else Ret r)"

lemma upload_step:
  assumes "h_wbuf http = WNull" "h_forward http = Some f" "h_http_method http = MOG_HTTP_METHOD_PUT"
  shows "http_queue_step mtime md5 perms (http, w) = mog_http_put_in_progress md5 perms (http, w)"
  using assms by (simp add: http_queue_step_def http_forward_in_progress_def)

lemma defer_effect:
  assumes "http_defer_rbuf i buf (http, w) = Ret (http', w')"
  shows "\<exists>r off sk hp. http' = http\<lparr>h_rbuf := r, h_offset := off, h_skip_rbuf_defer := sk\<rparr> \<and> w' = w\<lparr>w_heap := hp\<rparr>"
proof (cases "h_skip_rbuf_defer http")
  case True
  then have "http' = http\<lparr>h_rbuf := h_rbuf http, h_offset := h_offset http, h_skip_rbuf_defer := False\<rparr>" "w' = w\<lparr>w_heap := w_heap w\<rparr>"
    using assms by (auto simp: http_defer_rbuf_def)
  then show ?thesis
    by blast
next
  case False
  obtain r hp where "http' = http\<lparr>h_rbuf := r, h_offset := 0\<rparr>" "w' = w\<lparr>w_heap := hp\<rparr>"
    using assms False by (auto simp: http_defer_rbuf_def Let_def split: if_splits option.splits)
  then have "http' = http\<lparr>h_rbuf := r, h_offset := 0, h_skip_rbuf_defer := h_skip_rbuf_defer http\<rparr>" "w' = w\<lparr>w_heap := hp\<rparr>"
    by simp_all
  then show ?thesis
    by blast
qed

lemma quiet_heap [simp]: "quiet t w (w'\<lparr>w_heap := hp\<rparr>) \<longleftrightarrow> quiet t w w'" "quiet t (w\<lparr>w_heap := hp\<rparr>) w' \<longleftrightarrow> quiet t w w'"
  by (simp_all add: quiet_def visible_def fun_eq_iff)

lemma appears_heap [simp]: "appears t d (w\<lparr>w_heap := hp\<rparr>) w' \<longleftrightarrow> appears t d w w'"
  by (simp add: appears_def visible_def fun_eq_iff)

lemma uploading_heap [simp]: "uploading i tmp path d f (w\<lparr>w_heap := hp\<rparr>) \<longleftrightarrow> uploading i tmp path d f w"
  by (simp add: uploading_def owned_def)

text \<open>The rounds of an upload are those of the PUT handler.\<close>

lemma upload_rounds_put:
  assumes "upload_rounds n mtime md5 perms (MOG_NEXT_WAIT_RD, http, w) = Ret (nx, http', w')"
    and "h_wbuf http = WNull" "h_http_method http = MOG_HTTP_METHOD_PUT"
    and http: "\<not> h_chunked http" "\<not> h_has_content_range http" "h_forward http = Some f" "uploading i tmp path d f w"
  shows "put_rounds n md5 perms (http, w) = Ret (nx, http', w')"
  using assms
proof (induction n arbitrary: http w f d)
  case (Suc n)
  note s = upload_step [OF Suc.prems(2,6,3)]
  obtain nx1 http1 w1 where p: "mog_http_put_in_progress md5 perms (http, w) = Ret (nx1, http1, w1)"
    and k: "upload_rounds n mtime md5 perms (nx1, http1, w1) = Ret (nx, http', w')"
    using Suc.prems(1,6) unfolding upload_rounds.simps fst_conv snd_conv s by auto
  show ?case
  proof (cases "nx1 = MOG_NEXT_WAIT_RD")
    case True
    obtain e where "put_waits i tmp path (d @ e) http f w http1 w1"
      using identity_step_put [OF p Suc.prems(4-7)] True by auto
    then obtain f1 where f1: "http1 = http\<lparr>h_forward := Some f1\<rparr>" "uploading i tmp path (d @ e) f1 w1"
      by (elim put_waitsE)
    have "put_rounds n md5 perms (http1, w1) = Ret (nx, http', w')"
      by (rule Suc.IH [where f = f1 and d = "d @ e"]) (use k True Suc.prems f1 in simp_all)
    then show ?thesis
      using p True by simp
  next
    case False
    then have "(nx, http', w') = (nx1, http1, w1)"
      using k by (cases n) auto
    then show ?thesis
      using p False by simp
  qed
qed simp

lemma reset_forward [simp]: "h_forward (mog_http_reset http) = None"
  by (simp add: mog_http_reset_def mog_http_reset_parser_def)

text \<open>A request that left no file open ends without looking at the body.\<close>

definition heap_only :: "world \<Rightarrow> world \<Rightarrow> bool" where
  "heap_only w w' \<longleftrightarrow> (\<exists>hp. w' = w\<lparr>w_heap := hp\<rparr>)"

lemma heap_only_refl [simp]: "heap_only w w"
  unfolding heap_only_def by (rule exI [of _ "w_heap w"]) simp

lemma heap_only_heap [simp]: "heap_only w (w\<lparr>w_heap := hp\<rparr>)"
  unfolding heap_only_def by (rule exI) (rule refl)

lemma heap_only_quiet: "heap_only w1 w2 \<Longrightarrow> quiet t w w1 \<Longrightarrow> quiet t w w2"
  unfolding heap_only_def by (elim exE) simp

lemma answer_no_forward:
  assumes "http_process_client mtime md5 perms buf (http, w) = Ret (http1, w1)" "h_forward http1 = None"
    and "http_answer mtime md5 perms i buf (http, w) = Ret (nx, http2, w2)"
  shows "h_forward http2 = None \<and> heap_only w1 w2"
proof -
  note r = assms(3) [unfolded http_answer_def assms(1) obind.simps fst_conv]
  have d: "h_forward http3 = None \<and> heap_only w1 w3" if "http_defer_rbuf i buf (http1, w1) = Ret (http3, w3)" for http3 w3
    using defer_effect [OF that] assms(2) by (elim exE conjE) simp
  consider "(nx, http2, w2) = (MOG_NEXT_CLOSE, http1, w1)"
    | "obind (http_defer_rbuf i buf (http1, w1)) (\<lambda>s2. Ret (MOG_NEXT_WAIT_WR, s2)) = Ret (nx, http2, w2)"
    | "obind (http_defer_rbuf i buf (http1, w1)) (\<lambda>(http2, w2). Ret (MOG_NEXT_ACTIVE, mog_http_reset http2, w2)) = Ret (nx, http2, w2)"
    using r assms(2) by (cases "h_wbuf http1 = WError"; cases "h_wbuf http1 = WNull"; cases "h_persistent http1") simp_all
  then show ?thesis
  proof cases
    case 2
    then show ?thesis
      using d by (auto simp del: obind_Ret elim!: obindE)
  next
    case 3
    then obtain http3 where "http_defer_rbuf i buf (http1, w1) = Ret (http3, w2)" "http2 = mog_http_reset http3"
      by (auto simp del: obind_Ret elim!: obindE2)
    then show ?thesis
      using d by simp
  qed (use assms(2) in simp)
qed

lemma upload_rounds_no_forward:
  "h_forward (fst (snd r)) = None \<Longrightarrow> upload_rounds n mtime md5 perms r = Ret r"
  by (cases n) simp_all

lemma answer_forward:
  assumes "http_process_client mtime md5 perms buf (http, w) = Ret (http1, w1)" "h_forward http1 = Some f" "h_wbuf http1 = WNull"
    and "http_answer mtime md5 perms i buf (http, w) = Ret (nx, http2, w2)"
  obtains http3 w3 where "http_defer_rbuf i buf (http1, w1) = Ret (http3, w3)"
    "http_forward_in_progress md5 perms (http3, w3) = Ret (nx, http2, w2)"
  using assms by (auto simp: http_answer_def)

lemma put_identityE:
  assumes "mog_http_put md5 perms buf (http, w) = Ret (http', w')"
    and http: "\<not> h_chunked http" "\<not> h_has_content_range http" "h_forward http = None" "h_content_len http < 2 ^ 63"
    and ok: "names_ok w"
    and path: "path = take (h_path_end http - h_path_tip http) (drop (h_path_tip http) buf)"
    and body: "body = take (nat (h_content_len http)) (drop (h_offset http) buf)"
  obtains "quiet (path_comps path) w w'" "h_forward http' = None"
  | i tmp f where "quiet (path_comps path) w w'" "http' = http\<lparr>h_forward := Some f, h_offset := h_offset http + length body\<rparr>"
      "uploading i tmp path body f w'" "fl_digest f = None \<longleftrightarrow> \<not> (h_has_trailer_md5 http \<or> h_has_expect_md5 http)"
      "w_rx w' = w_rx w" "w_tx w' = w_tx w" "w_date w' = w_date w"
proof -
  note id = mog_http_put_identity [OF assms]
  from conjunct2 [OF id] show thesis
  proof (elim disjE exE conjE)
    assume "h_forward http' = None"
    then show thesis
      using that(1) id by blast
  next
    fix i tmp f
    assume "http' = http\<lparr>h_forward := Some f, h_offset := h_offset http + length body\<rparr>" "uploading i tmp path body f w'"
      "fl_digest f = None \<longleftrightarrow> \<not> (h_has_trailer_md5 http \<or> h_has_expect_md5 http)"
      "w_rx w' = w_rx w" "w_tx w' = w_tx w" "w_date w' = w_date w"
    then show thesis
      by (rule that(2) [OF conjunct1 [OF id]])
  qed
qed

text \<open>From the open temporary file to the end of the rounds.\<close>

lemma upload_transfer:
  assumes "upload_rounds n mtime md5 perms (MOG_NEXT_WAIT_RD, http, w) = Ret (nx, http', w')"
    and p: "h_wbuf http = WNull" "h_http_method http = MOG_HTTP_METHOD_PUT" "\<not> h_chunked http" "\<not> h_has_content_range http"
      "h_forward http = Some f" "uploading i tmp path body f w"
  shows "quiet (path_comps path) w w' \<or>
    (\<exists>e. w_rx w = e @ w_rx w' \<and> int (length (body @ e)) = h_content_len http \<and>
       appears (path_comps path) (body @ e) w w' \<and> responded ''201 Created'' (h_persistent http) w http' w' \<and>
       (fl_digest f \<noteq> None \<longrightarrow> h_expect_md5 http = take 16 (md5 (body @ e))))"
proof -
  from put_rounds_put [OF upload_rounds_put [OF assms] p(3-6)] obtain e where e: "w_rx w = e @ w_rx w'" and
    c: "put_waits i tmp path (body @ e) http f w http' w' \<or>
      int (length (body @ e)) = h_content_len http \<and> put_done md5 path (body @ e) http f w http' w' \<or> put_gave_up path w http' w'"
    by blast
  from c show ?thesis
  proof (elim disjE)
    assume "put_waits i tmp path (body @ e) http f w http' w'"
    then show ?thesis
      by (auto elim: put_waitsE)
  next
    assume "put_gave_up path w http' w'"
    then show ?thesis
      by (simp add: put_gave_up_def)
  next
    assume "int (length (body @ e)) = h_content_len http \<and> put_done md5 path (body @ e) http f w http' w'"
    then show ?thesis
      using e by (intro disjI2 exI [of _ e]) (simp add: put_done_def)
  qed
qed

text \<open>
  C1: An upload without \<^verbatim>\<open>Content-Range\<close> and with a plain body is all or nothing, however the body is
  cut into reads, writes and rounds of the event loop. At every moment a reader of the path finds
  either what was there before the request, or the complete body. It finds the body only if exactly
  \<^verbatim>\<open>Content-Length\<close> bytes of it arrived and their MD5 is the one the client gave, if it gave one, and
  then the client is answered 201.
\<close>

theorem put_all_or_nothing:
  assumes "http_answer mtime md5 perms k buf (http, w) = Ret (nx1, http1, w1)"
    and "upload_rounds n mtime md5 perms (nx1, http1, w1) = Ret (nx, http', w')"
    and http: "h_http_method http = MOG_HTTP_METHOD_PUT" "\<not> h_chunked http" "\<not> h_has_content_range http"
      "h_forward http = None" "h_wbuf http = WNull" "h_content_len http < 2 ^ 63"
    and ok: "names_ok w"
    and path: "path = take (h_path_end http - h_path_tip http) (drop (h_path_tip http) buf)"
    and body: "body = take (nat (h_content_len http)) (drop (h_offset http) buf)"
  shows "quiet (path_comps path) w w' \<or>
    (\<exists>e. w_rx w = e @ w_rx w' \<and> int (length (body @ e)) = h_content_len http \<and>
       appears (path_comps path) (body @ e) w w' \<and>
       responded ''201 Created'' (h_persistent http) w http' w' \<and>
       (h_has_trailer_md5 http \<or> h_has_expect_md5 http \<longrightarrow> h_expect_md5 http = take 16 (md5 (body @ e))))"
proof -
  obtain http0 w0 where put: "http_process_client mtime md5 perms buf (http, w) = Ret (http0, w0)"
    using assms(1) by (auto simp: http_answer_def)
  then have "mog_http_put md5 perms buf (http, w) = Ret (http0, w0)"
    using http(1) by (simp add: http_process_client_def)
  from this http(2,3,4,6) ok path body show ?thesis
  proof (rule put_identityE)
    assume q: "quiet (path_comps path) w w0" and none: "h_forward http0 = None"
    note a = answer_no_forward [OF put none assms(1)]
    then have "w' = w1"
      using assms(2) upload_rounds_no_forward [of "(nx1, http1, w1)"] by simp
    then show ?thesis
      using heap_only_quiet [OF conjunct2 [OF a] q] by simp
  next
    fix i tmp f
    assume q: "quiet (path_comps path) w w0"
      and f: "http0 = http\<lparr>h_forward := Some f, h_offset := h_offset http + length body\<rparr>"
      "uploading i tmp path body f w0" "fl_digest f = None \<longleftrightarrow> \<not> (h_has_trailer_md5 http \<or> h_has_expect_md5 http)"
      and w0: "w_rx w0 = w_rx w" "w_tx w0 = w_tx w" "w_date w0 = w_date w"
    have "h_forward http0 = Some f" "h_wbuf http0 = WNull"
      using f(1) http(5) by simp_all
    from answer_forward [OF put this assms(1)] obtain http3 w3 where d: "http_defer_rbuf k buf (http0, w0) = Ret (http3, w3)"
      and fw: "http_forward_in_progress md5 perms (http3, w3) = Ret (nx1, http1, w1)" .
    obtain r off sk hp where h3: "http3 = http0\<lparr>h_rbuf := r, h_offset := off, h_skip_rbuf_defer := sk\<rparr>" and w3: "w3 = w0\<lparr>w_heap := hp\<rparr>"
      using defer_effect [OF d] by blast
    have p: "h_wbuf http3 = WNull" "h_http_method http3 = MOG_HTTP_METHOD_PUT" "\<not> h_chunked http3" "\<not> h_has_content_range http3"
        "h_forward http3 = Some f" "uploading i tmp path body f w3"
      using h3 f(1,2) http w3 by simp_all
    have "upload_rounds (Suc n) mtime md5 perms (MOG_NEXT_WAIT_RD, http3, w3) = Ret (nx, http', w')"
      using fw assms(2) p by (simp add: upload_step http_forward_in_progress_def)
    from upload_transfer [OF this p] show ?thesis
      using quiet_trans [OF q] quiet_appears [OF q] h3 w3 w0 f by (auto simp: responded_def)
  qed
qed

text \<open>A concrete upload: half of the body comes with the request, the other half later.\<close>

definition demo_put_buf :: bytes where
  "demo_put_buf = ''PUT /dev1/ab HTTP/1.0'' @ crlf @ crlf @ ''hi''"

definition demo_put :: mog_http where
  "demo_put = demo_http\<lparr>h_chunked := False, h_path_tip := 4, h_path_end := 12, h_offset := 25, h_content_len := 4\<rparr>"

definition demo_put_world :: world where
  "demo_put_world = demo_world\<lparr>w_rand := [5], w_fs := [None, None, None], w_pw := [PSome 9, PSome 1, PSome 1],
     w_rd := [RErr EAGAIN, RSome 9], w_rx := ''!?'', w_tx := \<lparr>sk_sent = '''', sk_script = [Wrote 999]\<rparr>\<rparr>"

definition demo_tmp :: bytes where
  "demo_tmp = ''/dev1/ab.00000005.4242.tmp''"

lemma demo_suffix: "tmp_suffix 5 4242 = ''.00000005.4242.tmp''"
proof -
  have "nat_str 10 4242 = ''4242''" "nat_str 16 5 = ''5''"
    by (simp_all add: nat_str.simps)
  moreover have "pad_zero 8 ''5'' = ''00000005''"
    by (simp add: pad_zero_def numeral_eq_Suc)
  ultimately show ?thesis
    by (simp add: tmp_suffix_def)
qed

lemmas open_eval = open_put_def open_tmp_def tmppath_for_def mog_file_open_put_def mkpath_open_put_def mog_open_put_def
  fs_call_def sys_open_put_def path_comps_def parent_error_def snap_def file_init_def
lemmas path_eval = http_path_def mog_http_path_def mog_valid_path_def path_traversal_found_def path_traversal_step_def
  mog_valid_put_path_def put_path_step_def is_digit_def
lemmas put_eval = mog_http_put_def lengths_ok_def put_first_body_def identity_body_after_header_def mog_http_write_full_def
  sys_pwrite_def overwrite_def mog_http_put_in_progress_def identity_put_in_progress_def sys_read_def http_put_commit_def
  put_commit_resp_def md5_ok_def set_perms_commit_def sys_fchmod_def mog_rename_def sys_rename_def file_close_null_def
  mog_file_close_def set_errno_def
lemmas resp_eval = mog_http_resp0_def resp_bytes_def crlf_def fsbuf_size_def mog_trywritev_def

lemma demo_upload:
  "\<exists>nx1 http1 w1 nx http' w'. http_answer mtime md5 perms 0 demo_put_buf (demo_put, demo_put_world) = Ret (nx1, http1, w1) \<and>
     upload_rounds 1 mtime md5 perms (nx1, http1, w1) = Ret (nx, http', w') \<and> visible w' [''dev1'', ''ab''] \<noteq> None"
  unfolding http_answer_def http_process_client_def
  by (simp add: Let_def demo_put_def demo_http_def demo_put_world_def demo_world_def demo_put_buf_def demo_suffix open_eval path_eval put_eval
    http_defer_rbuf_def mog_rbuf_free_and_null_def mog_rbuf_free_def http_forward_in_progress_def http_queue_step_def resp_eval
    MOG_RBUF_MAX_SIZE_def visible_def del: obind_Ret)

theorem put_all_or_nothing_witness:
  "\<exists>nx http' w'. obind (http_answer (\<lambda>_. 0) (\<lambda>_. '''') 420 0 demo_put_buf (demo_put, demo_put_world))
       (upload_rounds 1 (\<lambda>_. 0) (\<lambda>_. '''') 420) = Ret (nx, http', w') \<and>
     appears [''dev1'', ''ab''] ''hi!?'' demo_put_world w'"
proof -
  obtain nx1 http1 w1 nx http' w' where
    a: "http_answer (\<lambda>_. 0) (\<lambda>_. '''') 420 0 demo_put_buf (demo_put, demo_put_world) = Ret (nx1, http1, w1)" and
    u: "upload_rounds 1 (\<lambda>_. 0) (\<lambda>_. '''') 420 (nx1, http1, w1) = Ret (nx, http', w')" and
    v: "visible w' [''dev1'', ''ab''] \<noteq> None"
    using demo_upload by blast
  have h: "h_http_method demo_put = MOG_HTTP_METHOD_PUT" "\<not> h_chunked demo_put" "\<not> h_has_content_range demo_put"
      "h_forward demo_put = None" "h_wbuf demo_put = WNull" "h_content_len demo_put < 2 ^ 63" "names_ok demo_put_world"
      "''/dev1/ab'' = take (h_path_end demo_put - h_path_tip demo_put) (drop (h_path_tip demo_put) demo_put_buf)"
      "''hi'' = take (nat (h_content_len demo_put)) (drop (h_offset demo_put) demo_put_buf)"
    by (simp_all add: demo_put_def demo_http_def demo_put_buf_def crlf_def names_ok_def demo_put_world_def demo_world_def)
  have c: "path_comps ''/dev1/ab'' = [''dev1'', ''ab'']" "w_rx demo_put_world = ''!?''" "visible demo_put_world [''dev1'', ''ab''] = None"
      "h_content_len demo_put = 4"
    by (simp_all add: path_comps_def demo_put_world_def visible_def demo_world_def demo_put_def)
  from put_all_or_nothing [OF a u h] v obtain e where e: "''!?'' = e @ w_rx w'" "int (length (''hi'' @ e)) = 4"
    "appears [''dev1'', ''ab''] (''hi'' @ e) demo_put_world w'"
    unfolding c by (auto simp: quiet_def c)
  have "length e = 2"
    using e(2) by simp
  then have "e = ''!?''"
    using arg_cong [OF e(1), of "take 2"] by simp
  then show ?thesis
    using a u e(3) by auto
qed

end
