(* ===== verification/Mog_Get_Serve.thy ===== *)
theory Mog_Get_Serve
  imports Mog_Http_Serve
begin

text \<open>
  Downloads: from the parsed GET request to the end of the transfer, the client gets the header and the
  bytes of the file it asked for.
\<close>

section \<open>The answers of the socket\<close>

text \<open>Every error among the answers to come is in \<open>E\<close>.\<close>

definition errs_in :: "errno set \<Rightarrow> sock \<Rightarrow> bool" where
  "errs_in E sk \<longleftrightarrow> (\<forall>e. WErr e \<in> set (sk_script sk) \<longrightarrow> e \<in> E)"

lemma trysend_loop_errs:
  "trysend_loop ks sent buf = Ret (r, sk') \<Longrightarrow> \<forall>e. WErr e \<in> set ks \<longrightarrow> e \<in> E \<Longrightarrow>
   errs_in E sk' \<and> (r = WError \<longrightarrow> \<not> E \<subseteq> {EAGAIN, EINTR}) \<and> (r \<noteq> WNull \<and> r \<noteq> WError \<longrightarrow> EAGAIN \<in> E)"
proof (induction ks sent buf rule: trysend_loop.induct)
  case (2 e ks sent buf)
  then show ?case by (auto simp: errs_in_def split: if_splits)
next
  case (3 n ks sent buf)
  then show ?case by (auto simp: errs_in_def Let_def split: if_splits)
qed simp

lemma trysend_errs:
  assumes "mog_trysend True buf sk = Ret (r, sk')" "errs_in E sk"
  shows "errs_in E sk' \<and> (r = WError \<longrightarrow> \<not> E \<subseteq> {EAGAIN, EINTR}) \<and> (r \<noteq> WNull \<and> r \<noteq> WError \<longrightarrow> EAGAIN \<in> E)"
proof (cases "buf = []")
  case False
  then have "trysend_loop (sk_script sk) (sk_sent sk) buf = Ret (r, sk')"
    using assms(1) by (simp add: mog_trysend_def)
  from trysend_loop_errs [OF this] show ?thesis
    using assms(2) by (simp add: errs_in_def)
qed (use assms in \<open>simp add: mog_trysend_def\<close>)

lemma tryflush_loop_errs:
  "tryflush_loop ks sent b = Ret (st, r, sk') \<Longrightarrow> \<forall>e. WErr e \<in> set ks \<longrightarrow> e \<in> E \<Longrightarrow>
   errs_in E sk' \<and> (st = MOG_WRSTATE_ERR \<longrightarrow> \<not> E \<subseteq> {EAGAIN, EINTR})"
proof (induction ks sent b rule: tryflush_loop.induct)
  case (2 e ks sent b)
  then show ?case by (auto simp: errs_in_def split: if_splits)
next
  case (3 n ks sent b)
  then show ?case by (auto simp: errs_in_def Let_def split: if_splits)
qed simp

section \<open>What is still to be sent\<close>

definition file_rest :: "bytes \<Rightarrow> mog_file option \<Rightarrow> bytes" where
  "file_rest d fo = (case fo of None \<Rightarrow> [] | Some f \<Rightarrow> take (nat (fl_fsize f - fl_foff f)) (drop (nat (fl_foff f)) d))"

text \<open>
  A download in progress: what was sent, what is buffered and the rest of the range of the file \<open>i\<close> make
  up \<open>all\<close>. Unless the connection is persistent, nothing is buffered while the file waits.
\<close>

definition downloading :: "nat \<Rightarrow> bytes \<Rightarrow> bytes \<Rightarrow> mog_http \<Rightarrow> world \<Rightarrow> bool" where
  "downloading i d all http w \<longleftrightarrow>
     w_data w i = d \<and> wbuf_ok (h_wbuf http) \<and> h_wbuf http \<noteq> WError \<and>
     sk_sent (w_tx w) @ pending (h_wbuf http) @ file_rest d (h_forward http) = all \<and>
     (\<forall>f. h_forward http = Some f \<longrightarrow> h_http_method http = MOG_HTTP_METHOD_GET \<and> fl_node f = FReg i \<and>
        0 \<le> fl_foff f \<and> fl_foff f \<le> fl_fsize f \<and> fl_fsize f \<le> int (length d))"

definition busy :: "mog_http \<Rightarrow> bool" where
  "busy http \<longleftrightarrow> h_wbuf http \<noteq> WNull \<or> h_forward http \<noteq> None"

lemma downloading_idle: "downloading i d all http w \<Longrightarrow> \<not> busy http \<Longrightarrow> sk_sent (w_tx w) = all"
  by (simp add: downloading_def busy_def file_rest_def)

lemma downloading_prefix: "downloading i d all http w \<Longrightarrow> prefix (sk_sent (w_tx w)) all"
  unfolding downloading_def by (metis prefixI)

lemma downloading_reset: "downloading i d all http w \<Longrightarrow> \<not> busy http \<Longrightarrow> downloading i d all (mog_http_reset http) w"
  by (simp add: downloading_def busy_def file_rest_def mog_http_reset_def mog_http_reset_parser_def)

text \<open>The connection ends: without an error of the socket everything was sent.\<close>

definition ended :: "errno set \<Rightarrow> bytes \<Rightarrow> world \<Rightarrow> bool" where
  "ended E all w \<longleftrightarrow> prefix (sk_sent (w_tx w)) all \<and> (E \<subseteq> {EAGAIN, EINTR} \<longrightarrow> sk_sent (w_tx w) = all)"

lemma file_rest_step:
  assumes "0 \<le> fl_foff f" "fl_foff f + int n \<le> fl_fsize f" "fl_fsize f \<le> int (length d)"
  shows "take n (drop (nat (fl_foff f)) d) @ file_rest d (Some (f\<lparr>fl_foff := fl_foff f + int n\<rparr>)) = file_rest d (Some f)"
proof -
  have n: "nat (fl_fsize f - fl_foff f) = n + nat (fl_fsize f - (fl_foff f + int n))" "nat (fl_foff f + int n) = nat (fl_foff f) + n"
    using assms by linarith+
  show ?thesis
    unfolding file_rest_def option.case by (simp add: n take_add add.commute)
qed

lemma get_done_step:
  assumes "get_done (http, w) = Ret (nx, http', w')" "downloading i d all http w" "h_wbuf http = WNull"
    "\<exists>f. h_forward http = Some f \<and> fl_foff f = fl_fsize f"
  shows "(nx = MOG_NEXT_CLOSE \<and> sk_sent (w_tx w') = all \<or> nx = MOG_NEXT_ACTIVE \<and> downloading i d all http' w' \<and> h_wbuf http' = WNull) \<and>
    w_tx w' = w_tx w"
  using assms
  by (auto simp: get_done_def downloading_def file_rest_def mog_file_close_def mog_http_reset_def mog_http_reset_parser_def split: if_splits)

text \<open>One call of \<^verbatim>\<open>sendfile\<close>.\<close>

lemma sendfile_step:
  assumes "sys_sendfile f count w = Ret (r, f', w')" "downloading i d all http w" "h_wbuf http = WNull" "h_forward http = Some f"
    and "0 < count" "int count \<le> fl_fsize f - fl_foff f" "errs_in E (w_tx w)"
  shows "errs_in E (w_tx w')" "downloading i d all (http\<lparr>h_forward := Some f'\<rparr>) w'" "r \<noteq> 0"
    "r < 0 \<Longrightarrow> f' = f \<and> (\<exists>e. w_errno w' = Some e \<and> e \<in> E)" "sk_script (w_tx w') = tl (sk_script (w_tx w))" "fl_fsize f' = fl_fsize f"
proof -
  have f: "fl_node f = FReg i" "0 \<le> fl_foff f" "fl_fsize f \<le> int (length d)" "w_data w i = d" "h_http_method http = MOG_HTTP_METHOD_GET"
    using assms(2,4) by (simp_all add: downloading_def)
  consider (err) e as where "sk_script (w_tx w) = WErr e # as" "r = -1" "f' = f"
      "w' = set_errno e (w\<lparr>w_tx := (w_tx w)\<lparr>sk_script := as\<rparr>\<rparr>)"
    | (sent) k as where "sk_script (w_tx w) = Wrote k # as"
      "r = int (length (take (min (max 1 k) count) (drop (nat (fl_foff f)) d)))" "f' = f\<lparr>fl_foff := fl_foff f + r\<rparr>"
      "w' = w\<lparr>w_tx := \<lparr>sk_sent = sk_sent (w_tx w) @ take (min (max 1 k) count) (drop (nat (fl_foff f)) d), sk_script = as\<rparr>\<rparr>"
  proof (cases "sk_script (w_tx w)")
    case (Cons x xs)
    show thesis
    proof (cases x)
      case (Wrote k)
      show thesis
        by (rule that(2) [of k xs]) (use assms(1) f Cons Wrote in \<open>auto simp: sys_sendfile_def Let_def\<close>)
    next
      case (WErr e)
      show thesis
        by (rule that(1) [of e xs]) (use assms(1) Cons WErr in \<open>simp_all add: sys_sendfile_def\<close>)
    qed
  qed (use assms(1) in \<open>simp add: sys_sendfile_def\<close>)
  then have "errs_in E (w_tx w') \<and> downloading i d all (http\<lparr>h_forward := Some f'\<rparr>) w' \<and> r \<noteq> 0 \<and>
      (r < 0 \<longrightarrow> f' = f \<and> (\<exists>e. w_errno w' = Some e \<and> e \<in> E)) \<and> sk_script (w_tx w') = tl (sk_script (w_tx w)) \<and> fl_fsize f' = fl_fsize f"
  proof cases
    case err
    then show ?thesis
      using assms(2-4,7) by (simp add: set_errno_def errs_in_def downloading_def)
  next
    case sent
    define n where "n = min (max 1 k) count"
    have n: "0 < n" "fl_foff f + int n \<le> fl_fsize f" "int (length (take n (drop (nat (fl_foff f)) d))) = int n"
      using assms(5,6) f(2,3) by (auto simp: n_def)
    have "r = int n"
      using sent(2) n(3) by (simp add: n_def)
    moreover have "take n (drop (nat (fl_foff f)) d) @ file_rest d (Some (f\<lparr>fl_foff := fl_foff f + int n\<rparr>)) = file_rest d (Some f)"
      by (rule file_rest_step) (use n f in simp_all)
    ultimately show ?thesis
      using assms(2-4,7) sent n f(2) unfolding n_def [symmetric] by (simp add: errs_in_def downloading_def)
  qed
  then show "errs_in E (w_tx w')" "downloading i d all (http\<lparr>h_forward := Some f'\<rparr>) w'" "r \<noteq> 0"
    "r < 0 \<Longrightarrow> f' = f \<and> (\<exists>e. w_errno w' = Some e \<and> e \<in> E)" "sk_script (w_tx w') = tl (sk_script (w_tx w))" "fl_fsize f' = fl_fsize f"
    by simp_all
qed

text \<open>The outcome of one round: the transfer goes on or the connection ends.\<close>

definition round_ok :: "errno set \<Rightarrow> nat \<Rightarrow> bytes \<Rightarrow> bytes \<Rightarrow> mog_next \<Rightarrow> mog_http \<Rightarrow> world \<Rightarrow> bool" where
  "round_ok E i d all nx http w \<longleftrightarrow> errs_in E (w_tx w) \<and>
     (if nx = MOG_NEXT_CLOSE then ended E all w
      else downloading i d all http w \<and> (h_wbuf http = WNull \<or> h_forward http = None \<or> h_persistent http \<or> \<not> E \<subseteq> {EAGAIN, EINTR}))"

lemma downloading_persistent [simp]: "downloading i d all (http\<lparr>h_persistent := b\<rparr>) w \<longleftrightarrow> downloading i d all http w"
  by (simp add: downloading_def)

lemma get_done_round:
  assumes "get_done (http, w) = Ret (nx, http', w')" "downloading i d all http w" "h_wbuf http = WNull" "errs_in E (w_tx w)"
    and "h_forward http = Some f" "fl_foff f = fl_fsize f \<or> \<not> h_persistent http \<and> \<not> E \<subseteq> {EAGAIN, EINTR}"
  shows "round_ok E i d all nx http' w'"
proof (cases "fl_foff f = fl_fsize f")
  case True
  then show ?thesis
    using get_done_step [OF assms(1-3)] assms(3-5) by (auto simp: round_ok_def ended_def downloading_prefix)
next
  case False
  then have "nx = MOG_NEXT_CLOSE" "w_tx w' = w_tx w" "\<not> E \<subseteq> {EAGAIN, EINTR}"
    using assms(1,5,6) by (auto simp: get_done_def mog_file_close_def)
  then show ?thesis
    using assms(4) downloading_prefix [OF assms(2)] by (simp add: round_ok_def ended_def)
qed

lemma sendfile_loop_round:
  assumes "sendfile_loop ks count (http, w) = Ret (nx, http', w')" "ks = sk_script (w_tx w)"
    and "downloading i d all http w" "h_wbuf http = WNull" "h_forward http = Some f"
    and "0 < count" "int count \<le> fl_fsize f - fl_foff f" "errs_in E (w_tx w)"
  shows "round_ok E i d all nx http' w'"
  using assms
proof (induction ks arbitrary: http w f)
  case (Cons a ks)
  obtain r f1 w1 where s: "sys_sendfile f count w = Ret (r, f1, w1)"
    and k: "(let http1 = http\<lparr>h_forward := Some f1\<rparr> in
            if r > 0 then
              (if fl_foff f1 = fl_fsize f1 then get_done (http1, w1) else Ret (MOG_NEXT_ACTIVE, http1, w1))
            else if r < 0 \<and> w_errno w1 = Some EAGAIN then Ret (MOG_NEXT_WAIT_WR, http1, w1)
            else if r < 0 \<and> w_errno w1 = Some EINTR then sendfile_loop ks count (http1, w1)
            else get_done (http1\<lparr>h_persistent := False\<rparr>, w1)) = Ret (nx, http', w')"
    using Cons.prems(1,5) by auto
  define http1 where "http1 = http\<lparr>h_forward := Some f1\<rparr>"
  note st = sendfile_step [OF s Cons.prems(3-8)]
  have h1: "h_wbuf http1 = WNull" "h_forward http1 = Some f1" "downloading i d all http1 w1"
    using Cons.prems(4) st(2) by (simp_all add: http1_def)
  note k1 = k [unfolded Let_def http1_def [symmetric]]
  consider (more) "r > 0" "fl_foff f1 \<noteq> fl_fsize f1" | (fin) "r > 0" "fl_foff f1 = fl_fsize f1"
    | (again) "r < 0" "w_errno w1 = Some EAGAIN" | (intr) "r < 0" "w_errno w1 = Some EINTR"
    | (fail) "r < 0" "w_errno w1 \<noteq> Some EAGAIN" "w_errno w1 \<noteq> Some EINTR"
    using st(3) by linarith
  then show ?case
  proof cases
    case fin
    then have "get_done (http1, w1) = Ret (nx, http', w')"
      using k1 by simp
    then show ?thesis
      by (rule get_done_round [OF _ h1(3,1) st(1) h1(2)]) (use fin in simp)
  next
    case intr
    have ks: "ks = sk_script (w_tx w1)"
      unfolding st(5) Cons.prems(2) [symmetric] by simp
    have "f1 = f"
      using st(4) intr by blast
    then show ?thesis
      using Cons.IH [OF _ ks h1(3,1,2) Cons.prems(6) _ st(1)] k1 intr Cons.prems(7) by simp
  next
    case fail
    then have g: "get_done (http1\<lparr>h_persistent := False\<rparr>, w1) = Ret (nx, http', w')"
      using k1 by simp
    show ?thesis
      by (rule get_done_round [OF g, where f = f1]) (use h1 st(1) fail st(4) in auto)
  qed (use k1 h1 st(1) in \<open>auto simp: round_ok_def\<close>)
qed simp

lemma get_in_progress_round:
  assumes "mog_http_get_in_progress (http, w) = Ret (nx, http', w')" "downloading i d all http w" "errs_in E (w_tx w)"
  shows "round_ok E i d all nx http' w'"
proof -
  obtain f where f: "h_forward http = Some f" and wb: "h_wbuf http = WNull"
    using assms(1) by (auto simp: mog_http_get_in_progress_def split: option.splits)
  have off: "0 \<le> fl_foff f" "fl_foff f \<le> fl_fsize f"
    using assms(2) f by (simp_all add: downloading_def)
  define count where "count = min (fl_fsize f - fl_foff f) max_sendfile"
  have r: "(if count = 0 then get_done (http, w) else sendfile_loop (sk_script (w_tx w)) (nat (count mod 2 ^ 64)) (http, w)) = Ret (nx, http', w')"
    using assms(1) unfolding mog_http_get_in_progress_def prod.case f option.case Let_def count_def by (elim assert_thenE)
  have c: "0 \<le> count" "count \<le> fl_fsize f - fl_foff f" "count mod 2 ^ 64 = count"
    using off by (simp_all add: count_def max_sendfile_def)
  show ?thesis
  proof (cases "count = 0")
    case True
    then have "fl_foff f = fl_fsize f"
      using off by (simp add: count_def max_sendfile_def min_def split: if_splits)
    then show ?thesis
      using get_done_round [OF _ assms(2) wb assms(3) f] r True by simp
  next
    case False
    then have "sendfile_loop (sk_script (w_tx w)) (nat count) (http, w) = Ret (nx, http', w')"
      using r c(3) by simp
    then show ?thesis
      by (rule sendfile_loop_round [OF _ refl assms(2) wb f _ _ assms(3)]) (use c False in simp_all)
  qed
qed

lemma wbuf_in_progress_round:
  assumes "http_wbuf_in_progress (http, w) = Ret (nx, http', w')" "downloading i d all http w" "errs_in E (w_tx w)"
    and "h_forward http = None \<or> h_persistent http \<or> \<not> E \<subseteq> {EAGAIN, EINTR}"
  shows "round_ok E i d all nx http' w'"
proof -
  obtain b where b: "h_wbuf http = WBuf b"
    using assms(1) by (auto simp: http_wbuf_in_progress_def split: wbuf_ptr.splits)
  obtain st wb tx where fl: "mog_tryflush b (w_tx w) = Ret (st, wb, tx)"
    using assms(1) b by (auto simp: http_wbuf_in_progress_def)
  define http1 w1 where "http1 = http\<lparr>h_wbuf := wb\<rparr>" and "w1 = w\<lparr>w_tx := tx\<rparr>"
  have ok: "wbuf_ok (WBuf b)"
    using assms(2) b by (simp add: downloading_def)
  note c = tryflush_loop_conserves [OF fl [unfolded mog_tryflush_def] ok]
  have errs: "errs_in E tx" "st = MOG_WRSTATE_ERR \<longrightarrow> \<not> E \<subseteq> {EAGAIN, EINTR}"
    using tryflush_loop_errs [OF fl [unfolded mog_tryflush_def]] assms(3) by (simp_all add: errs_in_def)
  have d1: "downloading i d all http1 w1" if "st \<noteq> MOG_WRSTATE_ERR"
    using assms(2) c that b by (cases st) (auto simp: downloading_def http1_def w1_def)
  note r = assms(1) [unfolded http_wbuf_in_progress_def prod.case b wbuf_ptr.case fl obind.simps Let_def http1_def [symmetric] w1_def [symmetric]]
  show ?thesis
  proof (cases st)
    case MOG_WRSTATE_ERR
    have "prefix (sk_sent tx) ((sk_sent (w_tx w) @ pending (WBuf b)) @ file_rest d (h_forward http))"
      by (rule prefix_prefix) (use c MOG_WRSTATE_ERR in simp)
    then have "prefix (sk_sent tx) all"
      using assms(2) b by (simp add: downloading_def)
    then show ?thesis
      using r errs MOG_WRSTATE_ERR by (auto simp: round_ok_def ended_def w1_def)
  next
    case MOG_WRSTATE_BUSY
    then show ?thesis
      using r d1 errs assms(4) by (auto simp: round_ok_def http1_def w1_def)
  next
    case MOG_WRSTATE_DONE
    have wn: "h_wbuf http1 = WNull"
      using c MOG_WRSTATE_DONE by (simp add: http1_def)
    show ?thesis
    proof (cases "h_persistent http1")
      case True
      then have "nx = MOG_NEXT_ACTIVE" "w' = w1" "http' = (if h_forward http1 = None then mog_http_reset http1 else http1)"
        using r MOG_WRSTATE_DONE by auto
      then show ?thesis
        using d1 MOG_WRSTATE_DONE downloading_reset [of i d all http1 w1] wn errs(1)
        by (auto simp: round_ok_def busy_def w1_def mog_http_reset_def mog_http_reset_parser_def)
    next
      case False
      then have "\<not> busy http1 \<or> \<not> E \<subseteq> {EAGAIN, EINTR}"
        using assms(4) wn by (auto simp: http1_def busy_def)
      moreover have "downloading i d all http1 w1"
        using d1 MOG_WRSTATE_DONE by simp
      ultimately have "ended E all w1"
        using downloading_idle downloading_prefix unfolding ended_def by blast
      then show ?thesis
        using r False MOG_WRSTATE_DONE errs(1) by (auto simp: round_ok_def w1_def)
    qed
  qed
qed

section \<open>Rounds\<close>

text \<open>A worker goes on with a response each time the socket is writable, until it is sent.\<close>

primrec download_rounds ::
  "nat \<Rightarrow> (bytes \<Rightarrow> int) \<Rightarrow> (bytes \<Rightarrow> bytes) \<Rightarrow> nat \<Rightarrow> mog_next \<times> client \<Rightarrow> (mog_next \<times> client) outcome" where
  "download_rounds 0 mtime md5 perms r = Ret r"
| "download_rounds (Suc n) mtime md5 perms r =
     (if fst r \<noteq> MOG_NEXT_CLOSE \<and> busy (fst (snd r))
      then obind (http_queue_step mtime md5 perms (snd r)) (download_rounds n mtime md5 perms)
      else Ret r)"

lemma queue_step_round:
  assumes "http_queue_step mtime md5 perms (http, w) = Ret (nx, http', w')" "busy http" "downloading i d all http w" "errs_in E (w_tx w)"
    and "h_wbuf http = WNull \<or> h_forward http = None \<or> h_persistent http \<or> \<not> E \<subseteq> {EAGAIN, EINTR}"
  shows "round_ok E i d all nx http' w'"
proof (cases "h_wbuf http = WNull")
  case True
  then obtain f where "h_forward http = Some f" "h_http_method http = MOG_HTTP_METHOD_GET"
    using assms(2,3) by (auto simp: busy_def downloading_def)
  then have "mog_http_get_in_progress (http, w) = Ret (nx, http', w')"
    using assms(1) True by (simp add: http_queue_step_def http_forward_in_progress_def)
  then show ?thesis
    by (rule get_in_progress_round [OF _ assms(3,4)])
next
  case False
  then have "http_wbuf_in_progress (http, w) = Ret (nx, http', w')"
    using assms(1) by (simp add: http_queue_step_def)
  then show ?thesis
    by (rule wbuf_in_progress_round [OF _ assms(3,4)]) (use False assms(5) in simp)
qed

lemma download_rounds_ok:
  "download_rounds n mtime md5 perms (nx, http, w) = Ret (nx', http', w') \<Longrightarrow> round_ok E i d all nx http w \<Longrightarrow>
   round_ok E i d all nx' http' w'"
proof (induction n arbitrary: nx http w)
  case (Suc n)
  show ?case
  proof (cases "nx \<noteq> MOG_NEXT_CLOSE \<and> busy http")
    case True
    then obtain nx1 http1 w1 where s: "http_queue_step mtime md5 perms (http, w) = Ret (nx1, http1, w1)"
      and k: "download_rounds n mtime md5 perms (nx1, http1, w1) = Ret (nx', http', w')"
      using Suc.prems(1) by auto
    have "round_ok E i d all nx1 http1 w1"
      by (rule queue_step_round [OF s]) (use True Suc.prems(2) in \<open>simp_all add: round_ok_def\<close>)
    then show ?thesis
      by (rule Suc.IH [OF k])
  next
    case False
    then show ?thesis
      using Suc.prems by auto
  qed
qed simp

section \<open>Opening the file\<close>

fun get_body :: "get_range \<Rightarrow> bytes \<Rightarrow> bytes" where
  "get_body Resp200 d = d"
| "get_body (Resp206 offset count) d = take (nat count) (drop (nat offset) d)"
| "get_body BadRange d = []"

fun get_hdr :: "get_range \<Rightarrow> bytes \<Rightarrow> bytes \<Rightarrow> int \<Rightarrow> mog_http \<Rightarrow> bytes" where
  "get_hdr Resp200 date modified sz http = hdr_200 date modified sz http"
| "get_hdr (Resp206 offset count) date modified sz http = hdr_206 date modified sz offset count http"
| "get_hdr BadRange date modified sz http = hdr_416 date sz http"

lemma get_range_forward:
  "get_range_of sz (http\<lparr>h_forward := x\<rparr>) = obind (get_range_of sz http) (\<lambda>(r, h). Ret (r, h\<lparr>h_forward := x\<rparr>))"
  by (simp add: get_range_of_def Let_def assert_then_def)

lemma get_range_bounds:
  assumes "get_range_of sz http = Ret (r, http')" "0 \<le> sz" "sz < 2 ^ 63" "- 1 \<le> h_range_beg http" "- 1 \<le> h_range_end http"
    "h_range_beg http < 2 ^ 63" "h_range_end http < 2 ^ 63"
  shows "\<exists>e. http' = http\<lparr>h_range_end := e\<rparr>" "r = Resp206 offset count \<Longrightarrow> 0 \<le> offset \<and> 0 < count \<and> offset + count \<le> sz"
proof -
  have "http' = http\<lparr>h_range_end := h_range_end http'\<rparr>"
    using assms(1) by (auto simp: get_range_of_def Let_def assert_then_def split: if_splits)
  then show "\<exists>e. http' = http\<lparr>h_range_end := e\<rparr>"
    by blast
  show "r = Resp206 offset count \<Longrightarrow> 0 \<le> offset \<and> 0 < count \<and> offset + count \<le> sz"
    using assms by (auto simp: get_range_of_def Let_def assert_then_def split: if_splits)
qed

text \<open>The header is sent, and the rest of the response is the range of the file.\<close>

lemma send_hdr_downloading:
  assumes "send_hdr hdr count (http, w) = Ret (n, http', w')" "errs_in E (w_tx w)"
    and f: "\<forall>f. h_forward http = Some f \<longrightarrow> h_http_method http = MOG_HTTP_METHOD_GET \<and> fl_node f = FReg i \<and>
        0 \<le> fl_foff f \<and> fl_foff f \<le> fl_fsize f \<and> fl_fsize f \<le> int (length (w_data w i))"
    and all: "all = sk_sent (w_tx w) @ hdr @ file_rest (w_data w i) (h_forward http)"
  shows "errs_in E (w_tx w') \<and> h_persistent http' = h_persistent http \<and>
    (if h_wbuf http' = WError then prefix (sk_sent (w_tx w')) all \<and> \<not> E \<subseteq> {EAGAIN, EINTR}
     else downloading i (w_data w i) all http' w' \<and> (h_wbuf http' \<noteq> WNull \<longrightarrow> EAGAIN \<in> E))"
proof -
  obtain wb tx where s: "mog_trysend True hdr (w_tx w) = Ret (wb, tx)" and r: "http' = http\<lparr>h_wbuf := wb\<rparr>" "w' = w\<lparr>w_tx := tx\<rparr>"
    using assms(1) by (auto simp: send_hdr_def Let_def)
  note e = trysend_errs [OF s assms(2)] and c = send.start_conserves [OF s]
  show ?thesis
  proof (cases "wb = WError")
    case True
    then obtain k where "sk_sent tx = sk_sent (w_tx w) @ take k hdr"
      using c by (auto simp: wr_conserves_def)
    then have "prefix (sk_sent tx) all"
      unfolding all by (metis append_take_drop_id append_assoc prefixI)
    then show ?thesis
      using e True r by simp
  next
    case False
    then have "wbuf_ok wb" "sk_sent tx @ pending wb = sk_sent (w_tx w) @ hdr"
      using c by (simp_all add: wr_conserves_def)
    then have "sk_sent tx @ pending wb @ file_rest (w_data w i) (h_forward http) = all"
      unfolding all by (metis append_assoc)
    then show ?thesis
      using e False r f \<open>wbuf_ok wb\<close> by (simp add: downloading_def)
  qed
qed

lemma close_fields [simp]:
  "w_data (mog_file_close f w) = w_data w" "w_tx (mog_file_close f w) = w_tx w" "w_date (mog_file_close f w) = w_date w"
  by (simp_all add: mog_file_close_def)

lemma resp_hdr_downloading:
  assumes "http_get_resp_hdr t sz (http, w) = Ret (n, http', w')" "errs_in E (w_tx w)"
    and date: "mog_http_date MOG_HTTPDATE_CAPA t = Ret modified"
    and range: "get_range_of sz http = Ret (r, http_r)" "sz = int (length (w_data w i))" "sz < 2 ^ 63"
      "- 1 \<le> h_range_beg http" "- 1 \<le> h_range_end http" "h_range_beg http < 2 ^ 63" "h_range_end http < 2 ^ 63"
    and f: "h_forward http = Some f" "fl_node f = FReg i" "fl_foff f = 0" "fl_fsize f = sz" "h_http_method http = MOG_HTTP_METHOD_GET"
    and all: "all = sk_sent (w_tx w) @ get_hdr r (w_date w) modified sz http_r @ get_body r (w_data w i)"
  shows "errs_in E (w_tx w') \<and> h_persistent http' = h_persistent http \<and>
    (if h_wbuf http' = WError then prefix (sk_sent (w_tx w')) all \<and> \<not> E \<subseteq> {EAGAIN, EINTR}
     else downloading i (w_data w i) all http' w' \<and> (h_wbuf http' \<noteq> WNull \<longrightarrow> EAGAIN \<in> E))"
proof -
  obtain e where hr: "http_r = http\<lparr>h_range_end := e\<rparr>"
    using get_range_bounds(1) [OF range(1) _ range(3-7)] range(2) by auto
  note b = get_range_bounds(2) [OF range(1) _ range(3-7)]
  note h = assms(1) [unfolded http_get_resp_hdr_def prod.case date range(1) obind.simps Let_def]
  show ?thesis
  proof (cases r)
    case Resp200
    have "send_hdr (hdr_200 (w_date w) modified sz http_r) sz (http_r, w) = Ret (n, http', w')"
      using h Resp200 by (auto simp: assert_then_def split: if_splits)
    from send_hdr_downloading [OF this assms(2)] show ?thesis
      using f range(2) hr all Resp200 by (simp add: file_rest_def)
  next
    case (Resp206 offset count)
    define http2 where "http2 = http_r\<lparr>h_forward := map_option (\<lambda>f. f\<lparr>fl_foff := offset, fl_fsize := wrap64 (offset + count)\<rparr>) (h_forward http_r)\<rparr>"
    have o: "0 \<le> offset" "0 < count" "offset + count \<le> sz" "wrap64 (offset + count) = offset + count"
      using b [OF _ Resp206] range(2,3) by simp_all
    have "send_hdr (hdr_206 (w_date w) modified sz offset count http2) count (http2, w) = Ret (n, http', w')"
      using h Resp206 by (auto simp: assert_then_def http2_def split: if_splits)
    from send_hdr_downloading [OF this assms(2)] show ?thesis
      using f range(2) hr all Resp206 o by (simp add: file_rest_def http2_def hdr_206_def connection_value_def)
  next
    case BadRange
    have "send_hdr (hdr_416 (w_date w) sz http_r) 0 (http_r\<lparr>h_forward := None\<rparr>, mog_file_close f w) = Ret (n, http', w')"
      using h BadRange hr f(1) by (auto simp: assert_then_def split: if_splits)
    from send_hdr_downloading [OF this, of E i, unfolded close_fields] show ?thesis
      using assms(2) hr all BadRange by (simp add: file_rest_def)
  qed
qed

lemma get_open_regular:
  assumes "mog_valid_path path" "path = take (h_path_end http - h_path_tip http) (drop (h_path_tip http) buf)"
      "h_path_tip http < h_path_end http" "hd path = CHR ''/''" "1 < length path"
    and "h_http_method http = MOG_HTTP_METHOD_GET" "h_forward http = None"
    and "w_names w (path_comps path) = Some i" "path_comps path \<notin> w_dirs w" "w_fs w = None # None # fs"
  shows "mog_http_get_open mtime buf (http, w) =
    obind (http_get_resp_hdr (mtime path) (int (length (w_data w i)))
      (http\<lparr>h_forward := Some (file_init (FReg i) (int (length (w_data w i))))\<rparr>, w\<lparr>w_nopen := w_nopen w + 1, w_fs := fs\<rparr>))
      (\<lambda>(_, s1). Ret s1)"
proof -
  have p: "http_path http buf w = Ret (Some path, w)"
    using assms(1-3,6) by (simp add: http_path_def mog_http_path_def Let_def)
  have "path \<noteq> []" "tl path \<noteq> []"
    using assms(5) by (cases path; auto)+
  then show ?thesis
    using assms unfolding mog_http_get_open_def prod.case p obind.simps Let_def
    by (simp add: mog_file_open_read_def mog_open_read_def open_read_def fs_call_def sys_open_read_def lookup_node_def Let_def
        sys_fstat_def file_init_def)
qed

lemma get_hdr_forward: "get_hdr r date modified sz (http\<lparr>h_forward := x\<rparr>) = get_hdr r date modified sz http"
  by (cases r) (simp_all add: hdr_200_def hdr_206_def hdr_416_def connection_value_def)

lemma downloading_defer:
  assumes "http_defer_rbuf i buf (http, w) = Ret (http', w')" "downloading j d all http w"
  shows "downloading j d all http' w' \<and> h_wbuf http' = h_wbuf http \<and> h_forward http' = h_forward http \<and>
    h_persistent http' = h_persistent http \<and> h_http_method http' = h_http_method http \<and> w_tx w' = w_tx w"
  using defer_effect [OF assms(1)] assms(2) by (elim exE conjE) (simp add: downloading_def)

lemma answer_round:
  assumes "http_process_client mtime md5 perms buf (http, w) = Ret (http0, w0)"
    and "http_answer mtime md5 perms k buf (http, w) = Ret (nx1, http1, w1)"
    and s: "round_ok F i d all (if h_wbuf http0 = WError then MOG_NEXT_CLOSE else MOG_NEXT_ACTIVE) http0 w0"
  shows "round_ok F i d all nx1 http1 w1"
proof -
  note r = assms(2) [unfolded http_answer_def assms(1) obind.simps fst_conv]
  have d: "downloading i d all http0 w0" "errs_in F (w_tx w0)"
    "h_wbuf http0 = WNull \<or> h_forward http0 = None \<or> h_persistent http0 \<or> \<not> F \<subseteq> {EAGAIN, EINTR}" if "h_wbuf http0 \<noteq> WError"
    using s that by (simp_all add: round_ok_def)
  consider "h_wbuf http0 = WError" | "h_wbuf http0 \<noteq> WError" "h_wbuf http0 = WNull" "h_forward http0 = None" "\<not> h_persistent http0"
    | http3 w3 where "h_wbuf http0 \<noteq> WError" "http_defer_rbuf k buf (http0, w0) = Ret (http3, w3)"
    using r by (cases "h_wbuf http0 = WError"; cases "h_wbuf http0 = WNull"; cases "h_forward http0 = None"; cases "h_persistent http0") auto
  then show ?thesis
  proof cases
    case 1
    then show ?thesis
      using r s by simp
  next
    case 2
    then show ?thesis
      using r d downloading_idle [OF d(1)] by (auto simp: round_ok_def ended_def busy_def)
  next
    case (3 http3 w3)
    note d3 = downloading_defer [OF 3(2) d(1) [OF 3(1)]]
    have a: "downloading i d all http3 w3" "errs_in F (w_tx w3)"
      "h_wbuf http3 = WNull \<or> h_forward http3 = None \<or> h_persistent http3 \<or> \<not> F \<subseteq> {EAGAIN, EINTR}"
      using d3 d(2,3) [OF 3(1)] by simp_all
    show ?thesis
    proof (cases "busy http3")
      case False
      then show ?thesis
        using r 3 d3 a downloading_reset [OF a(1)] downloading_idle [OF a(1)]
        by (auto simp: busy_def round_ok_def ended_def mog_http_reset_def mog_http_reset_parser_def split: if_splits)
    next
      case True
      show ?thesis
      proof (cases "h_wbuf http0 = WNull")
        case False
        then show ?thesis
          using r 3 d3 a by (auto simp: round_ok_def)
      next
        case wn: True
        then have "http_forward_in_progress md5 perms (http3, w3) = Ret (nx1, http1, w1)"
          using r 3 d3 True by (auto simp: busy_def)
        then have "mog_http_get_in_progress (http3, w3) = Ret (nx1, http1, w1)"
          using a(1) True wn d3 by (auto simp: http_forward_in_progress_def downloading_def busy_def)
        then show ?thesis
          by (rule get_in_progress_round [OF _ a(1,2)])
      qed
    qed
  qed
qed

text \<open>
  C2: A GET request for a regular file is answered with the header and exactly the bytes of the file that
  the range, if there is one, asks for. However the header and the file are cut by the socket, at every moment
  the client has received a prefix of this response; and when the server is done with the request and the socket
  reported no error, it has received all of it. On a connection that closes after the response this needs that the
  socket took the header without making the server wait.
\<close>

theorem get_sends_file:
  assumes "http_answer mtime md5 perms k buf (http, w) = Ret (nx1, http1, w1)"
    and "download_rounds n mtime md5 perms (nx1, http1, w1) = Ret (nx, http', w')"
    and path: "mog_valid_path path" "path = take (h_path_end http - h_path_tip http) (drop (h_path_tip http) buf)"
      "h_path_tip http < h_path_end http" "hd path = CHR ''/''" "1 < length path"
    and http: "h_http_method http = MOG_HTTP_METHOD_GET" "h_forward http = None"
      "- 1 \<le> h_range_beg http" "- 1 \<le> h_range_end http" "h_range_beg http < 2 ^ 63" "h_range_end http < 2 ^ 63"
    and names: "w_names w (path_comps path) = Some i" "path_comps path \<notin> w_dirs w" "w_fs w = None # None # fs"
      "int (length (w_data w i)) < 2 ^ 63"
    and resp: "mog_http_date MOG_HTTPDATE_CAPA (mtime path) = Ret modified" "get_range_of (int (length (w_data w i))) http = Ret (r, http_r)"
    and errs: "errs_in E (w_tx w)"
    and all: "all = sk_sent (w_tx w) @ get_hdr r (w_date w) modified (int (length (w_data w i))) http_r @ get_body r (w_data w i)"
  shows "prefix (sk_sent (w_tx w')) all \<and>
    ((nx = MOG_NEXT_CLOSE \<or> \<not> busy http') \<and> E \<subseteq> {EAGAIN, EINTR} \<and> (h_persistent http \<or> EAGAIN \<notin> E) \<longrightarrow>
     sk_sent (w_tx w') = all)"
proof -
  define F where "F = (if h_persistent http \<or> EAGAIN \<notin> E then E else insert EIO E)"
  let ?f = "file_init (FReg i) (int (length (w_data w i)))" and ?w = "w\<lparr>w_nopen := w_nopen w + 1, w_fs := fs\<rparr>"
  obtain http0 w0 where g: "mog_http_get_open mtime buf (http, w) = Ret (http0, w0)" and p: "http_process_client mtime md5 perms buf (http, w) = Ret (http0, w0)"
    using assms(1) http(1) by (auto simp: http_answer_def http_process_client_def)
  obtain m where h: "http_get_resp_hdr (mtime path) (int (length (w_data w i))) (http\<lparr>h_forward := Some ?f\<rparr>, ?w) = Ret (m, http0, w0)"
    using g get_open_regular [OF path http(1,2) names(1-3)] by auto
  have rg: "get_range_of (int (length (w_data w i))) (http\<lparr>h_forward := Some ?f\<rparr>) = Ret (r, http_r\<lparr>h_forward := Some ?f\<rparr>)"
    unfolding get_range_forward resp(2) by simp
  have all': "all = sk_sent (w_tx ?w) @ get_hdr r (w_date ?w) modified (int (length (w_data w i))) (http_r\<lparr>h_forward := Some ?f\<rparr>) @
      get_body r (w_data ?w i)"
    unfolding all get_hdr_forward by simp
  have f: "fl_node ?f = FReg i" "fl_foff ?f = 0" "fl_fsize ?f = int (length (w_data w i))"
    by (simp_all add: file_init_def)
  have errsF: "errs_in F (w_tx ?w)"
    using errs by (auto simp: errs_in_def F_def)
  have "errs_in F (w_tx w0) \<and> h_persistent http0 = h_persistent (http\<lparr>h_forward := Some ?f\<rparr>) \<and>
    (if h_wbuf http0 = WError then prefix (sk_sent (w_tx w0)) all \<and> \<not> F \<subseteq> {EAGAIN, EINTR}
     else downloading i (w_data ?w i) all http0 w0 \<and> (h_wbuf http0 \<noteq> WNull \<longrightarrow> EAGAIN \<in> F))"
    by (rule resp_hdr_downloading [OF h errsF resp(1) rg _ names(4) _ _ _ _ _ f _ all']) (use http in simp_all)
  then have s0: "round_ok F i (w_data w i) all (if h_wbuf http0 = WError then MOG_NEXT_CLOSE else MOG_NEXT_ACTIVE) http0 w0"
    by (auto simp: round_ok_def ended_def F_def)
  have "round_ok F i (w_data w i) all nx1 http1 w1"
    using answer_round [OF p assms(1) s0] .
  from download_rounds_ok [OF assms(2) this] have ok: "round_ok F i (w_data w i) all nx http' w'" .
  then have "prefix (sk_sent (w_tx w')) all"
    by (auto simp: round_ok_def ended_def downloading_prefix split: if_splits)
  moreover have "sk_sent (w_tx w') = all" if "nx = MOG_NEXT_CLOSE \<or> \<not> busy http'" "E \<subseteq> {EAGAIN, EINTR}" "h_persistent http \<or> EAGAIN \<notin> E"
    using ok that downloading_idle by (auto simp: round_ok_def ended_def F_def split: if_splits)
  ultimately show ?thesis
    by blast
qed

text \<open>A concrete download of a range, over a socket that stalls in the header and is interrupted in the body.\<close>

definition demo_get_buf :: bytes where
  "demo_get_buf = ''GET /dev1/f HTTP/1.1'' @ crlf @ crlf"

definition demo_get :: mog_http where
  "demo_get = demo_http\<lparr>h_http_method := MOG_HTTP_METHOD_GET, h_persistent := True, h_path_tip := 4, h_path_end := 11, h_offset := 24,
     h_has_range := True, h_range_beg := 1, h_range_end := 3\<rparr>"

definition demo_get_world :: world where
  "demo_get_world = demo_world\<lparr>w_names := [[''dev1'', ''f''] \<mapsto> 0], w_data := (\<lambda>_. '''')(0 := ''hello''), w_fs := [None, None],
     w_tx := \<lparr>sk_sent = '''', sk_script = [Wrote 4, WErr EAGAIN, Wrote 999, Wrote 2, WErr EINTR, Wrote 9]\<rparr>\<rparr>"

lemma demo_date: "mog_http_date MOG_HTTPDATE_CAPA 0 = Ret ''Thu, 01 Jan 1970 00:00:00 GMT''"
proof -
  have "year_of 1970 0 = (1970, 0)"
    by (simp add: year_of.simps year_days_def)
  then have "gmtime 0 = \<lparr>tm_sec = 0, tm_min = 0, tm_hour = 0, tm_mday = 1, tm_mon = 0, tm_year = 70, tm_wday = 4\<rparr>"
    by (simp add: gmtime_def month_days_def)
  moreover have "nat_str 10 0 = ''0''" "nat_str 10 (Suc 0) = ''1''" "nat_str 10 1970 = ''1970''"
    by (simp_all add: nat_str.simps)
  ultimately show ?thesis
    by (simp add: mog_http_date_def MOG_HTTPDATE_CAPA_def Let_def fmt_02d_def fmt_4d_def int_str_def pad_zero_def week_def months_def)
qed

lemma demo_download:
  "\<exists>nx1 http1 w1 nx http' w'. http_answer (\<lambda>_. 0) md5 perms 0 demo_get_buf (demo_get, demo_get_world) = Ret (nx1, http1, w1) \<and>
     download_rounds (Suc (Suc (Suc 0))) (\<lambda>_. 0) md5 perms (nx1, http1, w1) = Ret (nx, http', w') \<and> \<not> busy http'"
proof -
  have n: "nat_str 10 5 = ''5''" "nat_str 10 3 = ''3''" "nat_str 10 (Suc 0) = ''1''"
    by (simp_all add: nat_str.simps)
  have "get_range_of 5 demo_get = Ret (Resp206 1 3, demo_get)"
    by (simp add: get_range_of_def demo_get_def Let_def)
  then show ?thesis
    unfolding http_answer_def http_process_client_def
    by (simp add: Let_def demo_get_def demo_http_def demo_get_world_def demo_world_def demo_get_buf_def open_eval path_eval
      mog_http_get_open_def mog_file_open_read_def mog_open_read_def open_read_def sys_open_read_def lookup_node_def sys_fstat_def
      http_get_resp_hdr_def demo_date [unfolded MOG_HTTPDATE_CAPA_def] get_range_of_def hdr_206_def int_str_def n connection_value_def send_hdr_def mog_trysend_def
      wbuf_new_def wbuf_newv_def mog_tryflush_def http_wbuf_in_progress_def mog_http_get_in_progress_def max_sendfile_def
      sys_sendfile_def get_done_def busy_def mog_file_close_def set_errno_def
      http_defer_rbuf_def mog_rbuf_free_and_null_def mog_rbuf_free_def http_forward_in_progress_def http_queue_step_def crlf_def fsbuf_size_def
      MOG_RBUF_MAX_SIZE_def MOG_HTTPDATE_CAPA_def mog_http_reset_def mog_http_reset_parser_def del: obind_Ret)
qed

theorem get_sends_file_witness:
  "\<exists>nx http' w'. obind (http_answer (\<lambda>_. 0) (\<lambda>_. '''') 420 0 demo_get_buf (demo_get, demo_get_world))
       (download_rounds (Suc (Suc (Suc 0))) (\<lambda>_. 0) (\<lambda>_. '''') 420) = Ret (nx, http', w') \<and>
     sk_sent (w_tx w') = hdr_206 (w_date demo_world) (w_date demo_world) 5 1 3 demo_get @ ''ell''"
proof -
  obtain nx1 http1 w1 nx http' w' where
    a: "http_answer (\<lambda>_. 0) (\<lambda>_. '''') 420 0 demo_get_buf (demo_get, demo_get_world) = Ret (nx1, http1, w1)" and
    u: "download_rounds (Suc (Suc (Suc 0))) (\<lambda>_. 0) (\<lambda>_. '''') 420 (nx1, http1, w1) = Ret (nx, http', w')" and b: "\<not> busy http'"
    using demo_download by blast
  have p: "mog_valid_path ''/dev1/f''" "''/dev1/f'' = take (h_path_end demo_get - h_path_tip demo_get) (drop (h_path_tip demo_get) demo_get_buf)"
      "h_path_tip demo_get < h_path_end demo_get" "hd ''/dev1/f'' = CHR ''/''" "1 < length ''/dev1/f''"
    by (simp_all add: demo_get_def demo_get_buf_def mog_valid_path_def path_traversal_found_def path_traversal_step_def)
  have h: "h_http_method demo_get = MOG_HTTP_METHOD_GET" "h_forward demo_get = None" "- 1 \<le> h_range_beg demo_get" "- 1 \<le> h_range_end demo_get"
      "h_range_beg demo_get < 2 ^ 63" "h_range_end demo_get < 2 ^ 63" "h_persistent demo_get"
    by (simp_all add: demo_get_def demo_http_def)
  have w: "w_names demo_get_world (path_comps ''/dev1/f'') = Some 0" "path_comps ''/dev1/f'' \<notin> w_dirs demo_get_world"
      "w_fs demo_get_world = None # None # []" "int (length (w_data demo_get_world 0)) < 2 ^ 63"
      "errs_in {EAGAIN, EINTR} (w_tx demo_get_world)" "w_data demo_get_world 0 = ''hello''" "sk_sent (w_tx demo_get_world) = ''''"
      "w_date demo_get_world = w_date demo_world"
    by (simp_all add: demo_get_world_def path_comps_def demo_world_def errs_in_def)
  have r: "get_range_of (int (length (w_data demo_get_world 0))) demo_get = Ret (Resp206 1 3, demo_get)"
    unfolding w(6) by (simp add: get_range_of_def demo_get_def Let_def)
  have d: "mog_http_date MOG_HTTPDATE_CAPA 0 = Ret (w_date demo_world)"
    by (simp add: demo_date demo_world_def)
  show ?thesis
    using get_sends_file [OF a u p h(1-6) w(1-4) d r w(5) refl] a u b h(7) unfolding w(6-8) by simp
qed

end
