(* ===== verification/Mog_Http_Faults.thy ===== *)
theory Mog_Http_Faults
  imports Mog_Get_Serve
begin

text \<open>
  Requests the program does not handle as it means to: responses that are cut short and assertions that
  a client can make fail.
\<close>

section \<open>Closing connections\<close>

text \<open>
  C33: When the response to a GET request has to wait for the socket in the middle of its header and the
  connection is not persistent, the file is never sent: the round that completes the header closes the
  connection, although \<^verbatim>\<open>Content-Length\<close> promised the file, and leaves the file open.
\<close>

theorem blocked_header_loses_file:
  assumes "h_wbuf http = WBuf b" "wbuf_ok (WBuf b)" "h_forward http = Some f" "\<not> h_persistent http" "h_rbuf http = None"
    and "wb_len b - wb_off b \<le> n" "sk_script (w_tx w) = Wrote n # ks"
  shows "\<exists>http' w'. mog_http_queue_step mtime md5 perms (http, w) = Ret (MOG_NEXT_CLOSE, http', w') \<and>
    sk_sent (w_tx w') = sk_sent (w_tx w) @ pending (WBuf b) \<and> h_forward http' = Some f \<and> w_nopen w' = w_nopen w"
  using assms
  by (simp add: mog_http_queue_step_def http_queue_step_def http_wbuf_in_progress_def mog_tryflush_def Let_def min_def
      http_close_def mog_rbuf_free_def)

theorem blocked_header_loses_file_witness:
  "\<exists>http' w'. mog_http_queue_step (\<lambda>_. 0) (\<lambda>_. '''') 420
      (demo_get\<lparr>h_persistent := False, h_wbuf := WBuf \<lparr>wb_len = 6, wb_off = 4, wb_buf = ''HTTP/1''\<rparr>, h_forward := Some (file_init (FReg 0) 5)\<rparr>,
       demo_get_world\<lparr>w_tx := \<lparr>sk_sent = ''HTTP'', sk_script = [Wrote 9]\<rparr>\<rparr>) = Ret (MOG_NEXT_CLOSE, http', w') \<and>
     sk_sent (w_tx w') = ''HTTP/1''"
  using blocked_header_loses_file [of "demo_get\<lparr>h_persistent := False, h_wbuf := WBuf \<lparr>wb_len = 6, wb_off = 4, wb_buf = ''HTTP/1''\<rparr>,
      h_forward := Some (file_init (FReg 0) 5)\<rparr>" "\<lparr>wb_len = 6, wb_off = 4, wb_buf = ''HTTP/1''\<rparr>" "file_init (FReg 0) 5" 9
      "demo_get_world\<lparr>w_tx := \<lparr>sk_sent = ''HTTP'', sk_script = [Wrote 9]\<rparr>\<rparr>" "[]" "\<lambda>_. 0" "\<lambda>_. ''''" 420]
  by (auto simp: demo_get_def demo_http_def)

text \<open>The parser refuses a request whose first character starts no method.\<close>

lemma parse_bad_first:
  assumes "h_wbuf http = WNull" "h_offset http = 0" "h_cs http = 1" "c \<notin> set ''DGHMP''"
  shows "\<exists>http1. mog_http_parse (c # d) (http, w) = Ret (MOG_PARSER_ERROR, http1, w\<lparr>w_errno := None\<rparr>) \<and> h_wbuf http1 = WNull \<and>
    h_rbuf http1 = h_rbuf http"
proof -
  obtain k where k: "chunk_fuel (length (c # d)) = Suc k"
    by (simp add: chunk_fuel_def)
  have "sc (CHR ''D'') = 68" "sc (CHR ''G'') = 71" "sc (CHR ''H'') = 72" "sc (CHR ''M'') = 77" "sc (CHR ''P'') = 80"
    by (simp_all add: sc_def)
  then have "sc c \<noteq> 68" "sc c \<noteq> 71" "sc c \<noteq> 72" "sc c \<noteq> 77" "sc c \<noteq> 80"
    using assms(4) sc_eq [of c] by (metis list.set_intros)+
  then have "row_lookup [(68, 68, Tr 0), (71, 71, Tr 2), (72, 72, Tr 3), (77, 77, Tr 4), (80, 80, Tr 5)] (St 0) (sc c) = St 0"
    by auto
  then show ?thesis
    unfolding mog_http_parse_def k
    by (simp add: assms http_trans_def rows_GET goto_lab_def goto_st_def st0_def Let_def)
qed

text \<open>
  C32: A client that sends something that is not a request while its socket accepts no more output stops the
  server: the error response is buffered, the connection is closed all the same, and closing it with a
  buffered response fails an assertion.
\<close>

theorem blocked_error_response_aborts:
  assumes http: "h_wbuf http = WNull" "h_forward http = None" "h_rbuf http = None" "h_offset http = 0" "h_cs http = 1"
    and w: "rh_tls (w_heap w) = None" "w_rd w = RSome k # rs" "w_rx w = c # rx" "c \<notin> set ''DGHMP''"
    and tx: "sk_script (w_tx w) = WErr EAGAIN # ks"
  shows "mog_http_queue_step mtime md5 perms (http, w) = Abort"
proof -
  let ?b = "\<lparr>rb_rcapa = MOG_RBUF_BASE_SIZE, rb_rsize = None, rb_rptr = ''''\<rparr>" and ?i = "rh_next (w_heap w)"
  let ?hp = "(w_heap w)\<lparr>rh_bufs := (rh_bufs (w_heap w))(?i \<mapsto> ?b), rh_next := ?i + 1, rh_tls := Some ?i\<rparr>"
  have g: "mog_rbuf_get MOG_RBUF_BASE_SIZE (w_heap w) = Ret (?i, ?hp)"
    by (simp add: mog_rbuf_get_def w(1) rbuf_replace_def mog_rbuf_new_def rbuf_alloc_def MOG_RBUF_BASE_SIZE_def)
  have rd: "sys_read MOG_RBUF_BASE_SIZE (w\<lparr>w_heap := ?hp\<rparr>) = Ret (RdData (c # take (min (max 1 k) MOG_RBUF_BASE_SIZE - 1) rx),
      w\<lparr>w_heap := ?hp, w_rd := rs, w_rx := drop (min (max 1 k) MOG_RBUF_BASE_SIZE) (c # rx)\<rparr>)"
    by (simp add: sys_read_def w(2,3) Let_def MOG_RBUF_BASE_SIZE_def take_Cons')
  define buf where "buf = c # take (min (max 1 k) MOG_RBUF_BASE_SIZE - 1) rx"
  define w2 where "w2 = w\<lparr>w_rd := rs, w_rx := drop (min (max 1 k) MOG_RBUF_BASE_SIZE) (c # rx), w_heap := rbuf_store ?i buf ?hp\<rparr>"
  have pos: "0 < MOG_RBUF_BASE_SIZE"
    by (simp add: MOG_RBUF_BASE_SIZE_def)
  have "http_queue_step mtime md5 perms (http, w) = http_reread (w_rd w) mtime md5 perms ?i 0 (http, w\<lparr>w_heap := ?hp\<rparr>)"
    using http pos by (simp add: http_queue_step_def g)
  also have "\<dots> = http_parse_step mtime md5 perms (http_reread rs mtime md5 perms) ?i buf (http, w2)"
    using http rd by (simp add: w(2) buf_def w2_def Let_def)
  finally have q: "http_queue_step mtime md5 perms (http, w) = \<dots>" .
  obtain http1 where p: "mog_http_parse buf (http, w2) = Ret (MOG_PARSER_ERROR, http1, w2\<lparr>w_errno := None\<rparr>)"
    and h1: "h_wbuf http1 = WNull" "h_rbuf http1 = None"
    using parse_bad_first [OF http(1,4,5) w(4)] http(3) unfolding buf_def by metis
  have "\<exists>http2 w3 b. mog_http_resp0 ''400 Bad Request'' False (http1, w2\<lparr>w_errno := None\<rparr>) = Ret (http2, w3) \<and>
      h_wbuf http2 = WBuf b \<and> h_rbuf http2 = None"
    by (simp add: mog_http_resp0_def fsbuf_size_def h1 resp_bytes_def mog_trywritev_def w2_def tx)
  then show ?thesis
    by (auto simp: mog_http_queue_step_def q http_parse_step_def p err507or400_def err400_def http_close_def mog_rbuf_free_def)
qed

theorem blocked_error_response_aborts_witness:
  "mog_http_queue_step (\<lambda>_. 0) (\<lambda>_. '''') 420 (mog_http_init demo_http,
     demo_world\<lparr>w_rd := [RSome 3], w_rx := ''xyz'', w_tx := \<lparr>sk_sent = '''', sk_script = [WErr EAGAIN]\<rparr>\<rparr>) = Abort"
  using blocked_error_response_aborts [of "mog_http_init demo_http"
      "demo_world\<lparr>w_rd := [RSome 3], w_rx := ''xyz'', w_tx := \<lparr>sk_sent = '''', sk_script = [WErr EAGAIN]\<rparr>\<rparr>" 3 "[]" "CHR ''x''" "''yz''"]
  by (simp add: demo_world_def mog_http_init_def mog_http_reset_parser_def http_parser_start_def)

end
