(* ===== verification/Mog_Fdmap.thy ===== *)
theory Mog_Fdmap
  imports Mog_Prelude
begin

text \<open>
  \<^verbatim>\<open>fdmap.c\<close>: the table of descriptors. Slots are allocated in heaps of 256 as descriptors get larger and are
  never freed, so a slot is found by its number alone. The state behind the slot is kept by the component
  that owns the descriptor; here a slot is its type and its number. The program calls these functions
  under locks, one at a time.
\<close>

section \<open>Model\<close>

datatype mog_fd_type =
    MOG_FD_TYPE_UNUSED | MOG_FD_TYPE_HTTP | MOG_FD_TYPE_HTTPGET | MOG_FD_TYPE_MGMT | MOG_FD_TYPE_IOSTAT
  | MOG_FD_TYPE_SELFWAKE | MOG_FD_TYPE_SELFPIPE | MOG_FD_TYPE_ACCEPT | MOG_FD_TYPE_FILE | MOG_FD_TYPE_QUEUE
  | MOG_FD_TYPE_SVC

record mog_fd =
  mf_type :: mog_fd_type
  mf_fd :: nat

definition FD_PER_HEAP :: nat where
  "FD_PER_HEAP = 256"

text \<open>
  The heaps in their order, so that \<^verbatim>\<open>fd_heaps\<close> is their number; \<open>fm_slots\<close> is the number of entries of the
  array \<^verbatim>\<open>fd_map\<close>, \<open>None\<close> before \<^verbatim>\<open>fd_map_init\<close>, and \<open>fm_max_fd\<close> is \<^verbatim>\<open>max_fd\<close>. An access outside the allocated
  memory is \<open>Abort\<close>, and so is a \<^verbatim>\<open>max_fd\<close> that would pass \<^verbatim>\<open>INT_MAX\<close>. Allocation succeeds.
\<close>

record fdmap =
  fm_slots :: "nat option"
  fm_heaps :: "mog_fd list list"
  fm_max_fd :: nat

definition fdmap_empty :: fdmap where
  "fdmap_empty = \<lparr>fm_slots = None, fm_heaps = [], fm_max_fd = 0\<rparr>"

definition aref :: "nat \<Rightarrow> fdmap \<Rightarrow> mog_fd outcome" where
  "aref fd m =
     (let h = fd div FD_PER_HEAP; i = fd mod FD_PER_HEAP in
      assert_then (h < length (fm_heaps m) \<and> i < length (fm_heaps m ! h)) (Ret (fm_heaps m ! h ! i)))"

text \<open>The assignment \<^verbatim>\<open>mfd->fd_type = ty\<close> for \<^verbatim>\<open>mfd = aref(p)\<close>.\<close>

definition set_type :: "nat \<Rightarrow> mog_fd_type \<Rightarrow> fdmap \<Rightarrow> fdmap" where
  "set_type p ty m =
     (let h = p div FD_PER_HEAP; i = p mod FD_PER_HEAP; b = fm_heaps m ! h in
      m\<lparr>fm_heaps := (fm_heaps m)[h := b[i := (b ! i)\<lparr>mf_type := ty\<rparr>]]\<rparr>)"

text \<open>\<open>open_max\<close> is what \<^verbatim>\<open>sysconf(_SC_OPEN_MAX)\<close> returns.\<close>

definition fd_map_init :: "nat \<Rightarrow> fdmap \<Rightarrow> fdmap outcome" where
  "fd_map_init open_max m =
     assert_then (fm_slots m = None) (Ret (m\<lparr>fm_slots := Some (open_max div FD_PER_HEAP + 1)\<rparr>))"

definition new_heap :: "nat \<Rightarrow> mog_fd list" where
  "new_heap fd_max = map (\<lambda>i. \<lparr>mf_type = MOG_FD_TYPE_UNUSED, mf_fd = fd_max + i\<rparr>) [0..<FD_PER_HEAP]"

text \<open>\<^verbatim>\<open>INT_MAX\<close>.\<close>

definition int_max :: nat where
  "int_max = 2147483647"

definition add_heap :: "fdmap \<Rightarrow> fdmap" where
  "add_heap m = m\<lparr>fm_heaps := fm_heaps m @ [new_heap (fm_max_fd m)], fm_max_fd := fm_max_fd m + FD_PER_HEAP\<rparr>"

function grow_loop :: "nat \<Rightarrow> nat \<Rightarrow> fdmap \<Rightarrow> fdmap outcome" where
  "grow_loop slots fd m =
     (if fd < fm_max_fd m then Ret m
      else if length (fm_heaps m) < slots \<and> fm_max_fd m + FD_PER_HEAP \<le> int_max
      then grow_loop slots fd (add_heap m)
      else Abort)"
  by pat_completeness auto
termination
  by (relation "measure (\<lambda>(slots, fd, m). Suc fd - fm_max_fd m)") (auto simp: FD_PER_HEAP_def add_heap_def)

declare grow_loop.simps [simp del]

definition grow_ref :: "nat \<Rightarrow> nat \<Rightarrow> fdmap \<Rightarrow> (mog_fd \<times> fdmap) outcome" where
  "grow_ref open_max fd m =
     assert_then (fd < int_max)
      (obind (if fm_slots m = None then fd_map_init open_max m else Ret m) (\<lambda>m1.
        obind (grow_loop (the (fm_slots m1)) fd m1) (\<lambda>m2. obind (aref fd m2) (\<lambda>mfd. Ret (mfd, m2)))))"

definition mog_fd_get :: "nat \<Rightarrow> int \<Rightarrow> fdmap \<Rightarrow> (mog_fd \<times> fdmap) outcome" where
  "mog_fd_get open_max fd m =
     assert_then (fd \<ge> 0)
      (if nat fd < fm_max_fd m then obind (aref (nat fd) m) (\<lambda>mfd. Ret (mfd, m)) else grow_ref open_max (nat fd) m)"

definition mog_fd_init :: "nat \<Rightarrow> int \<Rightarrow> mog_fd_type \<Rightarrow> fdmap \<Rightarrow> fdmap outcome" where
  "mog_fd_init open_max fd fd_type m =
     obind (mog_fd_get open_max fd m) (\<lambda>(mfd, m1).
       assert_then (int (mf_fd mfd) = fd) (Ret (set_type (nat fd) fd_type m1)))"

text \<open>
  \<^verbatim>\<open>mog_fd_put\<close> on the slot at position \<open>p\<close>, which is the pointer \<^verbatim>\<open>mfd\<close>. The second result is the descriptor it closes.
\<close>

definition mog_fd_put :: "nat \<Rightarrow> fdmap \<Rightarrow> (fdmap \<times> nat) outcome" where
  "mog_fd_put p m =
     obind (aref p m) (\<lambda>mfd.
       assert_then (mf_fd mfd < fm_max_fd m)
        (assert_then (mf_fd mfd = p) (Ret (set_type p MOG_FD_TYPE_UNUSED m, mf_fd mfd))))"

text \<open>
  \<^verbatim>\<open>mog_fdmap_requeue\<close>: the descriptors it hands to the queue for quitting, in their order, and those of
  side channel clients, which lose their priority. The number of clients is the length of the first list.
\<close>

primrec requeue_loop :: "nat \<Rightarrow> fdmap \<Rightarrow> (nat list \<times> nat list) outcome" where
  "requeue_loop 0 m = Ret ([], [])"
| "requeue_loop (Suc fd) m =
     obind (aref fd m) (\<lambda>mfd.
       obind (requeue_loop fd m) (\<lambda>(qs, ps).
         if mf_type mfd = MOG_FD_TYPE_MGMT then Ret (fd # qs, fd # ps)
         else if mf_type mfd \<in> {MOG_FD_TYPE_HTTP, MOG_FD_TYPE_HTTPGET} then Ret (fd # qs, ps)
         else Ret (qs, ps)))"

definition mog_fdmap_requeue :: "fdmap \<Rightarrow> (nat list \<times> nat list) outcome" where
  "mog_fdmap_requeue m = requeue_loop (fm_max_fd m) m"

section \<open>Expiring idle connections\<close>

text \<open>The fields of \<^verbatim>\<open>struct tcp_info\<close> that are read, in milliseconds.\<close>

record tcp_info =
  tcpi_established :: bool
  tcpi_ato :: nat
  tcpi_last_data_sent :: nat
  tcpi_last_data_recv :: nat
  tcpi_last_ack_recv :: nat

definition tcp_timedout :: "tcp_info \<Rightarrow> nat \<Rightarrow> bool" where
  "tcp_timedout info msec =
     (let send_timedout = tcpi_last_data_sent info > msec in
      if tcpi_ato info = 0 then send_timedout \<and> tcpi_last_ack_recv info > msec
      else send_timedout \<and> tcpi_last_data_recv info > msec)"

text \<open>
  What the kernel answers for a descriptor: whether the lock of its slot is free, the information on the
  connection or an error, and whether \<^verbatim>\<open>shutdown\<close> succeeds.
\<close>

record expire_env =
  ee_free :: "nat \<Rightarrow> bool"
  ee_info :: "nat \<Rightarrow> errno + tcp_info"
  ee_shutdown :: "nat \<Rightarrow> bool"

definition expire_http :: "expire_env \<Rightarrow> nat \<Rightarrow> nat \<Rightarrow> bool outcome" where
  "expire_http e fd msec =
     (case ee_info e fd of
        Inr info \<Rightarrow> Ret (tcpi_established info \<and> tcp_timedout info msec \<and> ee_shutdown e fd)
      | Inl err \<Rightarrow> assert_then (err \<noteq> EINVAL) (assert_then (err \<noteq> EFAULT) (Ret False)))"

primrec expire_loop :: "expire_env \<Rightarrow> nat \<Rightarrow> nat list \<Rightarrow> fdmap \<Rightarrow> nat list outcome" where
  "expire_loop e msec [] m = Ret []"
| "expire_loop e msec (fd # fds) m =
     obind (aref fd m) (\<lambda>mfd.
       obind (if ee_free e fd \<and> mf_type mfd \<in> {MOG_FD_TYPE_HTTP, MOG_FD_TYPE_HTTPGET}
              then expire_http e fd msec else Ret False) (\<lambda>x.
         obind (expire_loop e msec fds m) (\<lambda>r. Ret (if x then fd # r else r))))"

text \<open>
  \<^verbatim>\<open>mog_fdmap_expire\<close>: the connections it shut down, whose number it returns, and the time of this run. \<open>busy\<close> says that
  another thread holds the lock. Milliseconds are computed in 32 bits.
\<close>

definition mog_fdmap_expire :: "expire_env \<Rightarrow> bool \<Rightarrow> int \<Rightarrow> int \<Rightarrow> nat \<Rightarrow> fdmap \<times> int \<Rightarrow> (nat list \<times> fdmap \<times> int) outcome" where
  "mog_fdmap_expire e busy now now2 sec = (\<lambda>(m, last_expire).
     if busy then Ret ([], m, last_expire)
     else if now = last_expire then Ret ([], m, last_expire)
     else obind (expire_loop e (sec * 1000 mod 2 ^ 32) [3..<fm_max_fd m] m) (\<lambda>fds. Ret (fds, m, now2)))"

section \<open>The table as an array\<close>

definition slot :: "fdmap \<Rightarrow> nat \<Rightarrow> mog_fd" where
  "slot m fd = fm_heaps m ! (fd div FD_PER_HEAP) ! (fd mod FD_PER_HEAP)"

text \<open>What the table stands for: the type of every descriptor, allocated or not.\<close>

definition typ_of :: "fdmap \<Rightarrow> nat \<Rightarrow> mog_fd_type" where
  "typ_of m fd = (if fd < fm_max_fd m then mf_type (slot m fd) else MOG_FD_TYPE_UNUSED)"

definition fdmap_ok :: "nat \<Rightarrow> fdmap \<Rightarrow> bool" where
  "fdmap_ok open_max m \<longleftrightarrow>
     fm_max_fd m = FD_PER_HEAP * length (fm_heaps m) \<and>
     (\<forall>h < length (fm_heaps m). length (fm_heaps m ! h) = FD_PER_HEAP) \<and>
     (\<forall>fd < fm_max_fd m. mf_fd (slot m fd) = fd) \<and>
     (case fm_slots m of None \<Rightarrow> fm_heaps m = [] | Some n \<Rightarrow> n = open_max div FD_PER_HEAP + 1)"

lemma FD_pos [simp]: "0 < FD_PER_HEAP"
  by (simp add: FD_PER_HEAP_def)

lemma heap_index: "fdmap_ok l m \<Longrightarrow> fd < fm_max_fd m \<longleftrightarrow> fd div FD_PER_HEAP < length (fm_heaps m)"
  by (simp add: fdmap_ok_def div_less_iff_less_mult mult.commute)

lemma aref_slot: "fdmap_ok l m \<Longrightarrow> fd < fm_max_fd m \<Longrightarrow> aref fd m = Ret (slot m fd)"
  using heap_index [of l m fd] by (simp add: aref_def slot_def fdmap_ok_def)

lemma slot_fd: "fdmap_ok l m \<Longrightarrow> fd < fm_max_fd m \<Longrightarrow> mf_fd (slot m fd) = fd"
  by (simp add: fdmap_ok_def)

lemma same_slot: "fd div FD_PER_HEAP = p div FD_PER_HEAP \<Longrightarrow> fd mod FD_PER_HEAP = p mod FD_PER_HEAP \<Longrightarrow> fd = p"
  by (metis div_mult_mod_eq)

lemma slot_set_type:
  assumes "fdmap_ok l m" "p < fm_max_fd m" "fd < fm_max_fd m"
  shows "slot (set_type p ty m) fd = (if fd = p then (slot m p)\<lparr>mf_type := ty\<rparr> else slot m fd)"
proof -
  have "p div FD_PER_HEAP < length (fm_heaps m)" "length (fm_heaps m ! (p div FD_PER_HEAP)) = FD_PER_HEAP"
    using assms heap_index by (auto simp: fdmap_ok_def)
  then show ?thesis
    using same_slot [of fd p] by (auto simp: slot_def set_type_def Let_def nth_list_update)
qed

lemma set_type_shape [simp]:
  "fm_max_fd (set_type p ty m) = fm_max_fd m" "fm_slots (set_type p ty m) = fm_slots m"
  "length (fm_heaps (set_type p ty m)) = length (fm_heaps m)"
  by (simp_all add: set_type_def Let_def)

lemma set_type_heaps:
  "h < length (fm_heaps m) \<Longrightarrow> length (fm_heaps (set_type p ty m) ! h) = length (fm_heaps m ! h)"
  by (cases "p div FD_PER_HEAP = h") (simp_all add: set_type_def Let_def)

lemma set_type_ok: "fdmap_ok l m \<Longrightarrow> p < fm_max_fd m \<Longrightarrow> fdmap_ok l (set_type p ty m)"
  using slot_set_type [of l m p _ ty] slot_fd [of l m]
  by (auto simp: fdmap_ok_def set_type_heaps split: option.splits)

lemma typ_set_type: "fdmap_ok l m \<Longrightarrow> p < fm_max_fd m \<Longrightarrow> typ_of (set_type p ty m) = (typ_of m)(p := ty)"
  by (rule ext) (simp add: typ_of_def slot_set_type)

section \<open>Growing\<close>

lemma slot_add_heap:
  assumes "fdmap_ok l m" "fd < fm_max_fd m + FD_PER_HEAP"
  shows "slot (add_heap m) fd = (if fd < fm_max_fd m then slot m fd else \<lparr>mf_type = MOG_FD_TYPE_UNUSED, mf_fd = fd\<rparr>)"
proof (cases "fd < fm_max_fd m")
  case True
  then show ?thesis
    using heap_index [OF assms(1), of fd] by (simp add: slot_def add_heap_def nth_append)
next
  case False
  have mx: "fm_max_fd m = FD_PER_HEAP * length (fm_heaps m)"
    using assms(1) by (simp add: fdmap_ok_def)
  define i where "i = fd - fm_max_fd m"
  have i: "fd = FD_PER_HEAP * length (fm_heaps m) + i" "i < FD_PER_HEAP"
    using False assms(2) mx by (auto simp: i_def)
  then have "fd div FD_PER_HEAP = length (fm_heaps m)" "fd mod FD_PER_HEAP = i"
    by simp_all
  then show ?thesis
    using False i mx by (simp add: slot_def add_heap_def new_heap_def)
qed

lemma add_heap_max [simp]: "fm_max_fd (add_heap m) = fm_max_fd m + FD_PER_HEAP" "fm_slots (add_heap m) = fm_slots m"
  by (simp_all add: add_heap_def)

lemma add_heap_ok: "fdmap_ok l m \<Longrightarrow> fm_slots m \<noteq> None \<Longrightarrow> fdmap_ok l (add_heap m)"
  using slot_add_heap [of l m] slot_fd [of l m]
  by (auto simp: fdmap_ok_def add_heap_def nth_append new_heap_def less_Suc_eq)

lemma typ_add_heap: "fdmap_ok l m \<Longrightarrow> typ_of (add_heap m) = typ_of m"
  by (rule ext) (auto simp: typ_of_def slot_add_heap)

lemma grow_loop_ok:
  assumes "fdmap_ok l m" "fm_slots m = Some (l div FD_PER_HEAP + 1)" "fd < l" "l + FD_PER_HEAP \<le> int_max"
  shows "\<exists>m'. grow_loop (l div FD_PER_HEAP + 1) fd m = Ret m' \<and> fdmap_ok l m' \<and> fd < fm_max_fd m' \<and> typ_of m' = typ_of m"
  using assms
proof (induction "l div FD_PER_HEAP + 1" fd m rule: grow_loop.induct)
  case (1 fd m)
  show ?case
  proof (cases "fd < fm_max_fd m")
    case True
    then show ?thesis using "1.prems" by (simp add: grow_loop.simps)
  next
    case False
    have "length (fm_heaps m) \<le> fd div FD_PER_HEAP"
      using False heap_index [OF "1.prems"(1), of fd] by simp
    also have "\<dots> \<le> l div FD_PER_HEAP"
      using "1.prems"(3) by (simp add: div_le_mono)
    finally have c: "length (fm_heaps m) < l div FD_PER_HEAP + 1 \<and> fm_max_fd m + FD_PER_HEAP \<le> int_max"
      using False "1.prems"(3,4) by simp
    have "\<exists>m'. grow_loop (l div FD_PER_HEAP + 1) fd (add_heap m) = Ret m' \<and> fdmap_ok l m' \<and> fd < fm_max_fd m' \<and> typ_of m' = typ_of (add_heap m)"
      using False c "1.prems" by (intro "1.hyps") (auto intro: add_heap_ok)
    then show ?thesis
      using False c typ_add_heap [OF "1.prems"(1)] by (simp add: grow_loop.simps [of _ fd m])
  qed
qed

lemma fdmap_empty_ok: "fdmap_ok l fdmap_empty" "typ_of fdmap_empty = (\<lambda>_. MOG_FD_TYPE_UNUSED)"
  by (auto simp: fdmap_ok_def fdmap_empty_def typ_of_def)

lemma typ_of_slots [simp]: "typ_of (m\<lparr>fm_slots := x\<rparr>) = typ_of m"
  by (rule ext) (simp add: typ_of_def slot_def)

lemma fdmap_ok_slots:
  "fdmap_ok l m \<Longrightarrow> fdmap_ok l (m\<lparr>fm_slots := Some (l div FD_PER_HEAP + 1)\<rparr>)"
  by (auto simp: fdmap_ok_def slot_def)

lemma grow_ref_ok:
  assumes "fdmap_ok l m" "fd < l" "l + FD_PER_HEAP \<le> int_max"
  shows "\<exists>m'. grow_ref l fd m = Ret (slot m' fd, m') \<and> fdmap_ok l m' \<and> fd < fm_max_fd m' \<and> typ_of m' = typ_of m"
proof -
  define m1 where "m1 = (if fm_slots m = None then m\<lparr>fm_slots := Some (l div FD_PER_HEAP + 1)\<rparr> else m)"
  have m1: "fdmap_ok l m1" "fm_slots m1 = Some (l div FD_PER_HEAP + 1)" "typ_of m1 = typ_of m"
    using assms(1) fdmap_ok_slots by (auto simp: m1_def fdmap_ok_def split: option.splits)
  obtain m' where "grow_loop (l div FD_PER_HEAP + 1) fd m1 = Ret m'" "fdmap_ok l m'" "fd < fm_max_fd m'" "typ_of m' = typ_of m1"
    using grow_loop_ok [OF m1(1,2) assms(2,3)] by blast
  moreover have "(if fm_slots m = None then fd_map_init l m else Ret m) = Ret m1"
    by (simp add: m1_def fd_map_init_def)
  moreover have "fd < int_max"
    using assms(2,3) by simp
  ultimately show ?thesis
    using m1 aref_slot [of l m' fd] by (simp add: grow_ref_def del: obind_Ret)
qed

lemma mog_fd_get_ok:
  assumes "fdmap_ok l m" "fd < l" "l + FD_PER_HEAP \<le> int_max"
  shows "\<exists>m'. mog_fd_get l (int fd) m = Ret (slot m' fd, m') \<and> fdmap_ok l m' \<and> fd < fm_max_fd m' \<and> typ_of m' = typ_of m"
proof (cases "fd < fm_max_fd m")
  case True
  then show ?thesis using assms(1) by (simp add: mog_fd_get_def aref_slot [OF assms(1)] del: obind_Ret)
next
  case False
  then show ?thesis using grow_ref_ok [OF assms] by (simp add: mog_fd_get_def)
qed

lemma mog_fd_init_ok:
  assumes "fdmap_ok l m" "fd < l" "l + FD_PER_HEAP \<le> int_max"
  shows "\<exists>m'. mog_fd_init l (int fd) ty m = Ret m' \<and> fdmap_ok l m' \<and> typ_of m' = (typ_of m)(fd := ty)"
proof -
  obtain m1 where "mog_fd_get l (int fd) m = Ret (slot m1 fd, m1)" and
    m1: "fdmap_ok l m1" "fd < fm_max_fd m1" "typ_of m1 = typ_of m"
    using mog_fd_get_ok [OF assms] by blast
  then have "mog_fd_init l (int fd) ty m = Ret (set_type fd ty m1)"
    by (simp add: mog_fd_init_def slot_fd del: obind_Ret)
  then show ?thesis
    using m1 set_type_ok typ_set_type by simp
qed

lemma mog_fd_put_ok:
  assumes "fdmap_ok l m" "typ_of m fd \<noteq> MOG_FD_TYPE_UNUSED"
  shows "\<exists>m'. mog_fd_put fd m = Ret (m', fd) \<and> fdmap_ok l m' \<and> typ_of m' = (typ_of m)(fd := MOG_FD_TYPE_UNUSED)"
proof -
  have "fd < fm_max_fd m"
    using assms(2) by (auto simp: typ_of_def split: if_splits)
  then show ?thesis
    using assms(1) set_type_ok typ_set_type
    by (simp add: mog_fd_put_def aref_slot slot_fd del: obind_Ret)
qed

section \<open>The interface of the table\<close>

text \<open>
  What the rest of the program relies on: opening and closing a descriptor return and act on its own
  entry only. \<open>types\<close> reads the table as a function, \<open>ok\<close> is its invariant, and \<open>lim\<close> bounds the descriptors.
\<close>

datatype fd_op = FdOpen nat mog_fd_type | FdClose nat

locale descriptor_table =
  fixes init :: "nat \<Rightarrow> mog_fd_type \<Rightarrow> 't \<Rightarrow> 't outcome"
    and put :: "nat \<Rightarrow> 't \<Rightarrow> 't outcome"
    and types :: "'t \<Rightarrow> nat \<Rightarrow> mog_fd_type"
    and ok :: "'t \<Rightarrow> bool"
    and lim :: nat
  assumes init_law: "ok m \<Longrightarrow> fd < lim \<Longrightarrow> \<exists>m'. init fd ty m = Ret m' \<and> ok m' \<and> types m' = (types m)(fd := ty)"
    and put_law: "ok m \<Longrightarrow> types m fd \<noteq> MOG_FD_TYPE_UNUSED \<Longrightarrow>
      \<exists>m'. put fd m = Ret m' \<and> ok m' \<and> types m' = (types m)(fd := MOG_FD_TYPE_UNUSED)"

primrec fd_run :: "(nat \<Rightarrow> mog_fd_type \<Rightarrow> 't \<Rightarrow> 't outcome) \<Rightarrow> (nat \<Rightarrow> 't \<Rightarrow> 't outcome) \<Rightarrow> fd_op list \<Rightarrow> 't \<Rightarrow> 't outcome" where
  "fd_run init put [] m = Ret m"
| "fd_run init put (a # as) m =
     obind (case a of FdOpen fd ty \<Rightarrow> init fd ty m | FdClose fd \<Rightarrow> put fd m) (fd_run init put as)"

text \<open>The specification: a function from descriptors to types, and the operations a caller may ask for.\<close>

primrec fd_spec :: "fd_op \<Rightarrow> (nat \<Rightarrow> mog_fd_type) \<Rightarrow> nat \<Rightarrow> mog_fd_type" where
  "fd_spec (FdOpen fd ty) f = f(fd := ty)"
| "fd_spec (FdClose fd) f = f(fd := MOG_FD_TYPE_UNUSED)"

primrec fd_legal :: "nat \<Rightarrow> fd_op list \<Rightarrow> (nat \<Rightarrow> mog_fd_type) \<Rightarrow> bool" where
  "fd_legal l [] f \<longleftrightarrow> True"
| "fd_legal l (a # as) f \<longleftrightarrow>
     (case a of FdOpen fd ty \<Rightarrow> fd < l | FdClose fd \<Rightarrow> f fd \<noteq> MOG_FD_TYPE_UNUSED) \<and> fd_legal l as (fd_spec a f)"

context descriptor_table
begin

lemma run_refines:
  "ok m \<Longrightarrow> fd_legal lim as (types m) \<Longrightarrow>
   \<exists>m'. fd_run init put as m = Ret m' \<and> ok m' \<and> types m' = fold fd_spec as (types m)"
proof (induction as arbitrary: m)
  case (Cons a as)
  obtain m1 where m1: "(case a of FdOpen fd ty \<Rightarrow> init fd ty m | FdClose fd \<Rightarrow> put fd m) = Ret m1"
    "ok m1" "types m1 = fd_spec a (types m)"
    using Cons.prems init_law put_law by (cases a) fastforce+
  then show ?case
    using Cons.IH [of m1] Cons.prems by simp
qed simp

end

definition fd_limit :: "nat \<Rightarrow> nat" where
  "fd_limit open_max = (if open_max + FD_PER_HEAP \<le> int_max then open_max else 0)"

definition table_init :: "nat \<Rightarrow> nat \<Rightarrow> mog_fd_type \<Rightarrow> fdmap \<Rightarrow> fdmap outcome" where
  "table_init l fd ty m = mog_fd_init l (int fd) ty m"

definition table_put :: "nat \<Rightarrow> fdmap \<Rightarrow> fdmap outcome" where
  "table_put fd m = obind (mog_fd_put fd m) (\<lambda>(m', _). Ret m')"

interpretation fdtab: descriptor_table "table_init l" table_put typ_of "fdmap_ok l" "fd_limit l" for l
proof unfold_locales
  show "\<exists>m'. table_init l fd ty m = Ret m' \<and> fdmap_ok l m' \<and> typ_of m' = (typ_of m)(fd := ty)"
    if "fdmap_ok l m" "fd < fd_limit l" for m fd ty
    using that mog_fd_init_ok [of l m fd ty] by (simp add: table_init_def fd_limit_def split: if_splits)
  show "\<exists>m'. table_put fd m = Ret m' \<and> fdmap_ok l m' \<and> typ_of m' = (typ_of m)(fd := MOG_FD_TYPE_UNUSED)"
    if "fdmap_ok l m" "typ_of m fd \<noteq> MOG_FD_TYPE_UNUSED" for m fd
    using mog_fd_put_ok [OF that] by (auto simp: table_put_def)
qed

text \<open>
  C7: The descriptor table implements a map from descriptors to types. From the empty table, every
  sequence of opens below the limit of the process and of closes of open descriptors returns: no assertion fails and no
  slot outside the allocated heaps is touched. The table then holds exactly the types that the same sequence gives a plain
  function, although slots live in heaps that are added as descriptors grow.
\<close>

theorem fdmap_refines_map:
  assumes "open_max + FD_PER_HEAP \<le> int_max"
    and "fd_legal open_max as (\<lambda>_. MOG_FD_TYPE_UNUSED)"
  shows "\<exists>m. fd_run (table_init open_max) table_put as fdmap_empty = Ret m \<and> fdmap_ok open_max m \<and>
    typ_of m = fold fd_spec as (\<lambda>_. MOG_FD_TYPE_UNUSED)"
  using fdtab.run_refines [of open_max fdmap_empty as] assms by (simp add: fdmap_empty_ok fd_limit_def)

theorem fdmap_refines_map_witness:
  "\<exists>m. fd_run (table_init 1024) table_put [FdOpen 700 MOG_FD_TYPE_HTTP, FdOpen 3 MOG_FD_TYPE_MGMT, FdClose 700] fdmap_empty = Ret m \<and>
     fdmap_ok 1024 m \<and> typ_of m = (\<lambda>_. MOG_FD_TYPE_UNUSED)(700 := MOG_FD_TYPE_HTTP, 3 := MOG_FD_TYPE_MGMT, 700 := MOG_FD_TYPE_UNUSED)"
  using fdmap_refines_map [of 1024 "[FdOpen 700 MOG_FD_TYPE_HTTP, FdOpen 3 MOG_FD_TYPE_MGMT, FdClose 700]"]
  by (simp add: FD_PER_HEAP_def int_max_def)

section \<open>Quitting and expiring\<close>

definition is_client :: "mog_fd_type \<Rightarrow> bool" where
  "is_client ty \<longleftrightarrow> ty \<in> {MOG_FD_TYPE_MGMT, MOG_FD_TYPE_HTTP, MOG_FD_TYPE_HTTPGET}"

lemma requeue_loop_filter:
  "fdmap_ok l m \<Longrightarrow> n \<le> fm_max_fd m \<Longrightarrow>
   requeue_loop n m = Ret (filter (\<lambda>fd. is_client (typ_of m fd)) (rev [0..<n]),
                           filter (\<lambda>fd. typ_of m fd = MOG_FD_TYPE_MGMT) (rev [0..<n]))"
  by (induction n) (auto simp: aref_slot is_client_def typ_of_def)

text \<open>
  C18: When the process quits, every client connection in the table is handed to the quit queue exactly once, from the
  highest descriptor down, and nothing else is; side channel clients, and only those, have their priority reset.
\<close>

theorem requeue_every_client:
  assumes "fdmap_ok open_max m"
  shows "\<exists>qs ps. mog_fdmap_requeue m = Ret (qs, ps) \<and> set qs = {fd. is_client (typ_of m fd)} \<and>
    sorted_wrt (>) qs \<and> ps = filter (\<lambda>fd. typ_of m fd = MOG_FD_TYPE_MGMT) qs"
proof -
  let ?qs = "filter (\<lambda>fd. is_client (typ_of m fd)) (rev [0..<fm_max_fd m])"
  have "set ?qs = {fd. is_client (typ_of m fd)}"
    by (auto simp: typ_of_def is_client_def split: if_splits)
  moreover have "sorted_wrt (>) ?qs"
    by (simp add: sorted_wrt_filter sorted_wrt_rev)
  moreover have "filter (\<lambda>fd. typ_of m fd = MOG_FD_TYPE_MGMT) ?qs = filter (\<lambda>fd. typ_of m fd = MOG_FD_TYPE_MGMT) (rev [0..<fm_max_fd m])"
    by (auto simp: is_client_def intro: filter_cong)
  ultimately show ?thesis
    using requeue_loop_filter [OF assms order_refl] by (auto simp: mog_fdmap_requeue_def simp del: filter_filter)
qed

definition fdmap_one :: "mog_fd_type \<Rightarrow> fdmap" where
  "fdmap_one ty = set_type 9 ty (add_heap (fdmap_empty\<lparr>fm_slots := Some 1\<rparr>))"

lemma fdmap_one_ok: "fdmap_ok 255 (fdmap_one ty)" "typ_of (fdmap_one ty) = (\<lambda>_. MOG_FD_TYPE_UNUSED)(9 := ty)"
proof -
  let ?m = "fdmap_empty\<lparr>fm_slots := Some 1\<rparr>"
  have "fdmap_ok 255 ?m"
    using fdmap_ok_slots [OF fdmap_empty_ok(1) [of 255]] by (simp add: FD_PER_HEAP_def)
  moreover have "fm_max_fd (add_heap ?m) = 256" "fm_slots ?m \<noteq> None" "typ_of ?m = (\<lambda>_. MOG_FD_TYPE_UNUSED)"
    using fdmap_empty_ok(2) by (simp_all add: FD_PER_HEAP_def) (simp add: fdmap_empty_def)
  ultimately show "fdmap_ok 255 (fdmap_one ty)" "typ_of (fdmap_one ty) = (\<lambda>_. MOG_FD_TYPE_UNUSED)(9 := ty)"
    unfolding fdmap_one_def by (simp_all add: set_type_ok typ_set_type [OF add_heap_ok] typ_add_heap add_heap_ok del: add_heap_max)
qed

lemma fdmap_one_max: "fm_max_fd (fdmap_one ty) = 256"
  by (simp add: fdmap_one_def fdmap_empty_def FD_PER_HEAP_def)

theorem requeue_every_client_witness:
  "fdmap_ok 255 (fdmap_one MOG_FD_TYPE_MGMT) \<and> (\<exists>qs ps. mog_fdmap_requeue (fdmap_one MOG_FD_TYPE_MGMT) = Ret (qs, ps) \<and> set qs = {9} \<and> sorted_wrt (>) qs \<and>
     ps = filter (\<lambda>fd. typ_of (fdmap_one MOG_FD_TYPE_MGMT) fd = MOG_FD_TYPE_MGMT) qs)"
proof -
  have "{fd. is_client (typ_of (fdmap_one MOG_FD_TYPE_MGMT) fd)} = {9}"
    by (auto simp: fdmap_one_ok is_client_def split: if_splits)
  then show ?thesis
    using requeue_every_client [OF fdmap_one_ok(1) [of MOG_FD_TYPE_MGMT]] fdmap_one_ok(1) by simp
qed

text \<open>The connections that have been idle for longer than \<open>msec\<close>, of those that can be locked and shut down.\<close>

definition idle_http :: "expire_env \<Rightarrow> nat \<Rightarrow> fdmap \<Rightarrow> nat \<Rightarrow> bool" where
  "idle_http e msec m fd \<longleftrightarrow>
     typ_of m fd \<in> {MOG_FD_TYPE_HTTP, MOG_FD_TYPE_HTTPGET} \<and> ee_free e fd \<and> ee_shutdown e fd \<and>
     (case ee_info e fd of
        Inl _ \<Rightarrow> False
      | Inr i \<Rightarrow> tcpi_established i \<and> tcpi_last_data_sent i > msec \<and>
          (if tcpi_ato i = 0 then tcpi_last_ack_recv i else tcpi_last_data_recv i) > msec)"

definition sane_info :: "expire_env \<Rightarrow> bool" where
  "sane_info e \<longleftrightarrow> (\<forall>fd. ee_info e fd \<noteq> Inl EINVAL \<and> ee_info e fd \<noteq> Inl EFAULT)"

lemma expire_http_idle:
  "sane_info e \<Longrightarrow> typ_of m fd \<in> {MOG_FD_TYPE_HTTP, MOG_FD_TYPE_HTTPGET} \<Longrightarrow> ee_free e fd \<Longrightarrow>
   expire_http e fd msec = Ret (idle_http e msec m fd)"
  by (cases "ee_info e fd") (auto simp: expire_http_def idle_http_def tcp_timedout_def sane_info_def Let_def)

lemma expire_loop_filter:
  "fdmap_ok l m \<Longrightarrow> sane_info e \<Longrightarrow> \<forall>fd\<in>set fds. fd < fm_max_fd m \<Longrightarrow>
   expire_loop e msec fds m = Ret (filter (idle_http e msec m) fds)"
proof (induction fds)
  case (Cons fd fds)
  have "aref fd m = Ret (slot m fd)" "mf_type (slot m fd) = typ_of m fd"
    using Cons.prems by (simp_all add: aref_slot typ_of_def)
  moreover have "(if ee_free e fd \<and> typ_of m fd \<in> {MOG_FD_TYPE_HTTP, MOG_FD_TYPE_HTTPGET}
      then expire_http e fd msec else Ret False) = Ret (idle_http e msec m fd)"
    using expire_http_idle [OF Cons.prems(2), of m fd msec] by (auto simp: idle_http_def)
  ultimately show ?case
    using Cons by (simp del: obind_Ret insert_iff)
qed simp

text \<open>
  C19: When the process runs out of descriptors it shuts down exactly the established HTTP connections that sent nothing and
  received nothing for longer than the limit, never one of the standard descriptors, a listener, an open file or a side channel
  client; and at most once in a second.
\<close>

theorem expire_idle_http_only:
  assumes "fdmap_ok open_max m" "sane_info e" "sec * 1000 < 2 ^ 32"
  shows "mog_fdmap_expire e False now now2 sec (m, last_expire) =
    Ret (if now = last_expire then ([], m, last_expire)
         else (filter (idle_http e (sec * 1000) m) [3..<fm_max_fd m], m, now2))"
  using expire_loop_filter [OF assms(1,2), of "[3..<fm_max_fd m]" "sec * 1000"] assms(3)
  by (simp add: mog_fdmap_expire_def del: obind_Ret)

definition idle_env :: expire_env where
  "idle_env = \<lparr>ee_free = \<lambda>_. True,
     ee_info = \<lambda>_. Inr \<lparr>tcpi_established = True, tcpi_ato = 0, tcpi_last_data_sent = 6000, tcpi_last_data_recv = 0, tcpi_last_ack_recv = 5001\<rparr>,
     ee_shutdown = \<lambda>_. True\<rparr>"

theorem expire_idle_http_only_witness:
  "mog_fdmap_expire idle_env False 7 8 5 (fdmap_one MOG_FD_TYPE_HTTP, 0) = Ret ([9], fdmap_one MOG_FD_TYPE_HTTP, 8)"
proof -
  have "idle_http idle_env 5000 (fdmap_one MOG_FD_TYPE_HTTP) = (\<lambda>fd. fd = 9)"
    by (rule ext) (simp add: idle_http_def fdmap_one_ok idle_env_def)
  moreover have "[3..<256] = [3..<9] @ [9::nat] @ [10..<256]"
    using upt_add_eq_append [of 3 9 247] upt_conv_Cons [of 9 256] by simp
  then have "filter (\<lambda>fd. fd = 9) [3..<256] = [9::nat]"
    by (simp add: filter_empty_conv)
  moreover have sane: "sane_info idle_env"
    by (simp add: sane_info_def idle_env_def)
  ultimately show ?thesis
    using expire_idle_http_only [OF fdmap_one_ok(1) [of MOG_FD_TYPE_HTTP], of idle_env 5 7 8 0]
    by (simp add: fdmap_one_max)
qed

end
