(* ===== verification/Mog_Queue.thy ===== *)
theory Mog_Queue
  imports Mog_Fdmap Mog_Http_Types
begin

text \<open>
  The event queue and the threads that share it: \<^verbatim>\<open>queue_epoll.c\<close>, \<^verbatim>\<open>activeq.h\<close> and \<^verbatim>\<open>queue_loop.c\<close>, with
  the accept threads of \<^verbatim>\<open>accept_loop.c\<close> as the source of clients. The descriptors are the function that
  \<^verbatim>\<open>fdmap.c\<close> implements, the epoll set is the one of the kernel: a descriptor is unknown to it, armed with an event
  mask, or disarmed, because every mask has \<^verbatim>\<open>EPOLLONESHOT\<close>. Threads run interleaved, one queue call at a time. What a
  handler does to its client is not looked at here: it may return any value.
\<close>

section \<open>The epoll set\<close>

datatype mog_qev = MOG_QEV_RD | MOG_QEV_WR | MOG_QEV_RW

datatype epoll_op = EPOLL_CTL_ADD | EPOLL_CTL_MOD | EPOLL_CTL_DEL

text \<open>
  \<open>q_watch fd\<close> is \<open>None\<close> for a descriptor outside the set, \<open>Some None\<close> for a disarmed one. \<open>q_types\<close> is the descriptor table.
\<close>

record qstate =
  q_watch :: "nat \<Rightarrow> mog_qev option option"
  q_types :: "nat \<Rightarrow> mog_fd_type"

text \<open>
  \<^verbatim>\<open>epoll_ctl\<close>: adding a member and changing or removing a stranger fail, anything else succeeds unless the
  kernel has an error \<open>ans\<close> of its own.
\<close>

definition epoll_ctl :: "epoll_op \<Rightarrow> nat \<Rightarrow> mog_qev \<Rightarrow> errno option \<Rightarrow> qstate \<Rightarrow> errno option \<times> qstate" where
  "epoll_ctl op fd ev ans q =
     (if op = EPOLL_CTL_ADD \<and> q_watch q fd \<noteq> None then (Some EEXIST, q)
      else if op \<noteq> EPOLL_CTL_ADD \<and> q_watch q fd = None then (Some ENOENT, q)
      else case ans of
        Some e \<Rightarrow> (Some e, q)
      | None \<Rightarrow> (None, q\<lparr>q_watch := (q_watch q)(fd := if op = EPOLL_CTL_DEL then None else Some (Some ev))\<rparr>))"

text \<open>\<^verbatim>\<open>mog_fd_put\<close> on the level of the map; closing a descriptor takes it out of the set.\<close>

definition fd_put :: "nat \<Rightarrow> qstate \<Rightarrow> qstate outcome" where
  "fd_put fd q =
     assert_then (q_types q fd \<noteq> MOG_FD_TYPE_UNUSED)
      (Ret (q\<lparr>q_types := (q_types q)(fd := MOG_FD_TYPE_UNUSED), q_watch := (q_watch q)(fd := None)\<rparr>))"

definition epoll_ctl_error :: "errno \<Rightarrow> nat \<Rightarrow> qstate \<Rightarrow> qstate outcome" where
  "epoll_ctl_error err fd q = (if err \<in> {ENOMEM, ENOSPC} then fd_put fd q else Abort)"

definition idleq_mod :: "nat \<Rightarrow> mog_qev \<Rightarrow> epoll_op \<Rightarrow> errno option \<Rightarrow> qstate \<Rightarrow> qstate outcome" where
  "idleq_mod fd ev op ans q =
     (case epoll_ctl op fd ev ans q of
        (None, q1) \<Rightarrow> Ret q1
      | (Some err, q1) \<Rightarrow> epoll_ctl_error err fd q1)"

definition mog_idleq_add :: "nat \<Rightarrow> mog_qev \<Rightarrow> errno option \<Rightarrow> qstate \<Rightarrow> qstate outcome" where
  "mog_idleq_add fd ev ans q = idleq_mod fd ev EPOLL_CTL_ADD ans q"

text \<open>The two answers are those to the removal and to the addition.\<close>

definition fake_epoll_ctl_mod :: "nat \<Rightarrow> mog_qev \<Rightarrow> errno option \<times> errno option \<Rightarrow> qstate \<Rightarrow> qstate outcome" where
  "fake_epoll_ctl_mod fd ev = (\<lambda>(ans1, ans2) q.
     case epoll_ctl EPOLL_CTL_DEL fd ev ans1 q of
       (None, q1) \<Rightarrow> idleq_mod fd ev EPOLL_CTL_ADD ans2 q1
     | (Some err, q1) \<Rightarrow> epoll_ctl_error err fd q1)"

definition mog_idleq_push :: "bool \<Rightarrow> nat \<Rightarrow> mog_qev \<Rightarrow> errno option \<times> errno option \<Rightarrow> qstate \<Rightarrow> qstate outcome" where
  "mog_idleq_push epoll_ctl_mod_buggy fd ev ans q =
     (if epoll_ctl_mod_buggy then fake_epoll_ctl_mod fd ev ans q
      else idleq_mod fd ev EPOLL_CTL_MOD (fst ans) q)"

definition mog_activeq_push :: "bool \<Rightarrow> nat \<Rightarrow> errno option \<times> errno option \<Rightarrow> qstate \<Rightarrow> qstate outcome" where
  "mog_activeq_push buggy fd ans q = mog_idleq_push buggy fd MOG_QEV_RW ans q"

text \<open>
  What \<^verbatim>\<open>epoll_wait\<close> answers: an armed descriptor, nothing, or an error. \<^verbatim>\<open>mog_idleq_wait\<close> returns the descriptor, which the kernel
  has disarmed; dying of an unexpected error is \<open>Abort\<close>.
\<close>

datatype epoll_answer = EvFd nat | EvNone | EvErr errno

definition mog_idleq_wait :: "epoll_answer \<Rightarrow> qstate \<Rightarrow> (nat option \<times> qstate) outcome" where
  "mog_idleq_wait a q =
     (case a of
        EvFd fd \<Rightarrow> Ret (Some fd, q\<lparr>q_watch := (q_watch q)(fd := Some None)\<rparr>)
      | EvNone \<Rightarrow> Ret (None, q)
      | EvErr e \<Rightarrow> if e = EINTR then Ret (None, q) else Abort)"

section \<open>Threads\<close>

text \<open>
  Where a thread is. \<open>AtAccept\<close> and \<open>AtPost fd\<close> are an accept thread in \<^verbatim>\<open>accept4\<close> and in \<^verbatim>\<open>post_accept_fn\<close> after
  \<^verbatim>\<open>mog_fd_init\<close>. The rest is \<^verbatim>\<open>mog_queue_loop\<close>: blocked in \<^verbatim>\<open>mog_idleq_wait(q, -1)\<close>, about to call \<^verbatim>\<open>mog_queue_step\<close>, and in
  \<^verbatim>\<open>queue_xchg_maybe\<close> before its wait and before its push.
\<close>

datatype place = AtAccept | AtPost nat | AtWait | AtStep nat | AtMaybe nat | AtPush nat nat

text \<open>
  \<open>s_parked\<close> are the clients whose handler returned \<^verbatim>\<open>MOG_NEXT_IGNORE\<close>: they wait in a digest queue or subscribe to the device
  statistics, and the code that keeps them there pushes them back or closes them.
\<close>

record sys =
  s_q :: qstate
  s_thr :: "nat \<Rightarrow> place"
  s_parked :: "nat \<Rightarrow> bool"

text \<open>\<^verbatim>\<open>mog_queue_step\<close> refuses descriptors that are not clients.\<close>

definition mog_queue_step :: "mog_next \<Rightarrow> mog_fd_type \<Rightarrow> mog_next outcome" where
  "mog_queue_step nx ty =
     (if ty = MOG_FD_TYPE_MGMT then Ret nx
      else if ty \<in> {MOG_FD_TYPE_HTTP, MOG_FD_TYPE_HTTPGET} then Ret nx
      else Abort)"

text \<open>One step: the thread, and the choices of the kernel and of the handler.\<close>

datatype action =
    Accept nat nat mog_fd_type
  | Post nat "errno option"
  | Wait nat epoll_answer
  | Step nat mog_next "errno option \<times> errno option"
  | Maybe nat epoll_answer
  | Push nat "errno option \<times> errno option"
  | Resume nat mog_qev "errno option \<times> errno option"
  | Drop nat

definition goto :: "nat \<Rightarrow> place \<Rightarrow> qstate \<Rightarrow> sys \<Rightarrow> sys" where
  "goto t pl q s = s\<lparr>s_q := q, s_thr := (s_thr s)(t := pl)\<rparr>"

text \<open>
  The body of the loop after \<^verbatim>\<open>mog_queue_step\<close> has returned. The handler of a client that is closed has closed the
  descriptor itself. \<^verbatim>\<open>mog_queue_xchg\<close> pushes and waits.
\<close>

definition queue_loop_next ::
  "bool \<Rightarrow> nat \<Rightarrow> nat \<Rightarrow> mog_next \<Rightarrow> errno option \<times> errno option \<Rightarrow> sys \<Rightarrow> sys outcome" where
  "queue_loop_next buggy t fd nx ans s =
     (case nx of
        MOG_NEXT_ACTIVE \<Rightarrow> Ret (goto t (AtMaybe fd) (s_q s) s)
      | MOG_NEXT_WAIT_RD \<Rightarrow> obind (mog_idleq_push buggy fd MOG_QEV_RD ans (s_q s)) (\<lambda>q. Ret (goto t AtWait q s))
      | MOG_NEXT_WAIT_WR \<Rightarrow> obind (mog_idleq_push buggy fd MOG_QEV_WR ans (s_q s)) (\<lambda>q. Ret (goto t AtWait q s))
      | MOG_NEXT_IGNORE \<Rightarrow> Ret ((goto t AtWait (s_q s) s)\<lparr>s_parked := (s_parked s)(fd := True)\<rparr>)
      | MOG_NEXT_CLOSE \<Rightarrow> obind (fd_put fd (s_q s)) (\<lambda>q. Ret (goto t AtWait q s)))"

fun act :: "bool \<Rightarrow> action \<Rightarrow> sys \<Rightarrow> sys outcome" where
  "act buggy (Accept t fd ty) s =
     Ret (goto t (AtPost fd) ((s_q s)\<lparr>q_types := (q_types (s_q s))(fd := ty)\<rparr>) s)"
| "act buggy (Post t ans) s =
     (case s_thr s t of
        AtPost fd \<Rightarrow> obind (mog_idleq_add fd MOG_QEV_RD ans (s_q s)) (\<lambda>q. Ret (goto t AtAccept q s))
      | _ \<Rightarrow> Abort)"
| "act buggy (Wait t a) s =
     obind (mog_idleq_wait a (s_q s)) (\<lambda>(r, q). Ret (goto t (case r of None \<Rightarrow> AtWait | Some fd \<Rightarrow> AtStep fd) q s))"
| "act buggy (Step t nx ans) s =
     (case s_thr s t of
        AtStep fd \<Rightarrow>
          obind (mog_queue_step nx (q_types (s_q s) fd)) (\<lambda>n. queue_loop_next buggy t fd n ans s)
      | _ \<Rightarrow> Abort)"
| "act buggy (Maybe t a) s =
     (case s_thr s t of
        AtMaybe fd \<Rightarrow>
          obind (mog_idleq_wait a (s_q s)) (\<lambda>(r, q).
            Ret (goto t (case r of None \<Rightarrow> AtStep fd | Some recent \<Rightarrow> AtPush fd recent) q s))
      | _ \<Rightarrow> Abort)"
| "act buggy (Push t ans) s =
     (case s_thr s t of
        AtPush fd recent \<Rightarrow> obind (mog_activeq_push buggy fd ans (s_q s)) (\<lambda>q. Ret (goto t (AtStep recent) q s))
      | _ \<Rightarrow> Abort)"
| "act buggy (Resume fd ev ans) s =
     obind (mog_idleq_push buggy fd ev ans (s_q s)) (\<lambda>q. Ret (s\<lparr>s_q := q, s_parked := (s_parked s)(fd := False)\<rparr>))"
| "act buggy (Drop fd) s =
     obind (fd_put fd (s_q s)) (\<lambda>q. Ret (s\<lparr>s_q := q, s_parked := (s_parked s)(fd := False)\<rparr>))"

section \<open>Ownership\<close>

text \<open>
  When an action can happen: the thread is where the action starts, the kernel reports events of armed
  descriptors only, hands out unused descriptors, and refuses \<^verbatim>\<open>epoll_ctl\<close> only for lack of memory or watches.
\<close>

definition ctl_ok :: "errno option \<Rightarrow> bool" where
  "ctl_ok ans \<longleftrightarrow> ans \<in> {None, Some ENOMEM, Some ENOSPC}"

definition wait_ok :: "epoll_answer \<Rightarrow> qstate \<Rightarrow> bool" where
  "wait_ok a q = (case a of EvFd fd \<Rightarrow> q_watch q fd \<noteq> None \<and> q_watch q fd \<noteq> Some None | EvNone \<Rightarrow> True | EvErr e \<Rightarrow> e = EINTR)"

fun enabled :: "action \<Rightarrow> sys \<Rightarrow> bool" where
  "enabled (Accept t fd ty) s \<longleftrightarrow> s_thr s t = AtAccept \<and> q_types (s_q s) fd = MOG_FD_TYPE_UNUSED \<and> is_client ty"
| "enabled (Post t ans) s \<longleftrightarrow> (case s_thr s t of AtPost fd \<Rightarrow> ctl_ok ans | _ \<Rightarrow> False)"
| "enabled (Wait t a) s \<longleftrightarrow> s_thr s t = AtWait \<and> wait_ok a (s_q s)"
| "enabled (Step t nx ans) s \<longleftrightarrow> (case s_thr s t of AtStep fd \<Rightarrow> ctl_ok (fst ans) \<and> ctl_ok (snd ans) | _ \<Rightarrow> False)"
| "enabled (Maybe t a) s \<longleftrightarrow> (case s_thr s t of AtMaybe fd \<Rightarrow> wait_ok a (s_q s) | _ \<Rightarrow> False)"
| "enabled (Push t ans) s \<longleftrightarrow> (case s_thr s t of AtPush fd r \<Rightarrow> ctl_ok (fst ans) \<and> ctl_ok (snd ans) | _ \<Rightarrow> False)"
| "enabled (Resume fd ev ans) s \<longleftrightarrow> s_parked s fd \<and> ctl_ok (fst ans) \<and> ctl_ok (snd ans)"
| "enabled (Drop fd) s \<longleftrightarrow> s_parked s fd"

definition initial :: "sys \<Rightarrow> bool" where
  "initial s \<longleftrightarrow>
     (\<forall>t. s_thr s t \<in> {AtAccept, AtWait}) \<and> (\<forall>fd. q_watch (s_q s) fd = None \<and> \<not> is_client (q_types (s_q s) fd) \<and> \<not> s_parked s fd)"

inductive reachable :: "bool \<Rightarrow> sys \<Rightarrow> bool" for buggy where
  start: "initial s \<Longrightarrow> reachable buggy s"
| step: "reachable buggy s \<Longrightarrow> enabled a s \<Longrightarrow> act buggy a s = Ret s' \<Longrightarrow> reachable buggy s'"

text \<open>Who is responsible for a descriptor.\<close>

datatype owner = Nobody | Queue | Parked | Held nat | Posting nat

fun fd_state :: "owner \<Rightarrow> mog_qev option option \<Rightarrow> mog_fd_type \<Rightarrow> bool \<Rightarrow> bool" where
  "fd_state Nobody w ty p \<longleftrightarrow> \<not> is_client ty \<and> w = None \<and> \<not> p"
| "fd_state Queue w ty p \<longleftrightarrow> is_client ty \<and> w \<noteq> None \<and> w \<noteq> Some None \<and> \<not> p"
| "fd_state Parked w ty p \<longleftrightarrow> is_client ty \<and> w = Some None \<and> p"
| "fd_state (Held t) w ty p \<longleftrightarrow> is_client ty \<and> w = Some None \<and> \<not> p"
| "fd_state (Posting t) w ty p \<longleftrightarrow> is_client ty \<and> w = None \<and> \<not> p"

fun held :: "place \<Rightarrow> nat list" where
  "held (AtStep fd) = [fd]"
| "held (AtMaybe fd) = [fd]"
| "held (AtPush fd recent) = [fd, recent]"
| "held _ = []"

definition fds_agree :: "(nat \<Rightarrow> owner) \<Rightarrow> qstate \<Rightarrow> (nat \<Rightarrow> bool) \<Rightarrow> bool" where
  "fds_agree own q parked \<longleftrightarrow> (\<forall>fd. fd_state (own fd) (q_watch q fd) (q_types q fd) (parked fd))"

definition thr_agree :: "(nat \<Rightarrow> owner) \<Rightarrow> (nat \<Rightarrow> place) \<Rightarrow> bool" where
  "thr_agree own thr \<longleftrightarrow>
     (\<forall>t fd. (own fd = Held t \<longleftrightarrow> fd \<in> set (held (thr t))) \<and> (own fd = Posting t \<longleftrightarrow> thr t = AtPost fd)) \<and>
     (\<forall>t. distinct (held (thr t)))"

definition owned :: "(nat \<Rightarrow> owner) \<Rightarrow> sys \<Rightarrow> bool" where
  "owned own s \<longleftrightarrow> fds_agree own (s_q s) (s_parked s) \<and> thr_agree own (s_thr s)"

lemma fds_agree_upd:
  assumes "fds_agree own q parked" "fd_state ow (q_watch q' fd) (q_types q' fd) (parked' fd)"
    and "\<And>x. x \<noteq> fd \<Longrightarrow> q_watch q' x = q_watch q x \<and> q_types q' x = q_types q x \<and> parked' x = parked x"
  shows "fds_agree (own(fd := ow)) q' parked'"
  using assms by (auto simp: fds_agree_def)

text \<open>A descriptor changes hands: thread \<open>t\<close> moves, and everything else stays as it is.\<close>

lemma thr_agree_upd:
  assumes "thr_agree own thr" "distinct (held pl)"
    and "own fd \<in> {Held t, Posting t} \<or> (\<forall>u. own fd \<noteq> Held u \<and> own fd \<noteq> Posting u)"
    and "(\<forall>u. ow \<noteq> Held u \<and> ow \<noteq> Posting u) \<or> ow \<in> {Held t, Posting t}"
    and "set (held pl) = (if ow = Held t then insert fd (set (held (thr t))) else set (held (thr t)) - {fd})"
    and "\<And>x. pl = AtPost x \<longleftrightarrow> (if x = fd then ow = Posting t else thr t = AtPost x)"
  shows "thr_agree (own(fd := ow)) (thr(t := pl))"
proof -
  have H: "x \<in> set (held (thr u)) \<longleftrightarrow> own x = Held u" and P: "thr u = AtPost x \<longleftrightarrow> own x = Posting u" for x u
    using assms(1) unfolding thr_agree_def by auto
  have o: "u \<noteq> t \<Longrightarrow> own fd \<noteq> Held u \<and> own fd \<noteq> Posting u \<and> ow \<noteq> Held u \<and> ow \<noteq> Posting u" for u
    using assms(3,4) by auto
  have "(own(fd := ow)) x = Held u \<longleftrightarrow> x \<in> set (held ((thr(t := pl)) u))" for x u
    using o [of u] assms(4,5) H by (cases "u = t"; cases "x = fd") auto
  moreover have "(own(fd := ow)) x = Posting u \<longleftrightarrow> (thr(t := pl)) u = AtPost x" for x u
    using o [of u] assms(4,6) P by (cases "u = t"; cases "x = fd") auto
  moreover have "distinct (held ((thr(t := pl)) u))" for u
    using assms(1,2) unfolding thr_agree_def by simp
  ultimately show ?thesis
    unfolding thr_agree_def by blast
qed

lemma thr_agree_fd:
  assumes "thr_agree own thr" "\<forall>u. own fd \<noteq> Held u \<and> own fd \<noteq> Posting u" "\<forall>u. ow \<noteq> Held u \<and> ow \<noteq> Posting u"
  shows "thr_agree (own(fd := ow)) thr"
  using assms unfolding thr_agree_def by auto

lemma thr_agree_move:
  assumes "thr_agree own thr" "held pl = held (thr t)" "\<And>x. pl = AtPost x \<longleftrightarrow> thr t = AtPost x"
  shows "thr_agree own (thr(t := pl))"
  using assms unfolding thr_agree_def by auto

lemma owned_at:
  assumes "owned own s"
  shows "s_thr s t = AtPost fd \<Longrightarrow> own fd = Posting t"
    and "fd \<in> set (held (s_thr s t)) \<Longrightarrow> own fd = Held t"
    and "fd_state (own fd) (q_watch (s_q s) fd) (q_types (s_q s) fd) (s_parked s fd)"
  using assms unfolding owned_def fds_agree_def thr_agree_def by auto

section \<open>Every action keeps ownership\<close>

definition armed :: "nat \<Rightarrow> mog_qev \<Rightarrow> qstate \<Rightarrow> qstate" where
  "armed fd ev q = q\<lparr>q_watch := (q_watch q)(fd := Some (Some ev))\<rparr>"

definition closed :: "nat \<Rightarrow> qstate \<Rightarrow> qstate" where
  "closed fd q = q\<lparr>q_types := (q_types q)(fd := MOG_FD_TYPE_UNUSED), q_watch := (q_watch q)(fd := None)\<rparr>"

lemma client_used [simp]: "is_client ty \<Longrightarrow> ty \<noteq> MOG_FD_TYPE_UNUSED" "\<not> is_client MOG_FD_TYPE_UNUSED"
  by (auto simp: is_client_def)

lemma fd_put_closed: "is_client (q_types q fd) \<Longrightarrow> fd_put fd q = Ret (closed fd q)"
  using client_used(1) [of "q_types q fd"] by (simp add: fd_put_def closed_def)

lemma add_result:
  "is_client (q_types q fd) \<Longrightarrow> q_watch q fd = None \<Longrightarrow> ctl_ok ans \<Longrightarrow>
   \<exists>q'. mog_idleq_add fd ev ans q = Ret q' \<and> q' \<in> {armed fd ev q, closed fd q}"
  by (auto simp: mog_idleq_add_def idleq_mod_def epoll_ctl_def epoll_ctl_error_def ctl_ok_def fd_put_closed armed_def)

lemma push_result:
  assumes "is_client (q_types q fd)" "q_watch q fd = Some None" "ctl_ok (fst ans)" "ctl_ok (snd ans)"
  shows "\<exists>q'. mog_idleq_push buggy fd ev ans q = Ret q' \<and> q' \<in> {armed fd ev q, closed fd q}"
  using assms
  by (cases ans)
    (auto simp: mog_idleq_push_def fake_epoll_ctl_mod_def idleq_mod_def epoll_ctl_def epoll_ctl_error_def ctl_ok_def
      fd_put_closed armed_def closed_def)

text \<open>The owner of a descriptor after a push, and after it was taken from the set.\<close>

definition after_push :: "nat \<Rightarrow> qstate \<Rightarrow> owner" where
  "after_push fd q = (if q_watch q fd = None then Nobody else Queue)"

lemma pushed_agree:
  assumes "fds_agree own q parked" "is_client (q_types q fd)" "q' \<in> {armed fd ev q, closed fd q}"
    and "\<not> parked' fd" "\<And>x. x \<noteq> fd \<Longrightarrow> parked' x = parked x"
  shows "fds_agree (own(fd := after_push fd q')) q' parked'"
  by (rule fds_agree_upd [OF assms(1)]) (use assms in \<open>auto simp: armed_def closed_def after_push_def\<close>)

lemma after_push_free [simp]: "after_push fd q \<noteq> Held u" "after_push fd q \<noteq> Posting u"
  by (simp_all add: after_push_def)

lemma wait_result:
  assumes "owned own s" "wait_ok a (s_q s)" "mog_idleq_wait a (s_q s) = Ret (r, q)"
  shows "case r of None \<Rightarrow> q = s_q s
     | Some fd \<Rightarrow> own fd = Queue \<and> fds_agree (own(fd := Held t)) q (s_parked s)"
proof (cases a)
  case (EvFd fd)
  then have q: "r = Some fd" "q = (s_q s)\<lparr>q_watch := (q_watch (s_q s))(fd := Some None)\<rparr>"
    using assms(3) by (simp_all add: mog_idleq_wait_def)
  have st: "own fd = Queue" "is_client (q_types (s_q s) fd)" "\<not> s_parked s fd"
    using owned_at(3) [OF assms(1), of fd] assms(2) EvFd by (cases "own fd"; simp add: wait_ok_def)+
  have "fds_agree (own(fd := Held t)) q (s_parked s)"
    by (rule fds_agree_upd) (use assms(1) st q in \<open>auto simp: owned_def\<close>)
  then show ?thesis
    using st q by simp
qed (use assms in \<open>auto simp: mog_idleq_wait_def wait_ok_def\<close>)

lemma wait_returns: "wait_ok a q \<Longrightarrow> \<exists>r q'. mog_idleq_wait a q = Ret (r, q')"
  by (cases a) (auto simp: mog_idleq_wait_def wait_ok_def)

definition stays_owned :: "bool \<Rightarrow> action \<Rightarrow> sys \<Rightarrow> bool" where
  "stays_owned buggy a s \<longleftrightarrow> (\<exists>s' own'. act buggy a s = Ret s' \<and> owned own' s')"

lemma stays_ownedI: "act buggy a s = Ret s' \<Longrightarrow> owned own' s' \<Longrightarrow> stays_owned buggy a s"
  unfolding stays_owned_def by blast

lemma owned_goto:
  "owned own (goto t pl q s) \<longleftrightarrow> fds_agree own q (s_parked s) \<and> thr_agree own ((s_thr s)(t := pl))"
  by (simp add: owned_def goto_def)

lemma keep_accept: "owned own s \<Longrightarrow> enabled (Accept t fd ty) s \<Longrightarrow> stays_owned buggy (Accept t fd ty) s"
proof (rule stays_ownedI, simp, unfold owned_goto, rule conjI)
  assume a: "owned own s" "enabled (Accept t fd ty) s"
  have st: "own fd = Nobody" "q_watch (s_q s) fd = None" "\<not> s_parked s fd"
    using owned_at(3) [OF a(1), of fd] a(2) by (cases "own fd"; simp)+
  show "fds_agree (own(fd := Posting t)) ((s_q s)\<lparr>q_types := (q_types (s_q s))(fd := ty)\<rparr>) (s_parked s)"
    by (rule fds_agree_upd) (use a st in \<open>auto simp: owned_def\<close>)
  show "thr_agree (own(fd := Posting t)) ((s_thr s)(t := AtPost fd))"
    by (rule thr_agree_upd) (use a st in \<open>auto simp: owned_def\<close>)
qed

lemma keep_post: "owned own s \<Longrightarrow> enabled (Post t ans) s \<Longrightarrow> stays_owned buggy (Post t ans) s"
proof -
  assume a: "owned own s" "enabled (Post t ans) s"
  then obtain fd where fd: "s_thr s t = AtPost fd" "ctl_ok ans"
    by (auto split: place.splits)
  have st: "own fd = Posting t" "is_client (q_types (s_q s) fd)" "q_watch (s_q s) fd = None" "\<not> s_parked s fd"
    using owned_at(1) [OF a(1) fd(1)] owned_at(3) [OF a(1), of fd] by simp_all
  obtain q where q: "mog_idleq_add fd MOG_QEV_RD ans (s_q s) = Ret q" "q \<in> {armed fd MOG_QEV_RD (s_q s), closed fd (s_q s)}"
    using add_result [OF st(2,3) fd(2)] by blast
  have "fds_agree (own(fd := after_push fd q)) q (s_parked s)"
    by (rule pushed_agree [OF _ st(2) q(2)]) (use a st in \<open>auto simp: owned_def\<close>)
  moreover have "thr_agree (own(fd := after_push fd q)) ((s_thr s)(t := AtAccept))"
    by (rule thr_agree_upd) (use a st fd in \<open>auto simp: owned_def\<close>)
  ultimately show ?thesis
    using q(1) fd(1) by (intro stays_ownedI [where own' = "own(fd := after_push fd q)"]) (auto simp: owned_goto)
qed

lemma keep_wait: "owned own s \<Longrightarrow> enabled (Wait t a) s \<Longrightarrow> stays_owned buggy (Wait t a) s"
proof -
  assume a: "owned own s" "enabled (Wait t a) s"
  then have t: "s_thr s t = AtWait" "wait_ok a (s_q s)"
    by simp_all
  obtain r q where w: "mog_idleq_wait a (s_q s) = Ret (r, q)"
    using wait_returns [OF t(2)] by blast
  note wr = wait_result [OF a(1) t(2) w, of t]
  show ?thesis
  proof (cases r)
    case None
    have "thr_agree own ((s_thr s)(t := AtWait))"
      by (rule thr_agree_move) (use a t in \<open>auto simp: owned_def\<close>)
    then have "owned own (goto t AtWait (s_q s) s)"
      using a by (simp add: owned_goto) (simp add: owned_def)
    then show ?thesis
      using w wr None by (auto simp: stays_owned_def)
  next
    case (Some fd)
    have "thr_agree (own(fd := Held t)) ((s_thr s)(t := AtStep fd))"
      by (rule thr_agree_upd) (use a t wr Some in \<open>auto simp: owned_def\<close>)
    then show ?thesis
      using w wr Some by (intro stays_ownedI [where own' = "own(fd := Held t)"]) (auto simp: owned_goto)
  qed
qed

lemma keep_maybe: "owned own s \<Longrightarrow> enabled (Maybe t a) s \<Longrightarrow> stays_owned buggy (Maybe t a) s"
proof -
  assume a: "owned own s" "enabled (Maybe t a) s"
  then obtain fd where t: "s_thr s t = AtMaybe fd" and ok: "wait_ok a (s_q s)"
    by (auto split: place.splits)
  obtain r q where w: "mog_idleq_wait a (s_q s) = Ret (r, q)"
    using wait_returns [OF ok] by blast
  have fd: "own fd = Held t"
    using owned_at(2) [OF a(1), of fd t] t by simp
  note wr = wait_result [OF a(1) ok w, of t]
  show ?thesis
  proof (cases r)
    case None
    have "thr_agree own ((s_thr s)(t := AtStep fd))"
      by (rule thr_agree_move) (use a t in \<open>auto simp: owned_def\<close>)
    then have "owned own (goto t (AtStep fd) (s_q s) s)"
      using a by (simp add: owned_goto) (simp add: owned_def)
    then show ?thesis
      using t w wr None by (auto simp: stays_owned_def)
  next
    case (Some x)
    have "thr_agree (own(x := Held t)) ((s_thr s)(t := AtPush fd x))"
      by (rule thr_agree_upd) (use a t wr fd Some in \<open>auto simp: owned_def\<close>)
    then show ?thesis
      using t w wr Some by (intro stays_ownedI [where own' = "own(x := Held t)"]) (auto simp: owned_goto)
  qed
qed

text \<open>Pushing back a descriptor that thread \<open>t\<close> holds, before the thread moves on to \<open>pl\<close>.\<close>

lemma keep_pushed:
  assumes "owned own s" "fd \<in> set (held (s_thr s t))" "ctl_ok (fst ans)" "ctl_ok (snd ans)"
    and "set (held pl) = set (held (s_thr s t)) - {fd}" "distinct (held pl)" "\<And>x. pl \<noteq> AtPost x"
  shows "\<exists>q own'. mog_idleq_push buggy fd ev ans (s_q s) = Ret q \<and> owned own' (goto t pl q s)"
proof -
  have st: "own fd = Held t" "is_client (q_types (s_q s) fd)" "q_watch (s_q s) fd = Some None" "\<not> s_parked s fd"
    using owned_at(2) [OF assms(1,2)] owned_at(3) [OF assms(1), of fd] by simp_all
  obtain q where q: "mog_idleq_push buggy fd ev ans (s_q s) = Ret q" "q \<in> {armed fd ev (s_q s), closed fd (s_q s)}"
    using push_result [OF st(2,3) assms(3,4)] by blast
  have "fds_agree (own(fd := after_push fd q)) q (s_parked s)"
    by (rule pushed_agree [OF _ st(2) q(2)]) (use assms(1) st in \<open>auto simp: owned_def\<close>)
  moreover have "s_thr s t \<noteq> AtPost x" for x
    using assms(2) by auto
  then have "thr_agree (own(fd := after_push fd q)) ((s_thr s)(t := pl))"
    by (intro thr_agree_upd) (use assms st in \<open>auto simp: owned_def\<close>)
  ultimately show ?thesis
    using q(1) by (auto simp: owned_goto)
qed

lemma keep_push: "owned own s \<Longrightarrow> enabled (Push t ans) s \<Longrightarrow> stays_owned buggy (Push t ans) s"
proof -
  assume a: "owned own s" "enabled (Push t ans) s"
  then obtain fd x where t: "s_thr s t = AtPush fd x" and ok: "ctl_ok (fst ans)" "ctl_ok (snd ans)"
    by (auto split: place.splits)
  have "distinct (held (s_thr s t))"
    using a(1) by (auto simp: owned_def thr_agree_def)
  then have "\<exists>q own'. mog_idleq_push buggy fd MOG_QEV_RW ans (s_q s) = Ret q \<and> owned own' (goto t (AtStep x) q s)"
    using t by (intro keep_pushed [OF a(1) _ ok]) auto
  then show ?thesis
    using t by (auto simp: stays_owned_def mog_activeq_push_def)
qed

text \<open>The owner of a descriptor lets go of it: it is parked or closed.\<close>

lemma keep_released:
  assumes "owned own s" "fd \<in> set (held (s_thr s t))" "held (s_thr s t) = [fd]"
  shows "\<exists>own'. owned own' ((goto t AtWait (s_q s) s)\<lparr>s_parked := (s_parked s)(fd := True)\<rparr>)"
    and "\<exists>own'. owned own' (goto t AtWait (closed fd (s_q s)) s)"
proof -
  have st: "own fd = Held t" "is_client (q_types (s_q s) fd)" "q_watch (s_q s) fd = Some None" "\<not> s_parked s fd"
    using owned_at(2) [OF assms(1,2)] owned_at(3) [OF assms(1), of fd] by simp_all
  have np: "s_thr s t \<noteq> AtPost x" for x
    using assms(2) by auto
  have thr: "ow \<in> {Nobody, Parked} \<Longrightarrow> thr_agree (own(fd := ow)) ((s_thr s)(t := AtWait))" for ow
    by (rule thr_agree_upd) (use assms st np in \<open>auto simp: owned_def\<close>)
  have "fds_agree (own(fd := Parked)) (s_q s) ((s_parked s)(fd := True))"
    by (rule fds_agree_upd) (use assms(1) st in \<open>auto simp: owned_def\<close>)
  then have "owned (own(fd := Parked)) ((goto t AtWait (s_q s) s)\<lparr>s_parked := (s_parked s)(fd := True)\<rparr>)"
    using thr [of Parked] by (simp add: owned_def goto_def)
  then show "\<exists>own'. owned own' ((goto t AtWait (s_q s) s)\<lparr>s_parked := (s_parked s)(fd := True)\<rparr>)"
    by blast
  have "fds_agree (own(fd := Nobody)) (closed fd (s_q s)) (s_parked s)"
    by (rule fds_agree_upd) (use assms(1) st in \<open>auto simp: owned_def closed_def\<close>)
  then show "\<exists>own'. owned own' (goto t AtWait (closed fd (s_q s)) s)"
    using thr [of Nobody] by (auto simp: owned_goto)
qed

lemma keep_step: "owned own s \<Longrightarrow> enabled (Step t nx ans) s \<Longrightarrow> stays_owned buggy (Step t nx ans) s"
proof -
  assume a: "owned own s" "enabled (Step t nx ans) s"
  then obtain fd where t: "s_thr s t = AtStep fd" and ok: "ctl_ok (fst ans)" "ctl_ok (snd ans)"
    by (auto split: place.splits)
  have st: "own fd = Held t" "is_client (q_types (s_q s) fd)"
    using owned_at(2) [OF a(1), of fd t] owned_at(3) [OF a(1), of fd] t by simp_all
  then have "mog_queue_step nx (q_types (s_q s) fd) = Ret nx"
    by (auto simp: mog_queue_step_def is_client_def)
  then have "act buggy (Step t nx ans) s = queue_loop_next buggy t fd nx ans s"
    using t by simp
  moreover have "\<exists>s' own'. queue_loop_next buggy t fd nx ans s = Ret s' \<and> owned own' s'"
  proof (cases nx)
    case MOG_NEXT_ACTIVE
    have "thr_agree own ((s_thr s)(t := AtMaybe fd))"
      by (rule thr_agree_move) (use a t in \<open>auto simp: owned_def\<close>)
    then have "owned own (goto t (AtMaybe fd) (s_q s) s)"
      using a(1) by (simp add: owned_goto) (simp add: owned_def)
    then show ?thesis
      using MOG_NEXT_ACTIVE by (auto simp: queue_loop_next_def)
  next
    case MOG_NEXT_WAIT_RD
    then show ?thesis
      using keep_pushed [OF a(1) _ ok, of fd t AtWait] t by (fastforce simp: queue_loop_next_def)
  next
    case MOG_NEXT_WAIT_WR
    then show ?thesis
      using keep_pushed [OF a(1) _ ok, of fd t AtWait] t by (fastforce simp: queue_loop_next_def)
  next
    case MOG_NEXT_IGNORE
    then show ?thesis
      using keep_released(1) [OF a(1), of fd t] t by (simp add: queue_loop_next_def)
  next
    case MOG_NEXT_CLOSE
    then show ?thesis
      using keep_released(2) [OF a(1), of fd t] t st by (simp add: queue_loop_next_def fd_put_closed del: obind_Ret)
  qed
  ultimately show ?thesis
    by (simp add: stays_owned_def)
qed

lemma keep_resume:
  assumes "owned own s" "enabled (Resume fd ev ans) s"
  shows "stays_owned buggy (Resume fd ev ans) s"
proof -
  have st: "own fd = Parked" "is_client (q_types (s_q s) fd)" "q_watch (s_q s) fd = Some None"
    using owned_at(3) [OF assms(1), of fd] assms(2) by (cases "own fd"; simp)+
  obtain q where q: "mog_idleq_push buggy fd ev ans (s_q s) = Ret q" "q \<in> {armed fd ev (s_q s), closed fd (s_q s)}"
    using push_result [OF st(2,3)] assms(2) by (meson enabled.simps)
  have "fds_agree (own(fd := after_push fd q)) q ((s_parked s)(fd := False))"
    by (rule pushed_agree [OF _ st(2) q(2)]) (use assms(1) st in \<open>auto simp: owned_def\<close>)
  moreover have "thr_agree (own(fd := after_push fd q)) (s_thr s)"
    by (rule thr_agree_fd) (use assms(1) st in \<open>auto simp: owned_def\<close>)
  ultimately have "owned (own(fd := after_push fd q)) (s\<lparr>s_q := q, s_parked := (s_parked s)(fd := False)\<rparr>)"
    by (simp add: owned_def)
  then show ?thesis
    using q(1) by (auto simp: stays_owned_def)
qed

lemma keep_drop:
  assumes "owned own s" "enabled (Drop fd) s"
  shows "stays_owned buggy (Drop fd) s"
proof -
  have st: "own fd = Parked" "is_client (q_types (s_q s) fd)"
    using owned_at(3) [OF assms(1), of fd] assms(2) by (cases "own fd"; simp)+
  have "fds_agree (own(fd := Nobody)) (closed fd (s_q s)) ((s_parked s)(fd := False))"
    by (rule fds_agree_upd) (use assms(1) st in \<open>auto simp: owned_def closed_def\<close>)
  moreover have "thr_agree (own(fd := Nobody)) (s_thr s)"
    by (rule thr_agree_fd) (use assms(1) st in \<open>auto simp: owned_def\<close>)
  ultimately have "owned (own(fd := Nobody)) (s\<lparr>s_q := closed fd (s_q s), s_parked := (s_parked s)(fd := False)\<rparr>)"
    by (simp add: owned_def)
  then show ?thesis
    using st by (auto simp: stays_owned_def fd_put_closed)
qed

lemmas keep_owned = keep_accept keep_post keep_wait keep_step keep_maybe keep_push keep_resume keep_drop

lemma action_keeps: "owned own s \<Longrightarrow> enabled a s \<Longrightarrow> stays_owned buggy a s"
  by (cases a) (blast intro: keep_owned)+

lemma reachable_owned: "reachable buggy s \<Longrightarrow> \<exists>own. owned own s"
proof (induction rule: reachable.induct)
  case (start s)
  then have "fds_agree (\<lambda>_. Nobody) (s_q s) (s_parked s)"
    by (simp add: initial_def fds_agree_def)
  moreover have "held (s_thr s t) = [] \<and> (\<forall>fd. s_thr s t \<noteq> AtPost fd)" for t
    using start by (cases "s_thr s t") (auto simp: initial_def dest: spec [of _ t])
  then have "thr_agree (\<lambda>_. Nobody) (s_thr s)"
    by (simp add: thr_agree_def)
  ultimately show ?case
    by (auto simp: owned_def)
next
  case (step s a s')
  then show ?case
    using action_keeps [of _ s a buggy] by (auto simp: stays_owned_def)
qed

section \<open>What the threads can rely on\<close>

text \<open>
  C5: The queue never gives a client to two threads. In every state that the worker and accept threads can reach, whatever
  order they run in and whatever their handlers return, a descriptor is in the hands of at most one thread, and while it is, the kernel
  does not report it to another and no digest queue or subscription holds it.
\<close>

theorem one_thread_per_client:
  assumes "reachable buggy s" "fd \<in> set (held (s_thr s t))"
  shows "(\<forall>u. u \<noteq> t \<longrightarrow> fd \<notin> set (held (s_thr s u))) \<and>
    \<not> s_parked s fd \<and> q_watch (s_q s) fd = Some None \<and> is_client (q_types (s_q s) fd)"
proof -
  obtain own where own: "owned own s"
    using reachable_owned [OF assms(1)] by blast
  have "own fd = Held t"
    using owned_at(2) [OF own assms(2)] .
  moreover from this have "u \<noteq> t \<Longrightarrow> fd \<notin> set (held (s_thr s u))" for u
    using owned_at(2) [OF own, of fd u] by auto
  ultimately show ?thesis
    using owned_at(3) [OF own, of fd] by simp
qed

text \<open>A worker that has just taken a new client from the set.\<close>

definition sys_start :: sys where
  "sys_start = \<lparr>s_q = \<lparr>q_watch = \<lambda>_. None, q_types = \<lambda>_. MOG_FD_TYPE_UNUSED\<rparr>,
     s_thr = \<lambda>t. if t = 0 then AtAccept else AtWait, s_parked = \<lambda>_. False\<rparr>"

definition sys_busy :: sys where
  "sys_busy = \<lparr>s_q = \<lparr>q_watch = (\<lambda>_. None)(7 := Some None), q_types = (\<lambda>_. MOG_FD_TYPE_UNUSED)(7 := MOG_FD_TYPE_HTTP)\<rparr>,
     s_thr = (\<lambda>t. if t = 0 then AtAccept else AtWait)(1 := AtStep 7), s_parked = \<lambda>_. False\<rparr>"

lemma sys_busy_reachable: "reachable False sys_busy"
proof -
  have s0: "reachable False sys_start"
    by (rule reachable.start) (simp add: initial_def sys_start_def)
  let ?s1 = "goto 0 (AtPost 7) \<lparr>q_watch = \<lambda>_. None, q_types = (\<lambda>_. MOG_FD_TYPE_UNUSED)(7 := MOG_FD_TYPE_HTTP)\<rparr> sys_start"
  let ?q2 = "\<lparr>q_watch = (\<lambda>_. None)(7 := Some (Some MOG_QEV_RD)), q_types = (\<lambda>_. MOG_FD_TYPE_UNUSED)(7 := MOG_FD_TYPE_HTTP)\<rparr>"
  let ?s2 = "goto 0 AtAccept ?q2 ?s1"
  have s1: "reachable False ?s1"
    by (rule reachable.step [OF s0, of "Accept 0 7 MOG_FD_TYPE_HTTP"]) (simp_all add: sys_start_def is_client_def)
  have s2: "reachable False ?s2"
    by (rule reachable.step [OF s1, of "Post 0 None"])
      (simp_all add: sys_start_def goto_def ctl_ok_def mog_idleq_add_def idleq_mod_def epoll_ctl_def)
  show ?thesis
    by (rule reachable.step [OF s2, of "Wait 1 (EvFd 7)"])
      (auto simp: sys_start_def sys_busy_def goto_def wait_ok_def mog_idleq_wait_def)
qed

theorem one_thread_per_client_witness:
  "reachable False sys_busy \<and> 7 \<in> set (held (s_thr sys_busy 1)) \<and> 7 \<notin> set (held (s_thr sys_busy 2)) \<and>
   q_watch (s_q sys_busy) 7 = Some None"
  using one_thread_per_client [OF sys_busy_reachable, of 7 1] sys_busy_reachable by (simp add: sys_busy_def)



end
