(* ===== verification/Mog_Quit.thy ===== *)
theory Mog_Quit
  imports Mog_Queue Mog_Http
begin

text \<open>
  Graceful shutdown: \<^verbatim>\<open>mog_queue_quit_loop\<close> (\<^verbatim>\<open>queue_loop.c\<close>) in the one thread that is left, after \<^verbatim>\<open>mog_fdmap_requeue\<close> has put
  every client into one queue and counted them. What a handler makes of its client is one of the outcomes of
  \<^verbatim>\<open>mog_http_quit_step\<close> and \<^verbatim>\<open>mog_mgmt_quit_step\<close>.
\<close>

section \<open>Model\<close>

text \<open>The state is the counter \<^verbatim>\<open>mog_nr_active_at_quit\<close>, a \<^verbatim>\<open>size_t\<close>, and the queue with the descriptor table.\<close>

type_synonym quit_state = "nat \<times> qstate"

definition quit_client ::
  "bool \<Rightarrow> nat \<Rightarrow> quit_next \<Rightarrow> errno option \<times> errno option \<Rightarrow> quit_state \<Rightarrow> quit_state outcome" where
  "quit_client buggy fd nx ans = (\<lambda>(nr, q).
     case nx of
       Quit_Idle_RD \<Rightarrow> obind (mog_idleq_push buggy fd MOG_QEV_RD ans q) (\<lambda>q1. Ret (nr, q1))
     | Quit_Idle_WR \<Rightarrow> obind (mog_idleq_push buggy fd MOG_QEV_WR ans q) (\<lambda>q1. Ret (nr, q1))
     | Quit_Active \<Rightarrow> obind (mog_activeq_push buggy fd ans q) (\<lambda>q1. Ret (nr, q1))
     | Quit_Closed \<Rightarrow> obind (fd_put fd q) (\<lambda>q1. Ret ((nr + (2 ^ 64 - 1)) mod 2 ^ 64, q1)))"

definition queue_quit_step ::
  "bool \<Rightarrow> nat \<Rightarrow> quit_next \<Rightarrow> errno option \<times> errno option \<Rightarrow> quit_state \<Rightarrow> quit_state outcome" where
  "queue_quit_step buggy fd nx ans s =
     (case q_types (snd s) fd of
        MOG_FD_TYPE_MGMT \<Rightarrow> quit_client buggy fd nx ans s
      | MOG_FD_TYPE_HTTP \<Rightarrow> quit_client buggy fd nx ans s
      | MOG_FD_TYPE_HTTPGET \<Rightarrow> quit_client buggy fd nx ans s
      | MOG_FD_TYPE_FILE \<Rightarrow> Abort
      | MOG_FD_TYPE_QUEUE \<Rightarrow> Abort
      | MOG_FD_TYPE_SVC \<Rightarrow> Abort
      | _ \<Rightarrow> Ret s)"

text \<open>The body of the loop, which runs while the counter is not zero.\<close>

definition quit_round ::
  "bool \<Rightarrow> epoll_answer \<Rightarrow> quit_next \<Rightarrow> errno option \<times> errno option \<Rightarrow> quit_state \<Rightarrow> quit_state outcome" where
  "quit_round buggy a nx ans = (\<lambda>(nr, q).
     assert_then (nr \<le> int_max)
      (obind (mog_idleq_wait a q) (\<lambda>(r, q1).
         case r of None \<Rightarrow> Ret (nr, q1) | Some fd \<Rightarrow> queue_quit_step buggy fd nx ans (nr, q1))))"

text \<open>The states of the loop. With \<open>lossless\<close>, \<^verbatim>\<open>epoll_ctl\<close> never fails.\<close>

definition ctl2_ok :: "bool \<Rightarrow> errno option \<times> errno option \<Rightarrow> bool" where
  "ctl2_ok lossless ans \<longleftrightarrow> (if lossless then ans = (None, None) else ctl_ok (fst ans) \<and> ctl_ok (snd ans))"

inductive quit_reach :: "bool \<Rightarrow> bool \<Rightarrow> quit_state \<Rightarrow> quit_state \<Rightarrow> bool" for buggy lossless s0 where
  start: "quit_reach buggy lossless s0 s0"
| round: "quit_reach buggy lossless s0 s \<Longrightarrow> fst s \<noteq> 0 \<Longrightarrow> wait_ok a (snd s) \<Longrightarrow> ctl2_ok lossless ans \<Longrightarrow>
    quit_round buggy a nx ans s = Ret s' \<Longrightarrow> quit_reach buggy lossless s0 s'"

section \<open>The clients that are left\<close>

definition clients :: "qstate \<Rightarrow> nat set" where
  "clients q = {fd. is_client (q_types q fd)}"

text \<open>The state \<^verbatim>\<open>mog_fdmap_requeue\<close> leaves: the clients, and only they, are armed.\<close>

definition quit_ok :: "quit_state \<Rightarrow> bool" where
  "quit_ok s \<longleftrightarrow> fst s \<le> int_max \<and> finite (clients (snd s)) \<and> card (clients (snd s)) \<le> fst s \<and>
     (\<forall>fd. fd \<in> clients (snd s) \<longleftrightarrow> q_watch (snd s) fd \<noteq> None) \<and>
     (\<forall>fd. q_watch (snd s) fd \<noteq> Some None)"

definition gap :: "quit_state \<Rightarrow> nat" where
  "gap s = fst s - card (clients (snd s))"

text \<open>What a round does: nothing to the count of missing clients, unless the kernel refuses a push.\<close>

definition keeps_count :: "bool \<Rightarrow> quit_state \<Rightarrow> quit_state \<Rightarrow> bool" where
  "keeps_count lossless s s' \<longleftrightarrow> quit_ok s' \<and> gap s \<le> gap s' \<and> (lossless \<longrightarrow> gap s' = gap s)"

lemma clients_armed [simp]: "clients (armed fd ev q) = clients q"
  by (simp add: clients_def armed_def)

lemma clients_closed [simp]: "clients (closed fd q) = clients q - {fd}"
  by (auto simp: clients_def closed_def)

lemma clients_watch [simp]: "clients (q\<lparr>q_watch := w\<rparr>) = clients q"
  by (simp add: clients_def)

lemma push_lossless:
  assumes "is_client (q_types q fd)" "q_watch q fd = Some None"
  shows "mog_idleq_push buggy fd ev (None, None) q = Ret (armed fd ev q)"
  using assms
  by (simp add: mog_idleq_push_def fake_epoll_ctl_mod_def idleq_mod_def epoll_ctl_def armed_def)

text \<open>A client that was taken from the set is armed again or closed.\<close>

definition taken :: "nat \<Rightarrow> qstate \<Rightarrow> qstate" where
  "taken fd q = q\<lparr>q_watch := (q_watch q)(fd := Some None)\<rparr>"

lemma taken_simps [simp]:
  "clients (taken fd q) = clients q"
  "q_watch (armed fd ev (taken fd q)) x = (if x = fd then Some (Some ev) else q_watch q x)"
  "q_watch (closed fd (taken fd q)) x = (if x = fd then None else q_watch q x)"
  by (simp_all add: taken_def armed_def closed_def)

lemma back_armed:
  assumes "quit_ok (nr, q)" "fd \<in> clients q"
  shows "keeps_count lossless (nr, q) (nr, armed fd ev (taken fd q))"
  using assms by (simp add: keeps_count_def quit_ok_def gap_def)

lemma closed_ok:
  assumes "quit_ok (nr, q)" "fd \<in> clients q" "card (clients q) - 1 \<le> n" "n \<le> nr"
  shows "quit_ok (n, closed fd (taken fd q))" and "gap (n, closed fd (taken fd q)) = n - (card (clients q) - 1)"
proof -
  have "card (clients q - {fd}) = card (clients q) - 1"
    using assms(2) by simp
  then show "quit_ok (n, closed fd (taken fd q))" "gap (n, closed fd (taken fd q)) = n - (card (clients q) - 1)"
    using assms by (simp_all add: quit_ok_def gap_def del: card_Diff_insert)
qed

lemma dropped:
  assumes "quit_ok (nr, q)" "fd \<in> clients q"
  shows "keeps_count False (nr, q) (nr, closed fd (taken fd q))"
proof -
  have "card (clients q) \<le> nr"
    using assms(1) by (simp add: quit_ok_def)
  then show ?thesis
    using closed_ok [OF assms, of nr] by (simp add: keeps_count_def gap_def)
qed

lemma client_pos: "quit_ok (nr, q) \<Longrightarrow> fd \<in> clients q \<Longrightarrow> 0 < card (clients q) \<and> card (clients q) \<le> nr \<and> nr < 2 ^ 64"
  by (auto simp: quit_ok_def int_max_def card_gt_0_iff)

lemma dec_wrap: "0 < nr \<Longrightarrow> nr < 2 ^ 64 \<Longrightarrow> (nr + (2 ^ 64 - 1)) mod 2 ^ 64 = nr - (1::nat)"
  by (cases nr) simp_all

lemma put_back:
  assumes "quit_ok (nr, q)" "fd \<in> clients q"
  shows "keeps_count lossless (nr, q) (nr - 1, closed fd (taken fd q))"
proof -
  have "card (clients q) - 1 \<le> nr - 1" "nr - 1 - (card (clients q) - 1) = nr - card (clients q)"
    using client_pos [OF assms] by auto
  then show ?thesis
    using closed_ok [OF assms, of "nr - 1"] by (simp add: keeps_count_def gap_def)
qed

lemma quit_client_ok:
  assumes "quit_ok (nr, q)" "fd \<in> clients q" "ctl2_ok lossless ans"
  shows "\<exists>s'. quit_client buggy fd nx ans (nr, taken fd q) = Ret s' \<and> keeps_count lossless (nr, q) s'"
proof -
  have c: "is_client (q_types (taken fd q) fd)" "q_watch (taken fd q) fd = Some None"
    using assms(2) by (simp_all add: clients_def taken_def)
  have push: "\<exists>q'. mog_idleq_push buggy fd ev ans (taken fd q) = Ret q' \<and> keeps_count lossless (nr, q) (nr, q')" for ev
  proof (cases lossless)
    case True
    then show ?thesis
      using assms(3) push_lossless [OF c] back_armed [OF assms(1,2)] by (simp add: ctl2_ok_def)
  next
    case False
    then obtain q' where "mog_idleq_push buggy fd ev ans (taken fd q) = Ret q'" "q' \<in> {armed fd ev (taken fd q), closed fd (taken fd q)}"
      using push_result [OF c, of ans buggy ev] assms(3) by (auto simp: ctl2_ok_def)
    then show ?thesis
      using False back_armed [OF assms(1,2)] dropped [OF assms(1,2)] by auto
  qed
  have "fd_put fd (taken fd q) = Ret (closed fd (taken fd q))" "(nr + (2 ^ 64 - 1)) mod 2 ^ 64 = nr - 1"
    using fd_put_closed [OF c(1)] client_pos [OF assms(1,2)] dec_wrap [of nr] by auto
  then have "\<exists>s'. quit_client buggy fd Quit_Closed ans (nr, taken fd q) = Ret s' \<and> keeps_count lossless (nr, q) s'"
    using put_back [OF assms(1,2)] unfolding quit_client_def by simp
  then show ?thesis
    using push [of MOG_QEV_RD] push [of MOG_QEV_WR] push [of MOG_QEV_RW]
    by (cases nx) (auto simp: quit_client_def mog_activeq_push_def)
qed

lemma quit_round_ok:
  assumes "quit_ok s" "wait_ok a (snd s)" "ctl2_ok lossless ans"
  shows "\<exists>s'. quit_round buggy a nx ans s = Ret s' \<and> keeps_count lossless s s'"
proof -
  obtain nr q where s: "s = (nr, q)"
    by (cases s)
  have nr: "nr \<le> int_max"
    using assms(1) s by (simp add: quit_ok_def)
  show ?thesis
  proof (cases a)
    case (EvFd fd)
    then have fd: "fd \<in> clients q"
      using assms(1,2) s by (simp add: quit_ok_def wait_ok_def)
    have "queue_quit_step buggy fd nx ans (nr, taken fd q) = quit_client buggy fd nx ans (nr, taken fd q)"
      using fd by (auto simp: queue_quit_step_def clients_def is_client_def taken_def)
    then show ?thesis
      using quit_client_ok [OF assms(1) [unfolded s] fd assms(3), of buggy nx] s nr EvFd
      by (simp add: quit_round_def mog_idleq_wait_def taken_def [symmetric] del: obind_Ret)
  next
    case EvNone
    then show ?thesis using assms(1) s nr by (simp add: quit_round_def mog_idleq_wait_def keeps_count_def)
  next
    case (EvErr e)
    then show ?thesis using assms(1,2) s nr by (simp add: quit_round_def mog_idleq_wait_def keeps_count_def wait_ok_def)
  qed
qed

lemma quit_reach_ok: "quit_reach buggy lossless s0 s \<Longrightarrow> quit_ok s0 \<Longrightarrow> keeps_count lossless s0 s"
proof (induction rule: quit_reach.induct)
  case (round s a ans nx s')
  then have "keeps_count lossless s0 s"
    by blast
  then show ?case
    using quit_round_ok [of s a lossless ans buggy nx] round.hyps by (auto simp: keeps_count_def)
qed (simp add: keeps_count_def)

section \<open>Shutdown\<close>


text \<open>Two clients, of which the first is closed in the first round.\<close>

definition quit_two :: quit_state where
  "quit_two = (2, \<lparr>q_watch = (\<lambda>_. None)(5 := Some (Some MOG_QEV_RW), 6 := Some (Some MOG_QEV_RW)),
     q_types = (\<lambda>_. MOG_FD_TYPE_UNUSED)(5 := MOG_FD_TYPE_HTTP, 6 := MOG_FD_TYPE_MGMT)\<rparr>)"

definition quit_one :: quit_state where
  "quit_one = (1, closed 5 (taken 5 (snd quit_two)))"

lemma quit_two_clients: "clients (snd quit_two) = {5, 6}"
  by (auto simp: clients_def quit_two_def is_client_def split: if_splits)

lemma quit_two_ok: "quit_ok quit_two" "gap quit_two = 0"
  unfolding quit_ok_def gap_def quit_two_clients by (auto simp: quit_two_def int_max_def)



definition quit_stuck :: quit_state where
  "quit_stuck = (2, closed 5 (taken 5 (snd quit_two)))"

definition quit_gone :: quit_state where
  "quit_gone = (1, closed 6 (taken 6 (snd quit_stuck)))"


end
