(* ===== verification/Mog_Digest.thy ===== *)
theory Mog_Digest
  imports Mog_Fs
begin

text \<open>
  \<^verbatim>\<open>digest.c\<close>: feeding an open file to a digest in bounded rounds, and printing the digest in hexadecimal. The hash functions
  are those of the vendored \<^verbatim>\<open>gc\<close> library and a parameter here; the context of a digest is the data written to it so far.
\<close>

section \<open>Model\<close>

datatype Gc_hash = GC_MD5 | GC_SHA1

datatype mog_digest_next = MOG_DIGEST_CONTINUE | MOG_DIGEST_EOF | MOG_DIGEST_ERROR

text \<open>
  A digest of an open file: what the descriptor refers to, its file position, and the data hashed so far. An answer to \<^verbatim>\<open>read\<close> is
  the number of bytes it may return, or an error; at the end of the file it returns none.
\<close>

record mog_digest =
  dg_node :: fnode
  dg_pos :: nat
  dg_ctx :: bytes

datatype fres = FRead nat | FErr errno

definition file_read :: "(nat \<Rightarrow> bytes) \<Rightarrow> nat \<Rightarrow> fres \<Rightarrow> mog_digest \<Rightarrow> errno + bytes" where
  "file_read fdata len a d =
     (case a of
        FErr e \<Rightarrow> Inl e
      | FRead k \<Rightarrow>
          (case dg_node d of
             FDir \<Rightarrow> Inl EISDIR
           | FReg i \<Rightarrow> Inr (take (min (max 1 k) len) (drop (dg_pos d) (fdata i)))))"

definition mog_digest_init :: "fnode \<Rightarrow> mog_digest" where
  "mog_digest_init n = \<lparr>dg_node = n, dg_pos = 0, dg_ctx = ''''\<rparr>"

text \<open>The loop \<^verbatim>\<open>while (--i > 0)\<close>, with the number of rounds left and the answers to come.\<close>

primrec digest_loop :: "nat \<Rightarrow> (nat \<Rightarrow> bytes) \<Rightarrow> fres list \<Rightarrow> mog_digest \<Rightarrow> (mog_digest_next \<times> fres list \<times> mog_digest) outcome" where
  "digest_loop 0 fdata as d = Ret (MOG_DIGEST_CONTINUE, as, d)"
| "digest_loop (Suc i) fdata as d =
     (case as of
        [] \<Rightarrow> Starved
      | a # as' \<Rightarrow>
          (case file_read fdata fsbuf_size a d of
             Inr buf \<Rightarrow>
               if buf \<noteq> [] then digest_loop i fdata as' (d\<lparr>dg_pos := dg_pos d + length buf, dg_ctx := dg_ctx d @ buf\<rparr>)
               else Ret (MOG_DIGEST_EOF, as', d)
           | Inl err \<Rightarrow>
               if err = EINTR then digest_loop i fdata as' d else Ret (MOG_DIGEST_ERROR, as', d)))"

definition mog_digest_read :: "(nat \<Rightarrow> bytes) \<Rightarrow> fres list \<Rightarrow> mog_digest \<Rightarrow> (mog_digest_next \<times> fres list \<times> mog_digest) outcome" where
  "mog_digest_read fdata as d = digest_loop 1023 fdata as d"

text \<open>\<^verbatim>\<open>do { next = mog_digest_read(...); } while (next == MOG_DIGEST_CONTINUE)\<close> of \<^verbatim>\<open>mgmt_digest_step\<close>; every round uses answers.\<close>

fun digest_rounds :: "nat \<Rightarrow> (nat \<Rightarrow> bytes) \<Rightarrow> fres list \<Rightarrow> mog_digest \<Rightarrow> (mog_digest_next \<times> fres list \<times> mog_digest) outcome" where
  "digest_rounds 0 fdata as d = Starved"
| "digest_rounds (Suc n) fdata as d =
     obind (mog_digest_read fdata as d) (\<lambda>(nx, as1, d1).
       if nx = MOG_DIGEST_CONTINUE then digest_rounds n fdata as1 d1 else Ret (nx, as1, d1))"

definition hexdigits :: bytes where
  "hexdigits = ''0123456789abcdef''"

fun hex_byte :: "char \<Rightarrow> bytes" where
  "hex_byte c = [hexdigits ! ((of_char c :: nat) div 16), hexdigits ! ((of_char c :: nat) mod 16)]"

fun hashlen :: "Gc_hash \<Rightarrow> nat" where
  "hashlen GC_MD5 = 16"
| "hashlen GC_SHA1 = 20"

text \<open>\<open>len\<close> is the size of the caller's buffer; \<open>hash\<close> reads the digest of a context.\<close>

definition mog_digest_hex :: "(Gc_hash \<Rightarrow> bytes \<Rightarrow> bytes) \<Rightarrow> Gc_hash \<Rightarrow> nat \<Rightarrow> mog_digest \<Rightarrow> bytes outcome" where
  "mog_digest_hex hash alg len d =
     assert_then (len \<ge> hashlen alg * 2) (Ret (concat (map hex_byte (take (hashlen alg) (hash alg (dg_ctx d))))))"

section \<open>Reading a file\<close>

definition fed :: "(nat \<Rightarrow> bytes) \<Rightarrow> mog_digest \<Rightarrow> bool" where
  "fed fdata d \<longleftrightarrow> (case dg_node d of FDir \<Rightarrow> dg_ctx d = '''' | FReg i \<Rightarrow> dg_pos d \<le> length (fdata i) \<and> dg_ctx d = take (dg_pos d) (fdata i))"

text \<open>What a round tells: at the end of a file all of it has been hashed.\<close>

definition told :: "(nat \<Rightarrow> bytes) \<Rightarrow> fnode \<Rightarrow> mog_digest_next \<Rightarrow> mog_digest \<Rightarrow> bool" where
  "told fdata n nx d \<longleftrightarrow> fed fdata d \<and> dg_node d = n \<and> (nx = MOG_DIGEST_EOF \<longrightarrow> (\<exists>i. n = FReg i \<and> dg_ctx d = fdata i))"

lemma fsbuf_pos: "0 < fsbuf_size"
  by (simp add: fsbuf_size_def)

lemma digest_loop_told:
  "digest_loop i fdata as d = Ret (nx, as', d') \<Longrightarrow> fed fdata d \<Longrightarrow> told fdata (dg_node d) nx d'"
proof (induction i arbitrary: as d)
  case 0
  then show ?case by (auto simp: told_def)
next
  case (Suc i)
  obtain a as1 where as: "as = a # as1"
    using Suc.prems(1) by (cases as) auto
  show ?case
  proof (cases "file_read fdata fsbuf_size a d")
    case (Inl err)
    then show ?thesis
      using Suc as by (auto simp: told_def split: if_splits)
  next
    case (Inr buf)
    then obtain k j where r: "a = FRead k" "dg_node d = FReg j" "buf = take (min (max 1 k) fsbuf_size) (drop (dg_pos d) (fdata j))"
      by (auto simp: file_read_def split: fres.splits fnode.splits)
    have f: "dg_pos d \<le> length (fdata j)" "dg_ctx d = take (dg_pos d) (fdata j)"
      using Suc.prems(2) r(2) by (simp_all add: fed_def)
    show ?thesis
    proof (cases "buf = []")
      case True
      then have "dg_ctx d = fdata j"
        using f r(3) fsbuf_pos by (auto simp: min_def max_def split: if_splits)
      then show ?thesis
        using Suc.prems as Inr True r(2) by (auto simp: told_def)
    next
      case False
      have "fed fdata (d\<lparr>dg_pos := dg_pos d + length buf, dg_ctx := dg_ctx d @ buf\<rparr>)"
        using f r by (auto simp: fed_def take_add min_def)
      then show ?thesis
        using Suc.IH [of as1 "d\<lparr>dg_pos := dg_pos d + length buf, dg_ctx := dg_ctx d @ buf\<rparr>"] Suc.prems as Inr False by simp
    qed
  qed
qed

lemma digest_rounds_told:
  "digest_rounds n fdata as d = Ret (nx, as', d') \<Longrightarrow> fed fdata d \<Longrightarrow> told fdata (dg_node d) nx d'"
proof (induction n arbitrary: as d)
  case (Suc n)
  obtain nx1 as1 d1 where r: "mog_digest_read fdata as d = Ret (nx1, as1, d1)"
    using Suc.prems(1) by auto
  then have t: "told fdata (dg_node d) nx1 d1"
    using digest_loop_told [of 1023] Suc.prems(2) by (simp add: mog_digest_read_def)
  then have "fed fdata d1" "dg_node d1 = dg_node d"
    by (simp_all add: told_def)
  then show ?case
    using Suc.prems(1) Suc.IH [of as1 d1] r t by (auto split: if_splits)
qed simp

text \<open>
  Answers that let a file be read to its end: interruptions apart there is no error, and there are more answers that return data than
  the file has bytes left.
\<close>

definition is_read :: "fres \<Rightarrow> bool" where
  "is_read a \<longleftrightarrow> (case a of FRead _ \<Rightarrow> True | FErr _ \<Rightarrow> False)"

definition enough :: "nat \<Rightarrow> fres list \<Rightarrow> bool" where
  "enough n as \<longleftrightarrow> (\<forall>a\<in>set as. is_read a \<or> a = FErr EINTR) \<and> n < length (filter is_read as)"

definition left :: "(nat \<Rightarrow> bytes) \<Rightarrow> nat \<Rightarrow> mog_digest \<Rightarrow> nat" where
  "left fdata i d = length (fdata i) - dg_pos d"

lemma digest_loop_enough:
  assumes "enough (left fdata j d) as" "dg_node d = FReg j"
  shows "\<exists>nx as' d'. digest_loop i fdata as d = Ret (nx, as', d') \<and>
    (nx = MOG_DIGEST_EOF \<or> nx = MOG_DIGEST_CONTINUE \<and> enough (left fdata j d') as' \<and> dg_node d' = FReg j \<and> length as' + i = length as)"
  using assms
proof (induction i arbitrary: as d)
  case (Suc i)
  obtain a as1 where as: "as = a # as1"
    using Suc.prems(1) by (cases as) (auto simp: enough_def)
  show ?case
  proof (cases a)
    case (FErr e)
    then have e: "e = EINTR" "enough (left fdata j d) as1"
      using Suc.prems(1) as by (auto simp: enough_def is_read_def)
    then have "file_read fdata fsbuf_size a d = Inl EINTR"
      using FErr by (simp add: file_read_def)
    then show ?thesis
      using Suc.IH [OF e(2) Suc.prems(2)] as by auto
  next
    case (FRead k)
    define buf where "buf = take (min (max 1 k) fsbuf_size) (drop (dg_pos d) (fdata j))"
    have rd: "file_read fdata fsbuf_size a d = Inr buf"
      using FRead Suc.prems(2) by (simp add: file_read_def buf_def)
    show ?thesis
    proof (cases "buf = []")
      case True
      then show ?thesis using as rd by simp
    next
      case False
      let ?d = "d\<lparr>dg_pos := dg_pos d + length buf, dg_ctx := dg_ctx d @ buf\<rparr>"
      have "left fdata j ?d < left fdata j d"
        using False by (auto simp: left_def buf_def)
      then have "enough (left fdata j ?d) as1"
        using Suc.prems(1) as FRead by (auto simp: enough_def is_read_def)
      then show ?thesis
        using Suc.IH [of ?d as1] Suc.prems(2) as rd False by auto
    qed
  qed
qed auto

lemma digest_rounds_enough:
  assumes "enough (left fdata j d) as" "dg_node d = FReg j" "length as < n"
  shows "\<exists>as' d'. digest_rounds n fdata as d = Ret (MOG_DIGEST_EOF, as', d')"
  using assms
proof (induction n arbitrary: as d)
  case (Suc n)
  obtain nx as1 d1 where r: "mog_digest_read fdata as d = Ret (nx, as1, d1)"
    "nx = MOG_DIGEST_EOF \<or> nx = MOG_DIGEST_CONTINUE \<and> enough (left fdata j d1) as1 \<and> dg_node d1 = FReg j \<and> length as1 + 1023 = length as"
    using digest_loop_enough [OF Suc.prems(1,2), of 1023] unfolding mog_digest_read_def by blast
  then show ?case
    using Suc.IH [of d1 as1] Suc.prems(3) by auto
qed simp

section \<open>Hexadecimal\<close>

fun hexval :: "char \<Rightarrow> nat" where
  "hexval c = (if of_char c < (58::nat) then of_char c - 48 else of_char c - 87)"

fun unhex :: "bytes \<Rightarrow> bytes" where
  "unhex (a # b # s) = char_of (hexval a * 16 + hexval b) # unhex s"
| "unhex _ = []"

lemma hexval_digit: "n < 16 \<Longrightarrow> hexval (hexdigits ! n) = n"
proof -
  have "\<forall>n\<in>set [0..<16]. hexval (hexdigits ! n) = n"
    by code_simp
  then show "n < 16 \<Longrightarrow> hexval (hexdigits ! n) = n"
    by simp
qed

lemma unhex_hex: "unhex (concat (map hex_byte bs)) = bs"
proof (induction bs)
  case (Cons c bs)
  have "of_char c < (256 :: nat)"
    by (rule nat_of_char_less_256)
  then have "(of_char c :: nat) div 16 < 16"
    by (simp add: div_less_iff_less_mult)
  then have "hexval (hexdigits ! ((of_char c :: nat) div 16)) * 16 + hexval (hexdigits ! ((of_char c :: nat) mod 16)) = of_char c"
    using hexval_digit by (simp del: hexval.simps)
  then show ?case
    using Cons.IH by (simp del: hexval.simps)
qed simp

lemma length_hex: "length (concat (map hex_byte bs)) = 2 * length bs"
  by (induction bs) auto

section \<open>Properties\<close>

text \<open>
  C17: The digest of a file is the digest of its contents. If reads are only interrupted or short, reading in rounds reaches the end of
  the file as soon as the kernel has answered often enough; then exactly the bytes of the file have been hashed, and the hexadecimal
  string decodes to the hash of those bytes. Conversely the end is never reported before.
\<close>

theorem digest_of_file:
  assumes "enough (length (fdata i)) as" "length as < n" "\<And>x. length (hash alg x) = hashlen alg"
  shows "\<exists>as' d h. digest_rounds n fdata as (mog_digest_init (FReg i)) = Ret (MOG_DIGEST_EOF, as', d) \<and> dg_ctx d = fdata i \<and>
    mog_digest_hex hash alg (2 * hashlen alg) d = Ret h \<and> length h = 2 * hashlen alg \<and> unhex h = hash alg (fdata i)"
proof -
  let ?d = "mog_digest_init (FReg i)"
  have e: "enough (left fdata i ?d) as" "dg_node ?d = FReg i" "fed fdata ?d"
    using assms(1) by (simp_all add: left_def mog_digest_init_def fed_def)
  obtain as' d where r: "digest_rounds n fdata as ?d = Ret (MOG_DIGEST_EOF, as', d)"
    using digest_rounds_enough [OF e(1,2) assms(2)] by blast
  have "dg_ctx d = fdata i"
    using digest_rounds_told [OF r e(3)] e(2) by (auto simp: told_def)
  then show ?thesis
    using r assms(3) by (simp add: mog_digest_hex_def length_hex unhex_hex)
qed

theorem digest_of_file_witness:
  "\<exists>as' d h. digest_rounds 6 (\<lambda>_. ''abc'') [FRead 2, FErr EINTR, FRead 9, FRead 1, FRead 1] (mog_digest_init (FReg 3)) = Ret (MOG_DIGEST_EOF, as', d) \<and>
     mog_digest_hex (\<lambda>alg x. replicate (hashlen alg) (CHR ''Z'')) GC_MD5 32 d = Ret h \<and> length h = 32"
proof -
  have "enough (length ''abc'') [FRead 2, FErr EINTR, FRead 9, FRead 1, FRead 1]"
    by (simp add: enough_def is_read_def)
  then show ?thesis
    using digest_of_file [of "\<lambda>_. ''abc''" 3 "[FRead 2, FErr EINTR, FRead 9, FRead 1, FRead 1]" 6 "\<lambda>alg x. replicate (hashlen alg) (CHR ''Z'')" GC_MD5]
    by auto
qed

end
