(* ===== verification/Mog_Mgmt_Table.thy ===== *)
theory Mog_Mgmt_Table
  imports Mog_Digest
begin

text \<open>
  The automaton of \<^verbatim>\<open>mgmt_parser.c\<close> as data, in the format of the HTTP automaton: a row \<open>(n, rs, d)\<close> is the
  \<^verbatim>\<open>case n\<close> of the generated code, \<open>MSt m\<close> the label \<^verbatim>\<open>stm\<close> and \<open>MTr m\<close> the label \<^verbatim>\<open>trm\<close>; an entry \<open>(m, as, n)\<close> is the
  label \<^verbatim>\<open>trm\<close> with its actions and the state it goes to. Actions are named after what they do in \<^verbatim>\<open>mgmt_parser.rl\<close>.
\<close>

datatype mgmt_lab = MSt nat | MTr nat

datatype mgmt_act =
    MA_restart | MA_blank | MA_mark0 | MA_mark1 | MA_digest | MA_aio_threads | MA_shutdown | MA_size | MA_watch
  | MA_alg Gc_hash | MA_prio_fsck | MA_unknown

type_synonym mgmt_row = "nat \<times> (int \<times> int \<times> mgmt_lab) list \<times> mgmt_lab"
type_synonym mgmt_tr = "nat \<times> mgmt_act list \<times> nat"

definition mgmt_rows_1 :: "mgmt_row list" where
  "mgmt_rows_1 = [
    (1, [(9, 9, MSt 2), (10, 10, MTr 2), (13, 13, MSt 3), (32, 32, MSt 2), (77, 77, MSt 4), (83, 83, MSt 15), (115, 115, MSt 41), (119, 119, MSt 65)], MTr 0),
    (2, [(9, 9, MSt 2), (10, 10, MTr 2), (13, 13, MSt 3), (32, 32, MSt 2)], MTr 0),
    (74, [], MTr 0),
    (3, [(10, 10, MTr 2)], MTr 0),
    (4, [(68, 68, MSt 5)], MTr 0),
    (5, [(53, 53, MTr 9)], MTr 0),
    (6, [(32, 32, MSt 7)], MTr 0),
    (7, [(47, 47, MTr 11)], MTr 0)]"

definition mgmt_trs_1 :: "mgmt_tr list" where
  "mgmt_trs_1 = [
    (0, [MA_restart], 0),
    (2, [MA_blank], 74),
    (12, [MA_mark1, MA_digest], 74),
    (16, [MA_digest], 74),
    (45, [MA_mark1, MA_aio_threads], 74),
    (48, [MA_aio_threads], 74),
    (60, [MA_shutdown], 74),
    (75, [MA_mark1, MA_size], 74),
    (78, [MA_size], 74),
    (83, [MA_watch], 74),
    (9, [MA_alg GC_MD5], 6),
    (51, [MA_alg GC_SHA1], 6),
    (11, [MA_mark0], 8)]"

definition mgmt_rows_2 :: "mgmt_row list" where
  "mgmt_rows_2 = [
    (8, [(10, 10, MTr 12), (13, 13, MTr 13), (32, 32, MTr 14), (45, 57, MSt 8), (65, 90, MSt 8), (97, 122, MSt 8)], MTr 0),
    (9, [(10, 10, MTr 16)], MTr 0),
    (10, [(48, 57, MSt 11), (65, 90, MSt 11), (95, 95, MSt 11), (97, 101, MSt 11), (102, 102, MSt 12), (103, 122, MSt 11)], MTr 0),
    (11, [(10, 10, MTr 16), (13, 13, MSt 9), (48, 57, MSt 11), (65, 90, MSt 11), (95, 95, MSt 11), (97, 122, MSt 11)], MTr 0),
    (12, [(10, 10, MTr 16), (13, 13, MSt 9), (48, 57, MSt 11), (65, 90, MSt 11), (95, 95, MSt 11), (97, 114, MSt 11), (115, 115, MSt 13), (116, 122, MSt 11)], MTr 0),
    (13, [(10, 10, MTr 16), (13, 13, MSt 9), (48, 57, MSt 11), (65, 90, MSt 11), (95, 95, MSt 11), (97, 98, MSt 11), (99, 99, MSt 14), (100, 122, MSt 11)], MTr 0),
    (14, [(10, 10, MTr 16), (13, 13, MSt 9), (48, 57, MSt 11), (65, 90, MSt 11), (95, 95, MSt 11), (97, 106, MSt 11), (107, 107, MTr 22), (108, 122, MSt 11)], MTr 0),
    (15, [(69, 69, MSt 16), (72, 72, MSt 38), (101, 101, MSt 16)], MTr 0)]"

definition mgmt_trs_2 :: "mgmt_tr list" where
  "mgmt_trs_2 = [
    (13, [MA_mark1], 9),
    (14, [MA_mark1], 10),
    (22, [MA_prio_fsck], 11)]"

definition mgmt_rows_3 :: "mgmt_row list" where
  "mgmt_rows_3 = [
    (16, [(82, 82, MSt 17), (114, 114, MSt 17)], MTr 0),
    (17, [(86, 86, MSt 18), (118, 118, MSt 18)], MTr 0),
    (18, [(69, 69, MSt 19), (101, 101, MSt 19)], MTr 0),
    (19, [(82, 82, MSt 20), (114, 114, MSt 20)], MTr 0),
    (20, [(32, 32, MSt 21)], MTr 0),
    (21, [(65, 65, MSt 22), (97, 97, MSt 22)], MTr 0),
    (22, [(73, 73, MSt 23), (105, 105, MSt 23)], MTr 0),
    (23, [(79, 79, MSt 24), (111, 111, MSt 24)], MTr 0),
    (24, [(95, 95, MSt 25)], MTr 0),
    (25, [(84, 84, MSt 26), (116, 116, MSt 26)], MTr 0),
    (26, [(72, 72, MSt 27), (104, 104, MSt 27)], MTr 0),
    (27, [(82, 82, MSt 28), (114, 114, MSt 28)], MTr 0),
    (28, [(69, 69, MSt 29), (101, 101, MSt 29)], MTr 0),
    (29, [(65, 65, MSt 30), (97, 97, MSt 30)], MTr 0),
    (30, [(68, 68, MSt 31), (100, 100, MSt 31)], MTr 0),
    (31, [(83, 83, MSt 32), (115, 115, MSt 32)], MTr 0)]"

definition mgmt_rows_4 :: "mgmt_row list" where
  "mgmt_rows_4 = [
    (32, [(32, 32, MSt 33), (61, 61, MSt 34)], MTr 0),
    (33, [(61, 61, MSt 34)], MTr 0),
    (34, [(32, 32, MSt 35), (48, 57, MTr 44)], MTr 0),
    (35, [(48, 57, MTr 44)], MTr 0),
    (36, [(10, 10, MTr 45), (13, 13, MTr 46), (48, 57, MSt 36)], MTr 0),
    (37, [(10, 10, MTr 48)], MTr 0),
    (38, [(65, 65, MSt 39)], MTr 0),
    (39, [(45, 45, MSt 40)], MTr 0),
    (40, [(49, 49, MTr 51)], MTr 0),
    (41, [(69, 69, MSt 16), (101, 101, MSt 16), (104, 104, MSt 42), (105, 105, MSt 59)], MTr 0),
    (42, [(117, 117, MSt 43)], MTr 0),
    (43, [(116, 116, MSt 44)], MTr 0),
    (44, [(100, 100, MSt 45)], MTr 0),
    (45, [(111, 111, MSt 46)], MTr 0),
    (46, [(119, 119, MSt 47)], MTr 0),
    (47, [(110, 110, MSt 48)], MTr 0),
    (48, [(10, 10, MTr 60), (13, 13, MSt 49), (32, 32, MSt 50)], MTr 0)]"

definition mgmt_trs_4 :: "mgmt_tr list" where
  "mgmt_trs_4 = [
    (44, [MA_mark0], 36),
    (46, [MA_mark1], 37)]"

definition mgmt_rows_5 :: "mgmt_row list" where
  "mgmt_rows_5 = [
    (49, [(10, 10, MTr 60)], MTr 0),
    (50, [(32, 32, MSt 50), (103, 103, MSt 51)], MTr 0),
    (51, [(114, 114, MSt 52)], MTr 0),
    (52, [(97, 97, MSt 53)], MTr 0),
    (53, [(99, 99, MSt 54)], MTr 0),
    (54, [(101, 101, MSt 55)], MTr 0),
    (55, [(102, 102, MSt 56)], MTr 0),
    (56, [(117, 117, MSt 57)], MTr 0),
    (57, [(108, 108, MSt 58)], MTr 0),
    (58, [(10, 10, MTr 60), (13, 13, MSt 49)], MTr 0),
    (59, [(122, 122, MSt 60)], MTr 0),
    (60, [(101, 101, MSt 61)], MTr 0),
    (61, [(32, 32, MSt 62)], MTr 0),
    (62, [(47, 47, MTr 74)], MTr 0),
    (63, [(10, 10, MTr 75), (13, 13, MTr 76), (45, 57, MSt 63), (65, 90, MSt 63), (97, 122, MSt 63)], MTr 0),
    (64, [(10, 10, MTr 78)], MTr 0),
    (65, [(97, 97, MSt 66)], MTr 0)]"

definition mgmt_trs_5 :: "mgmt_tr list" where
  "mgmt_trs_5 = [
    (74, [MA_mark0], 63),
    (76, [MA_mark1], 64)]"

definition mgmt_rows_6 :: "mgmt_row list" where
  "mgmt_rows_6 = [
    (66, [(116, 116, MSt 67)], MTr 0),
    (67, [(99, 99, MSt 68)], MTr 0),
    (68, [(104, 104, MSt 69)], MTr 0),
    (69, [(10, 10, MTr 83), (13, 13, MSt 70)], MTr 0),
    (70, [(10, 10, MTr 83)], MTr 0),
    (71, [(9, 9, MSt 71), (13, 13, MSt 0), (32, 32, MSt 71)], MTr 85),
    (72, [(9, 9, MTr 89), (10, 10, MTr 90), (13, 13, MTr 89), (32, 32, MTr 89)], MTr 88),
    (73, [(10, 10, MTr 92)], MSt 73),
    (75, [], MSt 0),
    (76, [(9, 9, MTr 89), (10, 10, MTr 90), (13, 13, MTr 89), (32, 32, MTr 89)], MTr 88)]"

definition mgmt_trs_6 :: "mgmt_tr list" where
  "mgmt_trs_6 = [
    (85, [MA_mark0], 72),
    (88, [MA_mark1], 72),
    (89, [MA_mark1], 73),
    (92, [MA_unknown], 75),
    (90, [MA_mark1, MA_unknown], 76)]"

definition mgmt_rows :: "mgmt_row list" where
  "mgmt_rows = mgmt_rows_1 @ mgmt_rows_2 @ mgmt_rows_3 @ mgmt_rows_4 @ mgmt_rows_5 @ mgmt_rows_6"

definition mgmt_trs :: "mgmt_tr list" where
  "mgmt_trs = mgmt_trs_1 @ mgmt_trs_2 @ mgmt_trs_4 @ mgmt_trs_5 @ mgmt_trs_6"

lemmas mgmt_rows_defs = mgmt_rows_def mgmt_rows_1_def mgmt_rows_2_def mgmt_rows_3_def mgmt_rows_4_def mgmt_rows_5_def mgmt_rows_6_def

lemmas mgmt_trs_defs = mgmt_trs_def mgmt_trs_1_def mgmt_trs_2_def mgmt_trs_4_def mgmt_trs_5_def mgmt_trs_6_def

end
