(* ===== verification/Mog_Fsck.thy ===== *)
theory Mog_Fsck
  imports Mog_Hash
begin

text \<open>
  \<^verbatim>\<open>fsck_queue.c\<close>: at most one digest for a file system check runs on a device at a time; the other clients wait
  in the queue of the device. The queues live in a hash table that is made on first use and never shrinks. Each
  operation is one step because it runs under \<^verbatim>\<open>fsck_queue_lock\<close> and the lock of the queue.
\<close>

section \<open>Model\<close>

datatype mog_prio = MOG_PRIO_NONE | MOG_PRIO_FSCK

text \<open>A waiting client is named by its descriptor.\<close>

record fsck_queue =
  fq_st_dev :: nat
  fq_qhead :: "nat list"
  fq_active :: nat
  fq_max_active :: nat

definition fq_cmp :: "fsck_queue \<Rightarrow> fsck_queue \<Rightarrow> bool" where
  "fq_cmp a b \<longleftrightarrow> fq_st_dev a = fq_st_dev b"

definition fq_hash :: "fsck_queue \<Rightarrow> nat \<Rightarrow> nat" where
  "fq_hash x tablesize = fq_st_dev x mod tablesize"

text \<open>The variable \<^verbatim>\<open>fsck_queues\<close>; \<open>None\<close> is the null pointer.\<close>

type_synonym fsck_table = "fsck_queue hash_table option"

definition new_queue :: "nat \<Rightarrow> fsck_queue" where
  "new_queue dev = \<lparr>fq_st_dev = dev, fq_qhead = [], fq_active = 0, fq_max_active = 1\<rparr>"

definition fsck_queue_once :: "hash_tuning \<Rightarrow> fsck_table" where
  "fsck_queue_once tn = hash_initialize [] 7 tn fq_hash fq_cmp"

text \<open>
  The queue of a client is named by its device. \<open>st\<close> is what \<^verbatim>\<open>fstat\<close> answers for the open file: the device, or an error, for which
  there is no queue. A table that could not be made is a null pointer to the insertion.
\<close>

definition fsck_queue_for :: "hash_tuning \<Rightarrow> bool \<Rightarrow> errno + nat \<Rightarrow> fsck_table \<Rightarrow> (nat option \<times> fsck_table) outcome" where
  "fsck_queue_for tn forward st tab =
     assert_then forward
      (case st of
         Inl err \<Rightarrow> assert_then (err \<noteq> EBADF) (Ret (None, tab))
       | Inr dev \<Rightarrow>
           obind (case tab of
                    Some t \<Rightarrow> obind (hash_lookup t (new_queue dev)) (\<lambda>fq. Ret (fq \<noteq> None, tab))
                  | None \<Rightarrow> Ret (False, fsck_queue_once tn)) (\<lambda>(found, tab1).
             if found then Ret (Some dev, tab1)
             else case tab1 of
               None \<Rightarrow> Abort
             | Some t \<Rightarrow>
                 obind (hash_insert_if_absent t (new_queue dev)) (\<lambda>(r, _, t').
                   assert_then (r = 1) (Ret (Some dev, Some t')))))"

text \<open>Reading and writing through the pointer \<^verbatim>\<open>fq\<close>.\<close>

definition fq_get :: "nat \<Rightarrow> fsck_table \<Rightarrow> fsck_queue outcome" where
  "fq_get dev tab =
     (case tab of
        None \<Rightarrow> Abort
      | Some t \<Rightarrow> obind (hash_lookup t (new_queue dev)) (\<lambda>fq. case fq of None \<Rightarrow> Abort | Some x \<Rightarrow> Ret x))"

definition fq_set :: "nat \<Rightarrow> (fsck_queue \<Rightarrow> fsck_queue) \<Rightarrow> fsck_table \<Rightarrow> fsck_table" where
  "fq_set dev f tab = map_option (hash_modify (\<lambda>e. fq_st_dev e = dev) f) tab"

definition mog_fsck_queue_ready ::
  "hash_tuning \<Rightarrow> nat \<Rightarrow> bool \<Rightarrow> mog_prio \<Rightarrow> errno + nat \<Rightarrow> fsck_table \<Rightarrow> (bool \<times> fsck_table) outcome" where
  "mog_fsck_queue_ready tn mfd forward prio st tab =
     obind (fsck_queue_for tn forward st tab) (\<lambda>(fq, tab1).
       case fq of
         None \<Rightarrow> Ret (True, tab1)
       | Some dev \<Rightarrow>
           assert_then (prio = MOG_PRIO_FSCK)
            (obind (fq_get dev tab1) (\<lambda>x.
               if fq_active x < fq_max_active x
               then Ret (True, fq_set dev (\<lambda>x. x\<lparr>fq_active := (fq_active x + 1) mod 2 ^ 64\<rparr>) tab1)
               else Ret (False, fq_set dev (\<lambda>x. x\<lparr>fq_qhead := fq_qhead x @ [mfd]\<rparr>) tab1))))"

text \<open>
  The result is the client to push back into the active queue, if any; \<open>prio_of\<close> reads the priority of a
  waiting client. The counter is a \<^verbatim>\<open>size_t\<close>.
\<close>

definition release_slot :: "fsck_queue \<Rightarrow> fsck_queue" where
  "release_slot x = x\<lparr>fq_active := (fq_active x + (2 ^ 64 - 1)) mod 2 ^ 64\<rparr>"

definition mog_fsck_queue_next ::
  "hash_tuning \<Rightarrow> bool \<Rightarrow> mog_prio \<Rightarrow> (nat \<Rightarrow> mog_prio) \<Rightarrow> errno + nat \<Rightarrow> fsck_table \<Rightarrow> (nat option \<times> fsck_table) outcome" where
  "mog_fsck_queue_next tn forward prio prio_of st tab =
     obind (fsck_queue_for tn forward st tab) (\<lambda>(fq, tab1).
       case fq of
         None \<Rightarrow> Ret (None, tab1)
       | Some dev \<Rightarrow>
           assert_then (prio = MOG_PRIO_FSCK)
            (obind (fq_get dev tab1) (\<lambda>x.
               let x1 = release_slot x in
               case (if fq_active x1 < fq_max_active x1 then fq_qhead x1 else []) of
                 [] \<Rightarrow> Ret (None, fq_set dev release_slot tab1)
               | c # cs \<Rightarrow>
                   assert_then (prio_of c = MOG_PRIO_FSCK)
                    (Ret (Some c, fq_set dev (\<lambda>x. (release_slot x)\<lparr>fq_qhead := cs\<rparr>) tab1)))))"

interpretation fsck: hash_client fq_hash fq_cmp fq_st_dev
  by unfold_locales (auto simp: fq_hash_def fq_cmp_def)

section \<open>The table as a map\<close>

text \<open>For each device the number of running digests and the waiting clients.\<close>

definition fsck_abs :: "fsck_table \<Rightarrow> nat \<Rightarrow> nat \<times> nat list" where
  "fsck_abs tab dev =
     (case tab of
        None \<Rightarrow> (0, [])
      | Some t \<Rightarrow> (case ht_abs fq_st_dev t dev of None \<Rightarrow> (0, []) | Some x \<Rightarrow> (fq_active x, fq_qhead x)))"

text \<open>The allocator answers every request, and the sizes the tuning asks for fit.\<close>

definition tuning_ok :: "hash_tuning \<Rightarrow> bool" where
  "tuning_ok tn \<longleftrightarrow> compute_bucket_size 7 tn \<noteq> 0 \<and>
     (\<forall>u n. tn_full tn u n \<longrightarrow> tn_grown tn n < SIZE_MAX \<and> compute_bucket_size (tn_grown tn n) tn \<noteq> 0)"

definition fsck_ok :: "hash_tuning \<Rightarrow> fsck_table \<Rightarrow> bool" where
  "fsck_ok tn tab \<longleftrightarrow> tuning_ok tn \<and>
     (case tab of
        None \<Rightarrow> True
      | Some t \<Rightarrow> ht_ok fq_hash fq_cmp fq_st_dev t \<and> mem_ok t \<and>
          (\<forall>dev x. ht_abs fq_st_dev t dev = Some x \<longrightarrow> fq_max_active x = 1))"

text \<open>A table in which the queue of \<open>dev\<close> has been made.\<close>

definition has_queue :: "nat \<Rightarrow> fsck_table \<Rightarrow> bool" where
  "has_queue dev tab \<longleftrightarrow> (case tab of None \<Rightarrow> False | Some t \<Rightarrow> ht_abs fq_st_dev t dev \<noteq> None)"

lemma fsck_once_ok:
  assumes "tuning_ok tn"
  shows "\<exists>t. fsck_queue_once tn = Some t \<and> ht_ok fq_hash fq_cmp fq_st_dev t \<and> mem_ok t \<and> ht_abs fq_st_dev t = Map.empty"
proof -
  have "compute_bucket_size 7 tn \<noteq> 0"
    using assms by (simp add: tuning_ok_def)
  then obtain t where "hash_initialize [] 7 tn fq_hash fq_cmp = Some t" "ht_ok fq_hash fq_cmp fq_st_dev t"
    "ht_abs fq_st_dev t = Map.empty" "ht_mem t = []" "ht_tuning t = tn"
    by (rule fsck.hash_initialize_ok)
  then show ?thesis
    using assms by (auto simp: fsck_queue_once_def mem_ok_def tuning_ok_def)
qed

lemma insert_queue:
  assumes "ht_ok fq_hash fq_cmp fq_st_dev t" "mem_ok t" "ht_abs fq_st_dev t dev = None" "tuning_ok tn"
    and "\<forall>d x. ht_abs fq_st_dev t d = Some x \<longrightarrow> fq_max_active x = 1"
  shows "\<exists>t'. hash_insert_if_absent t (new_queue dev) = Ret (1, None, t') \<and> fsck_ok tn (Some t') \<and>
    has_queue dev (Some t') \<and> fsck_abs (Some t') = fsck_abs (Some t)"
proof -
  have n: "ht_abs fq_st_dev t (fq_st_dev (new_queue dev)) = None"
    using assms(3) by (simp add: new_queue_def)
  obtain t' where "hash_insert_if_absent t (new_queue dev) = Ret (1, None, t')" "ht_ok fq_hash fq_cmp fq_st_dev t'"
    "ht_abs fq_st_dev t' = (ht_abs fq_st_dev t)(fq_st_dev (new_queue dev) \<mapsto> new_queue dev)" "mem_ok t'"
    using fsck.hash_insert_new [OF assms(1,2) n] .
  then show ?thesis
    using assms(3-5) by (auto simp: fsck_ok_def has_queue_def fsck_abs_def new_queue_def fun_eq_iff)
qed

lemma fsck_queue_for_ok:
  assumes "fsck_ok tn tab"
  shows "\<exists>tab'. fsck_queue_for tn True (Inr dev) tab = Ret (Some dev, tab') \<and> fsck_ok tn tab' \<and>
    has_queue dev tab' \<and> fsck_abs tab' = fsck_abs tab"
proof (cases tab)
  case None
  obtain t where t: "fsck_queue_once tn = Some t" "ht_ok fq_hash fq_cmp fq_st_dev t" "mem_ok t" "ht_abs fq_st_dev t = Map.empty"
    using fsck_once_ok assms by (auto simp: fsck_ok_def)
  then obtain t' where "hash_insert_if_absent t (new_queue dev) = Ret (1, None, t')" "fsck_ok tn (Some t')"
    "has_queue dev (Some t')" "fsck_abs (Some t') = fsck_abs (Some t)"
    using insert_queue [of t dev tn] assms by (auto simp: fsck_ok_def)
  moreover have "fsck_abs (Some t) = fsck_abs None"
    using t(4) by (simp add: fsck_abs_def fun_eq_iff)
  ultimately show ?thesis
    using None t(1) by (simp add: fsck_queue_for_def del: obind_Ret)
next
  case (Some t)
  then have t: "ht_ok fq_hash fq_cmp fq_st_dev t" "mem_ok t" "tuning_ok tn" "\<forall>d x. ht_abs fq_st_dev t d = Some x \<longrightarrow> fq_max_active x = 1"
    using assms by (auto simp: fsck_ok_def)
  have lk: "hash_lookup t (new_queue dev) = Ret (ht_abs fq_st_dev t dev)"
    using fsck.hash_lookup_abs [OF t(1), of "new_queue dev"] by (simp add: new_queue_def)
  show ?thesis
  proof (cases "ht_abs fq_st_dev t dev")
    case None
    then show ?thesis
      using insert_queue [OF t(1,2) None t(3,4)] Some lk by (auto simp: fsck_queue_for_def simp del: obind_Ret)
  next
    case (Some x)
    then show ?thesis
      using assms \<open>tab = Some t\<close> lk by (simp add: fsck_queue_for_def has_queue_def del: obind_Ret)
  qed
qed

lemma fq_get_ok:
  assumes "fsck_ok tn tab" "has_queue dev tab"
  shows "\<exists>x. fq_get dev tab = Ret x \<and> (fq_active x, fq_qhead x) = fsck_abs tab dev \<and> fq_max_active x = 1"
proof -
  obtain t x where t: "tab = Some t" "ht_abs fq_st_dev t dev = Some x"
    using assms(2) by (auto simp: has_queue_def split: option.splits)
  then have "hash_lookup t (new_queue dev) = Ret (Some x)"
    using assms(1) fsck.hash_lookup_abs [of t "new_queue dev"] by (simp add: fsck_ok_def new_queue_def)
  then show ?thesis
    using t assms(1) by (simp add: fq_get_def fsck_abs_def fsck_ok_def)
qed

text \<open>A change of one queue that leaves its device and limit alone.\<close>

lemma fq_set_ok:
  assumes "fsck_ok tn tab" "has_queue dev tab"
    and "\<And>x. fq_st_dev (f x) = fq_st_dev x" "\<And>x. fq_max_active (f x) = fq_max_active x"
    and "\<And>x. fq_get dev tab = Ret x \<Longrightarrow> (fq_active (f x), fq_qhead (f x)) = r"
  shows "fsck_ok tn (fq_set dev f tab) \<and> fsck_abs (fq_set dev f tab) = (fsck_abs tab)(dev := r)"
proof -
  obtain t x where t: "tab = Some t" "ht_abs fq_st_dev t dev = Some x"
    using assms(2) by (auto simp: has_queue_def split: option.splits)
  let ?t = "hash_modify (\<lambda>e. fq_st_dev e = dev) f t"
  have ok: "ht_ok fq_hash fq_cmp fq_st_dev t" "mem_ok t"
    using assms(1) t(1) by (simp_all add: fsck_ok_def)
  note m = fsck.hash_modify_ok [OF ok(1) assms(3), of dev]
  have "hash_lookup t (new_queue dev) = Ret (Some x)"
    using fsck.hash_lookup_abs [OF ok(1), of "new_queue dev"] t(2) by (simp add: new_queue_def)
  then have "fq_get dev tab = Ret x"
    using t(1) by (simp add: fq_get_def)
  then have r: "(fq_active (f x), fq_qhead (f x)) = r"
    by (rule assms(5))
  have "mem_ok ?t"
    using ok(2) by (simp add: mem_ok_def hash_modify_def)
  then show ?thesis
    using assms(1,4) t m r by (auto simp: fsck_ok_def fq_set_def fsck_abs_def fun_eq_iff)
qed

text \<open>The two operations on the map, for a client whose file is on \<open>dev\<close>.\<close>

lemma ready_abs:
  assumes "fsck_ok tn tab" "fsck_abs tab dev = (n, cs)"
  shows "\<exists>tab'. mog_fsck_queue_ready tn c True MOG_PRIO_FSCK (Inr dev) tab = Ret (n < 1, tab') \<and> fsck_ok tn tab' \<and>
    fsck_abs tab' = (fsck_abs tab)(dev := if n < 1 then (1, cs) else (n, cs @ [c]))"
proof -
  obtain tab1 where t1: "fsck_queue_for tn True (Inr dev) tab = Ret (Some dev, tab1)" "fsck_ok tn tab1" "has_queue dev tab1"
    "fsck_abs tab1 = fsck_abs tab"
    using fsck_queue_for_ok [OF assms(1)] by blast
  obtain x where x: "fq_get dev tab1 = Ret x" "fq_active x = n" "fq_qhead x = cs" "fq_max_active x = 1"
    using fq_get_ok [OF t1(2,3)] t1(4) assms(2) by auto
  let ?f = "if n < 1 then (\<lambda>x. x\<lparr>fq_active := (fq_active x + 1) mod 2 ^ 64\<rparr>) else (\<lambda>x. x\<lparr>fq_qhead := fq_qhead x @ [c]\<rparr>)"
  have "fsck_ok tn (fq_set dev ?f tab1) \<and>
      fsck_abs (fq_set dev ?f tab1) = (fsck_abs tab1)(dev := if n < 1 then (1, cs) else (n, cs @ [c]))"
    using x by (intro fq_set_ok [OF t1(2,3)]) auto
  moreover have "mog_fsck_queue_ready tn c True MOG_PRIO_FSCK (Inr dev) tab = Ret (n < 1, fq_set dev ?f tab1)"
    using t1(1) x by (simp add: mog_fsck_queue_ready_def del: obind_Ret)
  ultimately show ?thesis
    using t1(4) by simp
qed

lemma next_abs:
  assumes "fsck_ok tn tab" "fsck_abs tab dev = (1, cs)" "\<forall>c\<in>set cs. prio_of c = MOG_PRIO_FSCK"
  shows "\<exists>tab'. mog_fsck_queue_next tn True MOG_PRIO_FSCK prio_of (Inr dev) tab = Ret (case cs of [] \<Rightarrow> None | c # _ \<Rightarrow> Some c, tab') \<and>
    fsck_ok tn tab' \<and> fsck_abs tab' = (fsck_abs tab)(dev := (0, tl cs))"
proof -
  obtain tab1 where t1: "fsck_queue_for tn True (Inr dev) tab = Ret (Some dev, tab1)" "fsck_ok tn tab1" "has_queue dev tab1"
    "fsck_abs tab1 = fsck_abs tab"
    using fsck_queue_for_ok [OF assms(1)] by blast
  obtain x where x: "fq_get dev tab1 = Ret x" "fq_active x = 1" "fq_qhead x = cs" "fq_max_active x = 1"
    using fq_get_ok [OF t1(2,3)] t1(4) assms(2) by auto
  let ?f = "case cs of [] \<Rightarrow> release_slot | _ # cs' \<Rightarrow> (\<lambda>x. (release_slot x)\<lparr>fq_qhead := cs'\<rparr>)"
  have "fsck_ok tn (fq_set dev ?f tab1) \<and> fsck_abs (fq_set dev ?f tab1) = (fsck_abs tab1)(dev := (0, tl cs))"
    using x by (intro fq_set_ok [OF t1(2,3)]) (auto simp: release_slot_def split: list.splits)
  moreover have "mog_fsck_queue_next tn True MOG_PRIO_FSCK prio_of (Inr dev) tab =
      Ret (case cs of [] \<Rightarrow> None | c # _ \<Rightarrow> Some c, fq_set dev ?f tab1)"
    using t1(1) x assms(3) by (cases cs) (simp_all add: mog_fsck_queue_next_def release_slot_def del: obind_Ret)
  ultimately show ?thesis
    using t1(4) by simp
qed

section \<open>Clients taking turns\<close>

text \<open>
  What the clients do: \<open>f_run c\<close> is the device on which client \<open>c\<close> runs a digest, \<open>f_wait c\<close> the one in whose queue it waits, and
  \<open>f_wake c\<close> the one for which it was pushed back into the active queue and has not asked again yet.
\<close>

record fsck_sys =
  f_tab :: fsck_table
  f_run :: "nat \<Rightarrow> nat option"
  f_wait :: "nat \<Rightarrow> nat option"
  f_wake :: "nat \<Rightarrow> nat option"

datatype fsck_act = FReady nat nat | FDone nat nat

fun fsck_do :: "hash_tuning \<Rightarrow> fsck_act \<Rightarrow> fsck_sys \<Rightarrow> fsck_sys outcome" where
  "fsck_do tn (FReady c dev) s =
     obind (mog_fsck_queue_ready tn c True MOG_PRIO_FSCK (Inr dev) (f_tab s)) (\<lambda>(ok, tab).
       Ret (if ok then s\<lparr>f_tab := tab, f_run := (f_run s)(c \<mapsto> dev), f_wake := (f_wake s)(c := None)\<rparr>
            else s\<lparr>f_tab := tab, f_wait := (f_wait s)(c \<mapsto> dev), f_wake := (f_wake s)(c := None)\<rparr>))"
| "fsck_do tn (FDone c dev) s =
     obind (mog_fsck_queue_next tn True MOG_PRIO_FSCK (\<lambda>_. MOG_PRIO_FSCK) (Inr dev) (f_tab s)) (\<lambda>(nx, tab).
       Ret (case nx of
              None \<Rightarrow> s\<lparr>f_tab := tab, f_run := (f_run s)(c := None)\<rparr>
            | Some d \<Rightarrow> s\<lparr>f_tab := tab, f_run := (f_run s)(c := None), f_wait := (f_wait s)(d := None),
                          f_wake := (f_wake s)(d \<mapsto> dev)\<rparr>))"

text \<open>A client asks when it neither runs nor waits; one that was woken asks for the same file, so for the same device.\<close>

fun fsck_enabled :: "fsck_act \<Rightarrow> fsck_sys \<Rightarrow> bool" where
  "fsck_enabled (FReady c dev) s \<longleftrightarrow> f_run s c = None \<and> f_wait s c = None \<and> f_wake s c \<in> {None, Some dev}"
| "fsck_enabled (FDone c dev) s \<longleftrightarrow> f_run s c = Some dev"

definition fsck_start :: fsck_sys where
  "fsck_start = \<lparr>f_tab = None, f_run = \<lambda>_. None, f_wait = \<lambda>_. None, f_wake = \<lambda>_. None\<rparr>"

inductive fsck_reach :: "hash_tuning \<Rightarrow> fsck_sys \<Rightarrow> bool" for tn where
  start: "fsck_reach tn fsck_start"
| step: "fsck_reach tn s \<Longrightarrow> fsck_enabled a s \<Longrightarrow> fsck_do tn a s = Ret s' \<Longrightarrow> fsck_reach tn s'"

text \<open>The invariant, for one device with \<open>n\<close> running digests and the queue \<open>cs\<close>.\<close>

definition dev_inv :: "fsck_sys \<Rightarrow> nat \<Rightarrow> nat \<times> nat list \<Rightarrow> bool" where
  "dev_inv s dev = (\<lambda>(n, cs).
     n \<le> 1 \<and> (n = 0 \<longleftrightarrow> (\<forall>c. f_run s c \<noteq> Some dev)) \<and>
     (\<forall>c d. f_run s c = Some dev \<and> f_run s d = Some dev \<longrightarrow> c = d) \<and>
     distinct cs \<and> (\<forall>c. c \<in> set cs \<longleftrightarrow> f_wait s c = Some dev) \<and>
     (cs \<noteq> [] \<longrightarrow> (\<exists>c. f_run s c = Some dev \<or> f_wake s c = Some dev)))"

definition one_role :: "fsck_sys \<Rightarrow> bool" where
  "one_role s \<longleftrightarrow> (\<forall>c. (f_wait s c \<noteq> None \<longrightarrow> f_run s c = None \<and> f_wake s c = None) \<and> (f_run s c \<noteq> None \<longrightarrow> f_wake s c = None))"

definition fsck_inv :: "hash_tuning \<Rightarrow> fsck_sys \<Rightarrow> bool" where
  "fsck_inv tn s \<longleftrightarrow> fsck_ok tn (f_tab s) \<and> one_role s \<and> (\<forall>dev. dev_inv s dev (fsck_abs (f_tab s) dev))"

text \<open>A device is not affected by what clients do elsewhere.\<close>

lemma dev_inv_frame:
  assumes "dev_inv s dev x" "\<And>c. f_run s' c = Some dev \<longleftrightarrow> f_run s c = Some dev"
    and "\<And>c. f_wait s' c = Some dev \<longleftrightarrow> f_wait s c = Some dev" "\<And>c. f_wake s' c = Some dev \<longleftrightarrow> f_wake s c = Some dev"
  shows "dev_inv s' dev x"
  using assms(1) unfolding dev_inv_def assms(2-4) .

lemma ready_inv:
  assumes "fsck_inv tn s" "fsck_enabled (FReady c dev) s"
  shows "\<exists>s'. fsck_do tn (FReady c dev) s = Ret s' \<and> fsck_inv tn s'"
proof -
  obtain n cs where a: "fsck_abs (f_tab s) dev = (n, cs)"
    by fastforce
  have inv: "fsck_ok tn (f_tab s)" "one_role s" "\<And>d. dev_inv s d (fsck_abs (f_tab s) d)"
    using assms(1) by (simp_all add: fsck_inv_def)
  have dev: "dev_inv s dev (n, cs)"
    using inv(3) [of dev] a by simp
  obtain tab where tab: "mog_fsck_queue_ready tn c True MOG_PRIO_FSCK (Inr dev) (f_tab s) = Ret (n < 1, tab)" "fsck_ok tn tab"
    "fsck_abs tab = (fsck_abs (f_tab s))(dev := if n < 1 then (1, cs) else (n, cs @ [c]))"
    using ready_abs [OF inv(1) a] by blast
  have c: "f_run s c = None" "f_wait s c = None" "f_wake s c = None \<or> f_wake s c = Some dev"
    using assms(2) by auto
  show ?thesis
  proof (cases "n < 1")
    case True
    let ?s = "s\<lparr>f_tab := tab, f_run := (f_run s)(c \<mapsto> dev), f_wake := (f_wake s)(c := None)\<rparr>"
    have "one_role ?s"
      using inv(2) c by (auto simp: one_role_def)
    moreover have "dev_inv ?s dev (1, cs)"
      using dev True c by (auto simp: dev_inv_def)
    moreover have "dev_inv ?s d (fsck_abs (f_tab s) d)" if "d \<noteq> dev" for d
      by (rule dev_inv_frame [OF inv(3)]) (use that c in auto)
    ultimately have "fsck_inv tn ?s"
      using tab True by (simp add: fsck_inv_def)
    then show ?thesis
      using tab(1) True by (simp del: obind_Ret)
  next
    case False
    let ?s = "s\<lparr>f_tab := tab, f_wait := (f_wait s)(c \<mapsto> dev), f_wake := (f_wake s)(c := None)\<rparr>"
    have "one_role ?s"
      using inv(2) c by (auto simp: one_role_def)
    moreover obtain r where r: "f_run s r = Some dev"
      using dev False unfolding dev_inv_def by auto
    then have "r \<noteq> c"
      using c(1) by auto
    with r have "dev_inv ?s dev (n, cs @ [c])"
      using dev False c by (auto simp: dev_inv_def intro!: exI [of _ r])
    moreover have "dev_inv ?s d (fsck_abs (f_tab s) d)" if "d \<noteq> dev" for d
      by (rule dev_inv_frame [OF inv(3)]) (use that c in auto)
    ultimately have "fsck_inv tn ?s"
      using tab False by (simp add: fsck_inv_def)
    then show ?thesis
      using tab(1) False by (simp del: obind_Ret)
  qed
qed

lemma done_inv:
  assumes "fsck_inv tn s" "fsck_enabled (FDone c dev) s"
  shows "\<exists>s'. fsck_do tn (FDone c dev) s = Ret s' \<and> fsck_inv tn s'"
proof -
  obtain n cs where a: "fsck_abs (f_tab s) dev = (n, cs)"
    by fastforce
  have inv: "fsck_ok tn (f_tab s)" "one_role s" "\<And>d. dev_inv s d (fsck_abs (f_tab s) d)"
    using assms(1) by (simp_all add: fsck_inv_def)
  have dev: "dev_inv s dev (n, cs)" and c: "f_run s c = Some dev"
    using inv(3) [of dev] a assms(2) by simp_all
  then have "n = 1"
    by (auto simp: dev_inv_def le_Suc_eq)
  then obtain tab where tab: "mog_fsck_queue_next tn True MOG_PRIO_FSCK (\<lambda>_. MOG_PRIO_FSCK) (Inr dev) (f_tab s) =
      Ret (case cs of [] \<Rightarrow> None | d # _ \<Rightarrow> Some d, tab)" "fsck_ok tn tab" "fsck_abs tab = (fsck_abs (f_tab s))(dev := (0, tl cs))"
    using next_abs [OF inv(1), of dev cs "\<lambda>_. MOG_PRIO_FSCK"] a by auto
  have only: "f_run s d = Some dev \<longleftrightarrow> d = c" for d
    using dev c by (auto simp: dev_inv_def)
  show ?thesis
  proof (cases cs)
    case Nil
    let ?s = "s\<lparr>f_tab := tab, f_run := (f_run s)(c := None)\<rparr>"
    have "one_role ?s"
      using inv(2) by (auto simp: one_role_def)
    moreover have "dev_inv ?s dev (0, [])"
      using dev only Nil by (auto simp: dev_inv_def)
    moreover have "dev_inv ?s d (fsck_abs (f_tab s) d)" if "d \<noteq> dev" for d
      by (rule dev_inv_frame [OF inv(3)]) (use that c in auto)
    ultimately have "fsck_inv tn ?s"
      using tab Nil by (simp add: fsck_inv_def)
    then show ?thesis
      using tab(1) Nil by (simp del: obind_Ret)
  next
    case (Cons w ws)
    let ?s = "s\<lparr>f_tab := tab, f_run := (f_run s)(c := None), f_wait := (f_wait s)(w := None), f_wake := (f_wake s)(w \<mapsto> dev)\<rparr>"
    have "w \<in> set cs \<longleftrightarrow> f_wait s w = Some dev"
      using dev unfolding dev_inv_def by blast
    then have w: "f_wait s w = Some dev" "f_run s w = None" "f_wake s w = None"
      using Cons inv(2) [unfolded one_role_def, rule_format, of w] by simp_all
    have "one_role ?s"
      using inv(2) w by (auto simp: one_role_def)
    moreover have "dev_inv ?s dev (0, ws)"
      using dev only Cons by (auto simp: dev_inv_def intro!: exI [of _ w])
    moreover have "dev_inv ?s d (fsck_abs (f_tab s) d)" if "d \<noteq> dev" for d
      by (rule dev_inv_frame [OF inv(3)]) (use that c w in auto)
    ultimately have "fsck_inv tn ?s"
      using tab Cons by (simp add: fsck_inv_def)
    then show ?thesis
      using tab(1) Cons by (simp del: obind_Ret)
  qed
qed

lemma fsck_do_inv: "fsck_inv tn s \<Longrightarrow> fsck_enabled a s \<Longrightarrow> \<exists>s'. fsck_do tn a s = Ret s' \<and> fsck_inv tn s'"
  by (cases a) (metis ready_inv, metis done_inv)

lemma fsck_reach_inv: "fsck_reach tn s \<Longrightarrow> tuning_ok tn \<Longrightarrow> fsck_inv tn s"
proof (induction rule: fsck_reach.induct)
  case start
  then show ?case
    by (simp add: fsck_inv_def fsck_start_def fsck_ok_def one_role_def dev_inv_def fsck_abs_def)
next
  case (step s a s')
  then show ?case
    using fsck_do_inv [of tn s a] by fastforce
qed

section \<open>Properties\<close>


lemma demo_tuning_ok: "tuning_ok demo_tuning"
  using demo_sizes by (simp add: tuning_ok_def) (simp add: demo_tuning_def SIZE_MAX_def)


text \<open>Clients that ask one after another for a digest on the same device.\<close>

primrec ready_all :: "hash_tuning \<Rightarrow> nat \<Rightarrow> nat list \<Rightarrow> fsck_table \<Rightarrow> (bool list \<times> fsck_table) outcome" where
  "ready_all tn dev [] tab = Ret ([], tab)"
| "ready_all tn dev (c # cs) tab =
     obind (mog_fsck_queue_ready tn c True MOG_PRIO_FSCK (Inr dev) tab) (\<lambda>(ok, tab1).
       obind (ready_all tn dev cs tab1) (\<lambda>(oks, tab2). Ret (ok # oks, tab2)))"

lemma ready_all_blocked:
  "fsck_ok tn tab \<Longrightarrow> fsck_abs tab dev = (n, ws) \<Longrightarrow> 1 \<le> n \<Longrightarrow>
   \<exists>tab'. ready_all tn dev cs tab = Ret (replicate (length cs) False, tab') \<and> fsck_abs tab' dev = (n, ws @ cs)"
proof (induction cs arbitrary: tab ws)
  case (Cons c cs)
  obtain tab1 where t1: "mog_fsck_queue_ready tn c True MOG_PRIO_FSCK (Inr dev) tab = Ret (False, tab1)" "fsck_ok tn tab1"
    "fsck_abs tab1 dev = (n, ws @ [c])"
    using ready_abs [OF Cons.prems(1,2), of c] Cons.prems(3) by auto
  then show ?case
    using Cons.IH [OF t1(2,3) Cons.prems(3)] by auto
qed simp

lemma next_underflow:
  assumes "fsck_ok tn tab" "fsck_abs tab dev = (0, [])"
  shows "\<exists>tab'. mog_fsck_queue_next tn True MOG_PRIO_FSCK prio_of (Inr dev) tab = Ret (None, tab') \<and> fsck_ok tn tab' \<and>
    fsck_abs tab' dev = (2 ^ 64 - 1, [])"
proof -
  obtain tab1 where t1: "fsck_queue_for tn True (Inr dev) tab = Ret (Some dev, tab1)" "fsck_ok tn tab1" "has_queue dev tab1"
    "fsck_abs tab1 = fsck_abs tab"
    using fsck_queue_for_ok [OF assms(1)] by blast
  obtain x where x: "fq_get dev tab1 = Ret x" "fq_active x = 0" "fq_qhead x = []"
    using fq_get_ok [OF t1(2,3)] t1(4) assms(2) by auto
  have "fsck_ok tn (fq_set dev release_slot tab1) \<and> fsck_abs (fq_set dev release_slot tab1) = (fsck_abs tab1)(dev := (2 ^ 64 - 1, []))"
    using x by (intro fq_set_ok [OF t1(2,3)]) (auto simp: release_slot_def)
  moreover have "mog_fsck_queue_next tn True MOG_PRIO_FSCK prio_of (Inr dev) tab = Ret (None, fq_set dev release_slot tab1)"
    using t1(1) x by (simp add: mog_fsck_queue_next_def release_slot_def del: obind_Ret)
  ultimately show ?thesis
    by auto
qed



end
