(* ===== verification/Mog_Mgmt.thy ===== *)
theory Mog_Mgmt
  imports Mog_Mgmt_Table Mog_Fsck Mog_Http
begin

text \<open>
  The side channel: \<^verbatim>\<open>mgmt_parser.rl\<close>, \<^verbatim>\<open>mgmt_fn.c\<close> and \<^verbatim>\<open>mgmt.c\<close>. A client sends commands, one in a line; the parser calls the
  function of a command at the end of its line. The mark that \<^verbatim>\<open>get_path\<close> and \<^verbatim>\<open>mog_mgmt_fn_aio_threads\<close> write behind their
  argument lies before \<^verbatim>\<open>mgmt->offset\<close> and is not read again, so the buffer keeps its contents here. I/O priorities are not modelled.
\<close>

section \<open>The client\<close>

text \<open>\<open>FwdIostat\<close> is the sentinel \<^verbatim>\<open>MOG_IOSTAT\<close>; an open file has its digest and its path.\<close>

datatype mgmt_fwd = FwdNull | FwdIostat | FwdFile mog_digest bytes

record mog_mgmt =
  m_cs :: nat
  m_prio :: mog_prio
  m_forward :: mgmt_fwd
  m_offset :: nat
  m_mark0 :: nat
  m_mark1 :: nat
  m_rbuf :: "nat option"
  m_wbuf :: wbuf_ptr
  m_alg :: Gc_hash

text \<open>
  The rest of the process as far as the side channel uses it: the client's descriptor, whether \<^verbatim>\<open>svc->mgmt_fd >= 0\<close>, the sizes
  passed to \<^verbatim>\<open>mog_thrpool_set_n_threads\<close>, the number of calls of \<^verbatim>\<open>cmogstored_quit\<close> and \<^verbatim>\<open>mog_notify\<close>, whether the client has
  subscribed to device statistics, the answers to reads of the file being hashed and to \<^verbatim>\<open>fstat\<close> on it, and the
  digest queues with the clients they woke.
\<close>

record mproc =
  pr_fd :: nat
  pr_accepting :: bool
  pr_threads :: "nat list"
  pr_quit :: nat
  pr_notify :: nat
  pr_subscribed :: bool
  pr_reads :: "fres list"
  pr_fstat :: "(errno + nat) list"
  pr_tuning :: hash_tuning
  pr_fsck :: fsck_table
  pr_prio_of :: "nat \<Rightarrow> mog_prio"
  pr_woken :: "nat list"

type_synonym mclient = "mog_mgmt \<times> world \<times> mproc"

definition set_prio_fsck :: "mclient \<Rightarrow> mclient" where
  "set_prio_fsck = (\<lambda>(m, w, pr). (if pr_accepting pr then m\<lparr>m_prio := MOG_PRIO_FSCK\<rparr> else m, w, pr))"

definition mog_mgmt_reset_parser :: "mog_mgmt \<Rightarrow> mog_mgmt" where
  "mog_mgmt_reset_parser m = m\<lparr>m_cs := 1, m_mark0 := 0, m_mark1 := 0\<rparr>"

text \<open>The parser sets \<^verbatim>\<open>alg\<close> before a command reads it, so its first value does not matter.\<close>

definition mog_mgmt_init :: mog_mgmt where
  "mog_mgmt_init = mog_mgmt_reset_parser \<lparr>m_cs = 0, m_prio = MOG_PRIO_NONE, m_forward = FwdNull, m_offset = 0,
     m_mark0 = 0, m_mark1 = 0, m_rbuf = None, m_wbuf = WNull, m_alg = GC_MD5\<rparr>"

section \<open>Commands\<close>

definition mog_mgmt_writev :: "bytes list \<Rightarrow> mclient \<Rightarrow> mclient outcome" where
  "mog_mgmt_writev iov = (\<lambda>(m, w, pr).
     assert_then (m_wbuf m = WNull)
      (obind (mog_trywritev iov (w_tx w)) (\<lambda>(wb, tx). Ret (m\<lparr>m_wbuf := wb\<rparr>, w\<lparr>w_tx := tx\<rparr>, pr))))"

definition marked :: "bytes \<Rightarrow> mog_mgmt \<Rightarrow> bytes" where
  "marked buf m = take (m_mark1 m - m_mark0 m) (drop (m_mark0 m) buf)"

definition get_path :: "bytes \<Rightarrow> mclient \<Rightarrow> (bytes option \<times> mclient) outcome" where
  "get_path buf = (\<lambda>(m, w, pr).
     if mog_valid_path (marked buf m) then Ret (Some (marked buf m), m, w, pr)
     else obind (mog_mgmt_writev [''ERROR: uri invalid (contains ..)'' @ crlf] (m, w, pr)) (\<lambda>s. Ret (None, s)))"

fun alg_name :: "Gc_hash \<Rightarrow> bytes" where
  "alg_name GC_MD5 = '' MD5=''"
| "alg_name GC_SHA1 = '' SHA-1=''"

definition mog_mgmt_fn_digest :: "bytes \<Rightarrow> mclient \<Rightarrow> mclient outcome" where
  "mog_mgmt_fn_digest buf s =
     obind (get_path buf s) (\<lambda>(p, m, w, pr).
       case p of
         None \<Rightarrow> Ret (m, w, pr)
       | Some path \<Rightarrow>
           obind (mog_file_open_read path w) (\<lambda>(f, w1).
             case f of
               Some fl \<Rightarrow> Ret (m\<lparr>m_forward := FwdFile (mog_digest_init (fl_node fl)) path\<rparr>, w1, pr)
             | None \<Rightarrow> mog_mgmt_writev [path, alg_name (m_alg m) @ ''-1'' @ crlf] (m, w1, pr)))"

definition mog_mgmt_fn_digest_err :: "mclient \<Rightarrow> mclient outcome" where
  "mog_mgmt_fn_digest_err = (\<lambda>(m, w, pr).
     case m_forward m of
       FwdFile d path \<Rightarrow>
         mog_mgmt_writev [''ERR read '', path, '' at '' @ int_str (int (dg_pos d)) @ '' failed'' @ crlf] (m, w, pr)
     | _ \<Rightarrow> Abort)"

definition mog_mgmt_fn_digest_emit :: "(Gc_hash \<Rightarrow> bytes \<Rightarrow> bytes) \<Rightarrow> mclient \<Rightarrow> mclient outcome" where
  "mog_mgmt_fn_digest_emit hash = (\<lambda>(m, w, pr).
     case m_forward m of
       FwdFile d path \<Rightarrow>
         obind (mog_digest_hex hash (m_alg m) (case m_alg m of GC_MD5 \<Rightarrow> 32 | GC_SHA1 \<Rightarrow> 40) d) (\<lambda>hex.
           mog_mgmt_writev [path, alg_name (m_alg m) @ hex @ crlf] (m, w, pr))
     | _ \<Rightarrow> Abort)"

definition mog_mgmt_fn_size :: "bytes \<Rightarrow> mclient \<Rightarrow> mclient outcome" where
  "mog_mgmt_fn_size buf s =
     obind (get_path buf s) (\<lambda>(p, m, w, pr).
       case p of
         None \<Rightarrow> Ret (m, w, pr)
       | Some path \<Rightarrow>
           obind (mog_stat path w) (\<lambda>(st, w1).
             case st of
               Some (_, sz) \<Rightarrow> mog_mgmt_writev [path, '' '' @ int_str sz @ crlf] (m, w1, pr)
             | None \<Rightarrow> mog_mgmt_writev [path, '' -1'' @ crlf] (m, w1, pr)))"

definition mog_mgmt_fn_blank :: "mclient \<Rightarrow> mclient outcome" where
  "mog_mgmt_fn_blank s = mog_mgmt_writev [crlf] s"

definition mog_mgmt_fn_unknown :: "bytes \<Rightarrow> mclient \<Rightarrow> mclient outcome" where
  "mog_mgmt_fn_unknown buf s = mog_mgmt_writev [''ERROR: unknown command: '', marked buf (fst s), crlf] s"

definition mog_mgmt_fn_watch_err :: "mclient \<Rightarrow> mclient outcome" where
  "mog_mgmt_fn_watch_err s = mog_mgmt_writev [''ERR iostat unavailable'' @ crlf] s"

text \<open>\<^verbatim>\<open>strtoull\<close> on a string of digits.\<close>

definition strtoull_digits :: "bytes \<Rightarrow> nat" where
  "strtoull_digits s = min (nat (digits_value 0 s)) (2 ^ 64 - 1)"

definition mog_mgmt_fn_aio_threads :: "bytes \<Rightarrow> mclient \<Rightarrow> mclient outcome" where
  "mog_mgmt_fn_aio_threads buf = (\<lambda>(m, w, pr).
     assert_then (m_mark1 m < length buf \<and> buf ! m_mark1 m \<in> {CHR 0x0A, CHR 0x0D})
      (let nr = strtoull_digits (marked buf m) in
       mog_mgmt_writev [crlf] (m, w, if nr > 0 \<and> nr \<le> 100 then pr\<lparr>pr_threads := pr_threads pr @ [nr]\<rparr> else pr)))"

section \<open>The parser\<close>

record mgmt_vars =
  mp_p :: int
  mp_cs :: nat
  mp_done :: bool
  mp_s :: mclient

datatype mgmt_ctl = MGoto nat mgmt_vars | MOut mgmt_vars

datatype mact_res = MNext mgmt_vars | MJump mgmt_ctl

definition mbreak :: "nat \<Rightarrow> mgmt_vars \<Rightarrow> mgmt_ctl" where
  "mbreak n v = MOut (v\<lparr>mp_p := mp_p v + 1, mp_cs := n\<rparr>)"

definition upd_mgmt :: "(mog_mgmt \<Rightarrow> mog_mgmt) \<Rightarrow> mgmt_vars \<Rightarrow> mact_res outcome" where
  "upd_mgmt g v = (case mp_s v of (m, w, pr) \<Rightarrow> Ret (MNext (v\<lparr>mp_s := (g m, w, pr)\<rparr>)))"

text \<open>A command is carried out and ends the parser's run in state \<open>n\<close>.\<close>

definition command :: "nat \<Rightarrow> (mclient \<Rightarrow> mclient outcome) \<Rightarrow> mgmt_vars \<Rightarrow> mact_res outcome" where
  "command n f v = obind (f (mp_s v)) (\<lambda>s. Ret (MJump (mbreak n (v\<lparr>mp_s := s\<rparr>))))"

definition have_iostat :: nat where
  "have_iostat = 1"

primrec do_mact :: "mgmt_act \<Rightarrow> bytes \<Rightarrow> nat \<Rightarrow> mgmt_vars \<Rightarrow> mact_res outcome" where
  "do_mact MA_restart buf n v = Ret (MJump (MGoto 71 (v\<lparr>mp_p := -1\<rparr>)))"
| "do_mact MA_blank buf n v = command n mog_mgmt_fn_blank v"
| "do_mact MA_mark0 buf n v = upd_mgmt (\<lambda>m. m\<lparr>m_mark0 := nat (mp_p v)\<rparr>) v"
| "do_mact MA_mark1 buf n v = upd_mgmt (\<lambda>m. m\<lparr>m_mark1 := nat (mp_p v)\<rparr>) v"
| "do_mact MA_digest buf n v = command n (mog_mgmt_fn_digest buf) v"
| "do_mact MA_aio_threads buf n v = command n (mog_mgmt_fn_aio_threads buf) v"
| "do_mact MA_shutdown buf n v = command n (\<lambda>(m, w, pr). Ret (m, w, pr\<lparr>pr_quit := pr_quit pr + 1\<rparr>)) v"
| "do_mact MA_size buf n v = command n (mog_mgmt_fn_size buf) v"
| "do_mact MA_watch buf n v = command n (\<lambda>(m, w, pr).
     if have_iostat \<noteq> 0 then Ret (m\<lparr>m_forward := FwdIostat\<rparr>, w, pr) else mog_mgmt_fn_watch_err (m, w, pr)) v"
| "do_mact (MA_alg a) buf n v = upd_mgmt (\<lambda>m. m\<lparr>m_alg := a\<rparr>) v"
| "do_mact MA_prio_fsck buf n v = Ret (MNext (v\<lparr>mp_s := set_prio_fsck (mp_s v)\<rparr>))"
| "do_mact MA_unknown buf n v = command n (mog_mgmt_fn_unknown buf) (v\<lparr>mp_done := True\<rparr>)"

definition mgoto_st :: "nat \<Rightarrow> mgmt_vars \<Rightarrow> mgmt_ctl" where
  "mgoto_st n v = (if n = 0 then MOut (v\<lparr>mp_cs := 0\<rparr>) else MGoto n v)"

primrec run_macts :: "mgmt_act list \<Rightarrow> bytes \<Rightarrow> nat \<Rightarrow> mgmt_vars \<Rightarrow> mgmt_ctl outcome" where
  "run_macts [] buf n v = Ret (mgoto_st n v)"
| "run_macts (a # as) buf n v =
     obind (do_mact a buf n v) (\<lambda>r. case r of MNext v1 \<Rightarrow> run_macts as buf n v1 | MJump k \<Rightarrow> Ret k)"

fun mrow_lookup :: "(int \<times> int \<times> mgmt_lab) list \<Rightarrow> mgmt_lab \<Rightarrow> int \<Rightarrow> mgmt_lab" where
  "mrow_lookup [] d c = d"
| "mrow_lookup ((a, b, l) # rs) d c = (if a \<le> c \<and> c \<le> b then l else mrow_lookup rs d c)"

definition mgoto_lab :: "mgmt_lab \<Rightarrow> bytes \<Rightarrow> mgmt_vars \<Rightarrow> mgmt_ctl outcome" where
  "mgoto_lab l buf v =
     (case l of
        MSt n \<Rightarrow> Ret (mgoto_st n v)
      | MTr k \<Rightarrow> (case map_of mgmt_trs k of None \<Rightarrow> Abort | Some (as, n) \<Rightarrow> run_macts as buf n v))"

definition mgmt_trans :: "bytes \<Rightarrow> mgmt_vars \<Rightarrow> mgmt_ctl outcome" where
  "mgmt_trans buf v =
     (case map_of mgmt_rows (mp_cs v) of
        None \<Rightarrow> Ret (MOut v)
      | Some (rs, d) \<Rightarrow> mgoto_lab (mrow_lookup rs d (sc (buf ! nat (mp_p v)))) buf v)"

primrec mgmt_exec :: "nat \<Rightarrow> bytes \<Rightarrow> mgmt_vars \<Rightarrow> mgmt_vars outcome" where
  "mgmt_exec 0 buf v = Starved"
| "mgmt_exec (Suc fuel) buf v =
     obind (mgmt_trans buf v) (\<lambda>r.
       case r of
         MOut v1 \<Rightarrow> Ret v1
       | MGoto n v1 \<Rightarrow>
           let v2 = v1\<lparr>mp_p := mp_p v1 + 1, mp_cs := n\<rparr> in
           if mp_p v2 = int (length buf) then Ret v2 else mgmt_exec fuel buf v2)"

text \<open>A line is read at most twice: as a command and, from its start, as an unknown one.\<close>

definition mgmt_fuel :: "bytes \<Rightarrow> nat" where
  "mgmt_fuel buf = 2 * length buf + 2"

definition mog_mgmt_parse :: "bytes \<Rightarrow> mclient \<Rightarrow> (mog_parser_state \<times> mclient) outcome" where
  "mog_mgmt_parse buf = (\<lambda>(m, w, pr).
     assert_then (m_wbuf m = WNull) (assert_then (m_offset m \<le> length buf)
      (let v = \<lparr>mp_p = int (m_offset m), mp_cs = m_cs m, mp_done = False, mp_s = (m, w, pr)\<rparr> in
       obind (if m_offset m = length buf then Ret v else mgmt_exec (mgmt_fuel buf) buf v) (\<lambda>v1.
         let cs = (if mp_done v1 then 74 else mp_cs v1) in
         case mp_s v1 of (m1, w1, pr1) \<Rightarrow>
           (let m2 = m1\<lparr>m_cs := cs, m_offset := nat (mp_p v1)\<rparr> in
            if cs = 0 then Ret (MOG_PARSER_ERROR, m2, w1, pr1)
            else assert_then (mp_p v1 \<le> int (length buf))
             (Ret (if cs = 74 then MOG_PARSER_DONE else MOG_PARSER_CONTINUE, m2, w1, pr1)))))))"

section \<open>The event handler\<close>

definition next_fstat :: "mproc \<Rightarrow> ((errno + nat) \<times> mproc) outcome" where
  "next_fstat pr = (case pr_fstat pr of [] \<Rightarrow> Starved | st # sts \<Rightarrow> Ret (st, pr\<lparr>pr_fstat := sts\<rparr>))"

text \<open>
  \<^verbatim>\<open>mgmt_digest_step\<close>: a digest of a file system check runs to its end, any other one for one round. Its rounds are
  bounded by the number of answers, since each of them uses at least one.
\<close>

definition digest_next :: "mog_prio \<Rightarrow> mog_digest \<Rightarrow> world \<Rightarrow> mproc \<Rightarrow> (mog_digest_next \<times> mog_digest \<times> mproc) outcome" where
  "digest_next prio d w pr =
     obind (if prio = MOG_PRIO_FSCK then digest_rounds (length (pr_reads pr) + 1) (w_data w) (pr_reads pr) d
            else mog_digest_read (w_data w) (pr_reads pr) d) (\<lambda>(nx, as, d1). Ret (nx, d1, pr\<lparr>pr_reads := as\<rparr>))"

definition fsck_queue_next :: "mclient \<Rightarrow> mclient outcome" where
  "fsck_queue_next = (\<lambda>(m, w, pr).
     obind (next_fstat pr) (\<lambda>(st, pr1).
       obind (mog_fsck_queue_next (pr_tuning pr1) (m_forward m \<noteq> FwdNull) (m_prio m) (pr_prio_of pr1) st (pr_fsck pr1)) (\<lambda>(c, tab).
         Ret (m, w, pr1\<lparr>pr_fsck := tab, pr_woken := (case c of None \<Rightarrow> pr_woken pr1 | Some x \<Rightarrow> pr_woken pr1 @ [x])\<rparr>))))"

definition mgmt_digest_step :: "(Gc_hash \<Rightarrow> bytes \<Rightarrow> bytes) \<Rightarrow> mclient \<Rightarrow> mclient outcome" where
  "mgmt_digest_step hash = (\<lambda>(m, w, pr).
     case m_forward m of
       FwdFile d path \<Rightarrow>
         obind (digest_next (m_prio m) d w pr) (\<lambda>(nx, d1, pr1).
           let m1 = m\<lparr>m_forward := FwdFile d1 path\<rparr> in
           assert_then (m_wbuf m1 = WNull)
            (if nx = MOG_DIGEST_CONTINUE then Ret (m1, w, pr1)
             else
               obind (if nx = MOG_DIGEST_EOF then mog_mgmt_fn_digest_emit hash (m1, w, pr1)
                      else mog_mgmt_fn_digest_err (m1, w, pr1)) (\<lambda>s2.
                 obind (if m_prio (fst s2) = MOG_PRIO_FSCK then fsck_queue_next s2 else Ret s2) (\<lambda>(m3, w3, pr3).
                   Ret (m3\<lparr>m_prio := MOG_PRIO_NONE, m_forward := FwdNull\<rparr>, w3\<lparr>w_nopen := w_nopen w3 - 1\<rparr>, pr3)))))
     | _ \<Rightarrow> Abort)"

definition mgmt_digest_in_progress :: "(Gc_hash \<Rightarrow> bytes \<Rightarrow> bytes) \<Rightarrow> mclient \<Rightarrow> (mog_next \<times> mclient) outcome" where
  "mgmt_digest_in_progress hash = (\<lambda>(m, w, pr).
     assert_then (m_forward m \<noteq> FwdNull \<and> m_forward m \<noteq> FwdIostat)
      (obind (if m_prio m = MOG_PRIO_FSCK
              then obind (next_fstat pr) (\<lambda>(st, pr1).
                     obind (mog_fsck_queue_ready (pr_tuning pr1) (pr_fd pr1) True (m_prio m) st (pr_fsck pr1)) (\<lambda>(ok, tab).
                       Ret (ok, pr1\<lparr>pr_fsck := tab\<rparr>)))
              else Ret (True, pr)) (\<lambda>(ok, pr1).
         if \<not> ok then Ret (MOG_NEXT_IGNORE, m, w, pr1)
         else obind (mgmt_digest_step hash (m, w, pr1)) (\<lambda>s.
           Ret (if m_wbuf (fst s) = WError then MOG_NEXT_CLOSE
                else if m_wbuf (fst s) \<noteq> WNull then MOG_NEXT_WAIT_WR else MOG_NEXT_ACTIVE, s)))))"

text \<open>The descriptor itself is released by \<^verbatim>\<open>mog_fd_put\<close>.\<close>

definition mgmt_close :: "mclient \<Rightarrow> mclient outcome" where
  "mgmt_close = (\<lambda>(m, w, pr).
     obind (mog_rbuf_free (m_rbuf m) (w_heap w)) (\<lambda>hp.
       assert_then (m_wbuf m = WNull \<or> m_wbuf m = WError) (Ret (m, w\<lparr>w_heap := hp\<rparr>, pr))))"

definition mgmt_iostat_forever :: "mclient \<Rightarrow> (mog_next \<times> mclient) outcome" where
  "mgmt_iostat_forever = (\<lambda>(m, w, pr).
     obind (mog_rbuf_free_and_null (m_rbuf m) (w_heap w)) (\<lambda>(r, hp).
       Ret (MOG_NEXT_IGNORE, m\<lparr>m_rbuf := r\<rparr>, w\<lparr>w_heap := hp\<rparr>, pr\<lparr>pr_notify := pr_notify pr + 1, pr_subscribed := True\<rparr>)))"

definition mgmt_wbuf_in_progress :: "mclient \<Rightarrow> (mog_next \<times> mclient) outcome" where
  "mgmt_wbuf_in_progress = (\<lambda>(m, w, pr).
     case m_wbuf m of
       WBuf b \<Rightarrow>
         obind (mog_tryflush b (w_tx w)) (\<lambda>(st, wb, tx).
           let s = (m\<lparr>m_wbuf := wb\<rparr>, w\<lparr>w_tx := tx\<rparr>, pr) in
           case st of
             MOG_WRSTATE_ERR \<Rightarrow> Ret (MOG_NEXT_CLOSE, s)
           | MOG_WRSTATE_DONE \<Rightarrow> if m_forward m = FwdIostat then mgmt_iostat_forever s else Ret (MOG_NEXT_ACTIVE, s)
           | MOG_WRSTATE_BUSY \<Rightarrow> Ret (MOG_NEXT_WAIT_WR, s))
     | _ \<Rightarrow> Abort)"

text \<open>\<open>i\<close> is the buffer the line was read into and \<open>buf\<close> its contents.\<close>

definition mgmt_defer_rbuf :: "nat \<Rightarrow> bytes \<Rightarrow> mclient \<Rightarrow> mclient outcome" where
  "mgmt_defer_rbuf i buf = (\<lambda>(m, w, pr).
     let src = drop (m_offset m) buf in
     assert_then (m_offset m \<le> length buf) (assert_then (length src \<le> MOG_RBUF_BASE_SIZE)
      (if src = [] then
         obind (mog_rbuf_free_and_null (m_rbuf m) (w_heap w)) (\<lambda>(r, hp).
           Ret (m\<lparr>m_rbuf := r, m_offset := 0\<rparr>, w\<lparr>w_heap := hp\<rparr>, pr))
       else
         obind (case m_rbuf m of
                  Some old \<Rightarrow> assert_then (old = i) (Ret (old, w_heap w))
                | None \<Rightarrow> mog_rbuf_new MOG_RBUF_BASE_SIZE (w_heap w)) (\<lambda>(j, hp).
           case rh_bufs hp j of
             None \<Rightarrow> Abort
           | Some b \<Rightarrow>
               Ret (m\<lparr>m_rbuf := Some j, m_offset := 0\<rparr>,
                 w\<lparr>w_heap := hp\<lparr>rh_bufs := (rh_bufs hp)(j \<mapsto>
                   b\<lparr>rb_rptr := src @ drop (length src) (rb_rptr b), rb_rsize := Some (length src)\<rparr>)\<rparr>\<rparr>, pr)))))"

text \<open>From the label \<^verbatim>\<open>parse\<close> on; \<open>reread\<close> is the jump to the label of that name.\<close>

definition mgmt_parse_step ::
  "(nat \<Rightarrow> mclient \<Rightarrow> (mog_next \<times> mclient) outcome) \<Rightarrow> nat \<Rightarrow> bytes \<Rightarrow> mclient \<Rightarrow> (mog_next \<times> mclient) outcome" where
  "mgmt_parse_step reread i buf s =
     obind (mog_mgmt_parse buf s) (\<lambda>(st, m, w, pr).
       if m_wbuf m = WError then Ret (MOG_NEXT_CLOSE, m, w, pr)
       else case st of
         MOG_PARSER_ERROR \<Rightarrow> Ret (MOG_NEXT_CLOSE, m, w, pr)
       | MOG_PARSER_CONTINUE \<Rightarrow>
           assert_then (m_wbuf m = WNull)
            (if m_offset m = MOG_RBUF_BASE_SIZE
             then assert_then (length buf = MOG_RBUF_BASE_SIZE) (Ret (MOG_NEXT_CLOSE, m, w, pr))
             else reread (length buf) (m, w, pr))
       | MOG_PARSER_DONE \<Rightarrow>
           if m_forward m = FwdIostat then mgmt_iostat_forever (m, w, pr)
           else obind (mgmt_defer_rbuf i buf (m, w, pr)) (\<lambda>(m1, w1, pr1).
             Ret (if m_wbuf m1 = WNull then MOG_NEXT_ACTIVE else MOG_NEXT_WAIT_WR, mog_mgmt_reset_parser m1, w1, pr1)))"

text \<open>The loop at \<^verbatim>\<open>reread\<close>, by recursion over the answers left.\<close>

primrec mgmt_reread :: "rres list \<Rightarrow> nat \<Rightarrow> nat \<Rightarrow> mclient \<Rightarrow> (mog_next \<times> mclient) outcome" where
  "mgmt_reread [] i buf_len s = Starved"
| "mgmt_reread (a # as) i buf_len s = (case s of (m, w, pr) \<Rightarrow>
     (case rh_bufs (w_heap w) i of
        None \<Rightarrow> Abort
      | Some b \<Rightarrow>
          obind (sys_read (MOG_RBUF_BASE_SIZE - m_offset m) w) (\<lambda>(r, w1).
            case r of
              RdData d \<Rightarrow>
                assert_then (m_offset m \<le> length (rb_rptr b))
                 (let buf = take (m_offset m) (rb_rptr b) @ d in
                  mgmt_parse_step (mgmt_reread as i) i buf (m, w1\<lparr>w_heap := rbuf_store i buf (w_heap w1)\<rparr>, pr))
            | RdEof \<Rightarrow> Ret (MOG_NEXT_CLOSE, m, w1, pr)
            | RdErr \<Rightarrow>
                if w_errno w1 = Some EAGAIN then
                  (if buf_len > 0 \<and> m_rbuf m = None
                   then (case mog_rbuf_detach i (w_heap w1) of (j, hp) \<Rightarrow>
                           Ret (MOG_NEXT_WAIT_RD, m\<lparr>m_rbuf := Some j\<rparr>, w1\<lparr>w_heap := hp\<rparr>, pr))
                   else Ret (MOG_NEXT_WAIT_RD, m, w1, pr))
                else if w_errno w1 = Some EINTR then mgmt_reread as i buf_len (m, w1, pr)
                else Ret (MOG_NEXT_CLOSE, m, w1, pr))))"

definition mgmt_queue_step :: "(Gc_hash \<Rightarrow> bytes \<Rightarrow> bytes) \<Rightarrow> mclient \<Rightarrow> (mog_next \<times> mclient) outcome" where
  "mgmt_queue_step hash = (\<lambda>(m, w, pr).
     if m_wbuf m \<noteq> WNull then mgmt_wbuf_in_progress (m, w, pr)
     else if m_forward m \<noteq> FwdNull then mgmt_digest_in_progress hash (m, w, pr)
     else
       obind (case m_rbuf m of
                Some i \<Rightarrow> Ret (i, w_heap w)
              | None \<Rightarrow> mog_rbuf_get MOG_RBUF_BASE_SIZE (w_heap w)) (\<lambda>(i, hp).
         let w1 = w\<lparr>w_heap := hp\<rparr> in
         assert_then (m_offset m < MOG_RBUF_BASE_SIZE)
          (case rh_bufs hp i of
             None \<Rightarrow> Abort
           | Some b \<Rightarrow>
               if m_rbuf m \<noteq> None \<and> m_offset m = 0
               then (case rb_rsize b of
                       None \<Rightarrow> Abort
                     | Some n \<Rightarrow> mgmt_parse_step (mgmt_reread (w_rd w1) i) i (take n (rb_rptr b)) (m, w1, pr))
               else mgmt_reread (w_rd w1) i 0 (m, w1, pr))))"

definition mog_mgmt_queue_step :: "(Gc_hash \<Rightarrow> bytes \<Rightarrow> bytes) \<Rightarrow> mclient \<Rightarrow> (mog_next \<times> mclient) outcome" where
  "mog_mgmt_queue_step hash s =
     obind (mgmt_queue_step hash s) (\<lambda>(rv, s1).
       if rv = MOG_NEXT_CLOSE then obind (mgmt_close s1) (\<lambda>s2. Ret (rv, s2)) else Ret (rv, s1))"

text \<open>\<^verbatim>\<open>mog_mgmt_quit_step\<close> during a graceful shutdown: where the client goes, with the number of clients left.\<close>

definition mog_mgmt_quit_step :: "(Gc_hash \<Rightarrow> bytes \<Rightarrow> bytes) \<Rightarrow> nat \<times> mclient \<Rightarrow> (quit_next \<times> nat \<times> mclient) outcome" where
  "mog_mgmt_quit_step hash = (\<lambda>(nr_active, s).
     let close = (\<lambda>s1. obind (mgmt_close s1) (\<lambda>s2. Ret (Quit_Closed, nr_active - 1, s2))) in
     obind (mgmt_queue_step hash s) (\<lambda>(rv, s1).
       case rv of
         MOG_NEXT_WAIT_RD \<Rightarrow>
           if m_forward (fst s1) \<noteq> FwdNull \<or> m_rbuf (fst s1) \<noteq> None then Ret (Quit_Idle_RD, nr_active, s1)
           else assert_then (m_prio (fst s1) = MOG_PRIO_NONE) (close s1)
       | MOG_NEXT_IGNORE \<Rightarrow> assert_then (m_prio (fst s1) = MOG_PRIO_NONE) (close s1)
       | MOG_NEXT_CLOSE \<Rightarrow> close s1
       | MOG_NEXT_ACTIVE \<Rightarrow> Ret (Quit_Active, nr_active, s1)
       | MOG_NEXT_WAIT_WR \<Rightarrow> Ret (Quit_Idle_WR, nr_active, s1)))"

section \<open>Running the automaton\<close>

declare mgmt_exec.simps [simp del]

lemmas exec_Suc = mgmt_exec.simps(2)

text \<open>The lookups in the table, as one list of equations.\<close>

lemma mgmt_row_simps:
  "map_of mgmt_rows 1 = Some ([(9, 9, MSt 2), (10, 10, MTr 2), (13, 13, MSt 3), (32, 32, MSt 2), (77, 77, MSt 4), (83, 83, MSt 15), (115, 115, MSt 41), (119, 119, MSt 65)], MTr 0)"
  "map_of mgmt_rows 41 = Some ([(69, 69, MSt 16), (101, 101, MSt 16), (104, 104, MSt 42), (105, 105, MSt 59)], MTr 0)"
  "map_of mgmt_rows 59 = Some ([(122, 122, MSt 60)], MTr 0)"
  "map_of mgmt_rows 60 = Some ([(101, 101, MSt 61)], MTr 0)"
  "map_of mgmt_rows 61 = Some ([(32, 32, MSt 62)], MTr 0)"
  "map_of mgmt_rows 62 = Some ([(47, 47, MTr 74)], MTr 0)"
  "map_of mgmt_rows 63 = Some ([(10, 10, MTr 75), (13, 13, MTr 76), (45, 57, MSt 63), (65, 90, MSt 63), (97, 122, MSt 63)], MTr 0)"
  "map_of mgmt_rows 64 = Some ([(10, 10, MTr 78)], MTr 0)"
  by (simp_all add: mgmt_rows_defs)

lemma mgmt_tr_simps:
  "map_of mgmt_trs 74 = Some ([MA_mark0], 63)"
  "map_of mgmt_trs 75 = Some ([MA_mark1, MA_size], 74)"
  "map_of mgmt_trs 76 = Some ([MA_mark1], 64)"
  "map_of mgmt_trs 78 = Some ([MA_size], 74)"
  by (simp_all add: mgmt_trs_defs)

text \<open>One character, at position \<open>p\<close>.\<close>

definition at :: "nat \<Rightarrow> nat \<Rightarrow> mclient \<Rightarrow> mgmt_vars" where
  "at p cs s = \<lparr>mp_p = int p, mp_cs = cs, mp_done = False, mp_s = s\<rparr>"

lemma trans_at:
  "map_of mgmt_rows cs = Some (rs, d) \<Longrightarrow> mgmt_trans buf (at p cs s) = mgoto_lab (mrow_lookup rs d (sc (buf ! p))) buf (at p cs s)"
  by (simp add: mgmt_trans_def at_def)

lemma mexec_goto:
  assumes "mgmt_trans buf (at p cs s) = Ret (MGoto n (at p cs s'))" "Suc p < length buf"
  shows "mgmt_exec (Suc f) buf (at p cs s) = mgmt_exec f buf (at (Suc p) n s')"
  using assms by (simp add: exec_Suc at_def Let_def del: obind_Ret) (simp add: add.commute)

lemma exec_st:
  assumes "map_of mgmt_rows cs = Some (rs, d)" "mrow_lookup rs d (sc (buf ! p)) = MSt n" "n \<noteq> 0" "k = Suc g" "q = Suc p" "q < length buf"
  shows "mgmt_exec k buf (at p cs s) = mgmt_exec g buf (at q n s)"
  unfolding assms(4,5) using assms by (intro mexec_goto) (simp_all add: mgmt_trans_def mgoto_lab_def mgoto_st_def at_def)

definition path_char :: "char \<Rightarrow> bool" where
  "path_char c \<longleftrightarrow> (45 \<le> sc c \<and> sc c \<le> 57) \<or> (65 \<le> sc c \<and> sc c \<le> 90) \<or> (97 \<le> sc c \<and> sc c \<le> 122)"

text \<open>A path, read in a state that path characters do not leave.\<close>

lemma exec_path:
  assumes row: "map_of mgmt_rows cs = Some (rs, d)" "cs \<noteq> 0" "\<And>c. path_char c \<Longrightarrow> mrow_lookup rs d (sc c) = MSt cs"
  shows "\<forall>c\<in>set path. path_char c \<Longrightarrow> drop p buf = path @ rest \<Longrightarrow> rest \<noteq> [] \<Longrightarrow>
    mgmt_exec (length path + f) buf (at p cs s) = mgmt_exec f buf (at (p + length path) cs s)"
proof (induction path arbitrary: p)
  case (Cons c path)
  have p: "buf ! p = c" "Suc p < length buf" "drop (Suc p) buf = path @ rest"
  proof -
    show "buf ! p = c"
      using Cons.prems(2) by (metis append_Cons nth_via_drop)
    show "drop (Suc p) buf = path @ rest"
      using Cons.prems(2) by (metis append_Cons drop_Suc list.sel(3) tl_drop)
    then show "Suc p < length buf"
      using Cons.prems(3) by (metis append_is_Nil_conv drop_eq_Nil not_le)
  qed
  have "mgmt_exec (length (c # path) + f) buf (at p cs s) = mgmt_exec (length path + f) buf (at (Suc p) cs s)"
    by (rule exec_st [OF row(1)]) (use row p Cons.prems(1) in simp_all)
  then show ?case
    using Cons.IH [OF _ p(3) Cons.prems(3)] Cons.prems(1) by simp
qed simp

lemma exec_size_head:
  assumes "buf = ''size /'' @ rest" "rest \<noteq> []"
  shows "mgmt_exec (6 + f) buf (at 0 1 (m, w, pr)) = mgmt_exec f buf (at 6 63 (m\<lparr>m_mark0 := 5\<rparr>, w, pr))"
proof -
  let ?s = "(m, w, pr)"
  have b: "buf ! 0 = CHR ''s''" "buf ! 1 = CHR ''i''" "buf ! 2 = CHR ''z''" "buf ! 3 = CHR ''e''" "buf ! 4 = CHR '' ''" "buf ! 5 = CHR ''/''"
    "6 < length buf"
    using assms by (auto simp: nth_append)
  have "mgmt_exec (6 + f) buf (at 0 1 ?s) = mgmt_exec (5 + f) buf (at 1 41 ?s)"
    by (rule exec_st [OF mgmt_row_simps(1)]) (use b in \<open>simp_all add: sc_def\<close>)
  also have "\<dots> = mgmt_exec (4 + f) buf (at 2 59 ?s)"
    by (rule exec_st [OF mgmt_row_simps(2)]) (use b in \<open>simp_all add: sc_def\<close>)
  also have "\<dots> = mgmt_exec (3 + f) buf (at 3 60 ?s)"
    by (rule exec_st [OF mgmt_row_simps(3)]) (use b in \<open>simp_all add: sc_def\<close>)
  also have "\<dots> = mgmt_exec (2 + f) buf (at 4 61 ?s)"
    by (rule exec_st [OF mgmt_row_simps(4)]) (use b in \<open>simp_all add: sc_def\<close>)
  also have "\<dots> = mgmt_exec (1 + f) buf (at 5 62 ?s)"
    by (rule exec_st [OF mgmt_row_simps(5)]) (use b in \<open>simp_all add: sc_def\<close>)
  also have "\<dots> = mgmt_exec f buf (at 6 63 (m\<lparr>m_mark0 := 5\<rparr>, w, pr))"
  proof -
    have "mgmt_trans buf (at 5 62 ?s) = Ret (MGoto 63 (at 5 62 (m\<lparr>m_mark0 := 5\<rparr>, w, pr)))"
      using b(6) by (simp add: mgmt_trans_def mgmt_row_simps mgmt_tr_simps mgoto_lab_def mgoto_st_def at_def sc_def upd_mgmt_def)
    then show ?thesis
      using mexec_goto [of buf 5 62 ?s 63 _ f] b(7) by simp
  qed
  finally show ?thesis .
qed

text \<open>The end of the line, with or without carriage return, at position \<open>p\<close>.\<close>

lemma exec_size_eol:
  assumes "drop p buf = eol @ rest" "eol = [CHR 0x0A] \<or> eol = crlf"
  shows "mgmt_exec (2 + f) buf (at p 63 (m, w, pr)) =
    obind (mog_mgmt_fn_size buf (m\<lparr>m_mark1 := p\<rparr>, w, pr)) (\<lambda>s. Ret (at (p + length eol) 74 s))"
proof (cases "eol = crlf")
  case True
  have b: "buf ! p = CHR 0x0D" "buf ! Suc p = CHR 0x0A" "Suc p < length buf"
  proof -
    have d: "drop p buf = CHR 0x0D # CHR 0x0A # rest"
      using assms(1) True by (simp add: crlf_def)
    show "buf ! p = CHR 0x0D"
      using d by (rule nth_via_drop)
    have "drop (Suc p) buf = CHR 0x0A # rest"
      using d by (metis drop_Suc list.sel(3) tl_drop)
    then show "buf ! Suc p = CHR 0x0A" "Suc p < length buf"
      by (rule nth_via_drop, metis drop_eq_Nil list.distinct(1) not_le \<open>drop (Suc p) buf = CHR 0x0A # rest\<close>)
  qed
  have "mgmt_trans buf (at p 63 (m, w, pr)) = Ret (MGoto 64 (at p 63 (m\<lparr>m_mark1 := p\<rparr>, w, pr)))"
    unfolding trans_at [OF mgmt_row_simps(7)]
    using b(1) by (simp add: mgmt_tr_simps mgoto_lab_def mgoto_st_def at_def sc_def upd_mgmt_def)
  then have "mgmt_exec (2 + f) buf (at p 63 (m, w, pr)) = mgmt_exec (Suc f) buf (at (Suc p) 64 (m\<lparr>m_mark1 := p\<rparr>, w, pr))"
    using mexec_goto [of buf p 63 _ 64 _ "Suc f"] b(3) by simp
  also have "\<dots> = obind (mog_mgmt_fn_size buf (m\<lparr>m_mark1 := p\<rparr>, w, pr)) (\<lambda>s. Ret (at (Suc (Suc p)) 74 s))"
  proof -
    have "mgmt_trans buf (at (Suc p) 64 (m\<lparr>m_mark1 := p\<rparr>, w, pr)) =
        obind (mog_mgmt_fn_size buf (m\<lparr>m_mark1 := p\<rparr>, w, pr)) (\<lambda>s. Ret (MOut (at (Suc (Suc p)) 74 s)))"
      unfolding trans_at [OF mgmt_row_simps(8)]
    using b(2) by (cases "mog_mgmt_fn_size buf (m\<lparr>m_mark1 := p\<rparr>, w, pr)")
        (simp_all add: mgmt_tr_simps mgoto_lab_def at_def sc_def command_def mbreak_def)
    then show ?thesis
      by (cases "mog_mgmt_fn_size buf (m\<lparr>m_mark1 := p\<rparr>, w, pr)") (simp_all add: exec_Suc)
  qed
  finally show ?thesis
    using True by (simp add: crlf_def)
next
  case False
  then have e: "eol = [CHR 0x0A]"
    using assms(2) by simp
  then have b: "buf ! p = CHR 0x0A"
    using assms(1) by (metis append_Cons nth_via_drop)
  have "mgmt_trans buf (at p 63 (m, w, pr)) =
      obind (mog_mgmt_fn_size buf (m\<lparr>m_mark1 := p\<rparr>, w, pr)) (\<lambda>s. Ret (MOut (at (Suc p) 74 s)))"
    unfolding trans_at [OF mgmt_row_simps(7)]
    using b by (cases "mog_mgmt_fn_size buf (m\<lparr>m_mark1 := p\<rparr>, w, pr)")
      (simp_all add: mgmt_tr_simps mgoto_lab_def at_def sc_def command_def mbreak_def upd_mgmt_def)
  then show ?thesis
    using e by (cases "mog_mgmt_fn_size buf (m\<lparr>m_mark1 := p\<rparr>, w, pr)") (simp_all add: exec_Suc)
qed

lemma mexec_size:
  assumes "buf = ''size /'' @ tail @ eol @ rest" "\<forall>c\<in>set tail. path_char c" "eol = [CHR 0x0A] \<or> eol = crlf"
  shows "mgmt_exec (mgmt_fuel buf) buf (at 0 1 (m, w, pr)) =
    obind (mog_mgmt_fn_size buf (m\<lparr>m_mark0 := 5, m_mark1 := 6 + length tail\<rparr>, w, pr)) (\<lambda>s. Ret (at (6 + length tail + length eol) 74 s))"
proof -
  have e: "eol \<noteq> []"
    using assms(3) by (auto simp: crlf_def)
  define f where "f = mgmt_fuel buf - (6 + (length tail + 2))"
  have "mgmt_fuel buf = 6 + (length tail + (2 + f))"
    using assms(1) by (simp add: f_def mgmt_fuel_def)
  moreover have "mgmt_exec (6 + (length tail + (2 + f))) buf (at 0 1 (m, w, pr)) =
      mgmt_exec (length tail + (2 + f)) buf (at 6 63 (m\<lparr>m_mark0 := 5\<rparr>, w, pr))"
    by (rule exec_size_head [OF assms(1)]) (use e in simp)
  moreover have "mgmt_exec (length tail + (2 + f)) buf (at 6 63 (m\<lparr>m_mark0 := 5\<rparr>, w, pr)) =
      mgmt_exec (2 + f) buf (at (6 + length tail) 63 (m\<lparr>m_mark0 := 5\<rparr>, w, pr))"
    by (rule exec_path [OF mgmt_row_simps(7) _ _ assms(2), of 6 buf "eol @ rest"]) (use assms(1) e in \<open>auto simp: path_char_def\<close>)
  moreover have "buf = (''size /'' @ tail) @ eol @ rest" "length (''size /'' @ tail) = 6 + length tail"
    using assms(1) by simp_all
  then have "drop (6 + length tail) buf = eol @ rest"
    by (metis append_eq_conv_conj)
  ultimately show ?thesis
    using exec_size_eol [of "6 + length tail" buf eol rest f "m\<lparr>m_mark0 := 5\<rparr>" w pr] assms(3) by simp
qed

lemma valid_path_iff: "mog_valid_path p \<longleftrightarrow> length p < 38 \<and> \<not> sublist ''..'' p"
  by (auto simp: mog_valid_path_def path_traversal_found_def traversal_exec_0)

lemma fn_size_marked:
  assumes "marked buf m = path"
  shows "mog_mgmt_fn_size buf (m, w, pr) =
    (if length path < 38 \<and> \<not> sublist ''..'' path
     then obind (mog_stat path w) (\<lambda>(st, w1).
            mog_mgmt_writev [path, '' '' @ (case st of Some (_, sz) \<Rightarrow> int_str sz | None \<Rightarrow> ''-1'') @ crlf] (m, w1, pr))
     else mog_mgmt_writev [''ERROR: uri invalid (contains ..)'' @ crlf] (m, w, pr))"
proof (cases "mog_valid_path path")
  case True
  then show ?thesis
    unfolding mog_mgmt_fn_size_def get_path_def
    by (cases "mog_stat path w") (auto simp: assms valid_path_iff simp del: obind_Ret split: option.splits)
next
  case False
  then show ?thesis
    unfolding mog_mgmt_fn_size_def get_path_def
    by (cases "mog_mgmt_writev [''ERROR: uri invalid (contains ..)'' @ crlf] (m, w, pr)")
      (auto simp: assms valid_path_iff simp del: obind_Ret)
qed

section \<open>Properties\<close>

text \<open>
  C16: The side channel answers \<^verbatim>\<open>size PATH\<close> with the path and the size of the file, or with -1 if there is none, and refuses
  paths with two consecutive dots and over-long ones. This holds for every path of the characters the protocol allows, with either
  line ending and whatever follows on the connection; exactly the line is consumed.
\<close>

theorem mgmt_size_reply:
  assumes "m_cs m = 1" "m_offset m = 0" "m_wbuf m = WNull"
    and "path = CHR ''/'' # tail" "\<forall>c\<in>set tail. path_char c" "eol = [CHR 0x0A] \<or> eol = crlf"
  defines "m1 \<equiv> m\<lparr>m_mark0 := 5, m_mark1 := 5 + length path\<rparr>"
  shows "mog_mgmt_parse (''size '' @ path @ eol @ rest) (m, w, pr) =
    obind (if length path < 38 \<and> \<not> sublist ''..'' path
           then obind (mog_stat path w) (\<lambda>(st, w1).
                  mog_mgmt_writev [path, '' '' @ (case st of Some (_, sz) \<Rightarrow> int_str sz | None \<Rightarrow> ''-1'') @ crlf] (m1, w1, pr))
           else mog_mgmt_writev [''ERROR: uri invalid (contains ..)'' @ crlf] (m1, w, pr))
      (\<lambda>(m2, w2, pr2). Ret (MOG_PARSER_DONE, m2\<lparr>m_cs := 74, m_offset := 5 + length path + length eol\<rparr>, w2, pr2))"
proof -
  define buf where "buf = ''size '' @ path @ eol @ rest"
  have b: "buf = ''size /'' @ tail @ eol @ rest" "buf \<noteq> []"
    using assms(4) by (simp_all add: buf_def)
  have "marked buf m1 = path"
    by (simp add: marked_def m1_def buf_def)
  note fn = fn_size_marked [OF this, of w pr]
  have "m\<lparr>m_mark0 := 5, m_mark1 := 6 + length tail\<rparr> = m1" "6 + length tail + length eol = 5 + length path + length eol"
    using assms(4) by (simp_all add: m1_def)
  note eqs = this
  have ex: "mgmt_exec (mgmt_fuel buf) buf (at 0 1 (m, w, pr)) =
      obind (mog_mgmt_fn_size buf (m1, w, pr)) (\<lambda>s. Ret (at (5 + length path + length eol) 74 s))"
    using mexec_size [OF b(1) assms(5,6), of m w pr] unfolding eqs .
  have len: "5 + length path + length eol \<le> length buf"
    by (simp add: buf_def)
  have "mog_mgmt_parse buf (m, w, pr) = obind (mog_mgmt_fn_size buf (m1, w, pr))
      (\<lambda>(m2, w2, pr2). Ret (MOG_PARSER_DONE, m2\<lparr>m_cs := 74, m_offset := 5 + length path + length eol\<rparr>, w2, pr2))"
    using assms(1-3) b(2) ex len unfolding mog_mgmt_parse_def
    by (cases "mog_mgmt_fn_size buf (m1, w, pr)") (auto simp: at_def Let_def simp del: obind_Ret)
  then show ?thesis
    unfolding fn unfolding buf_def .
qed

text \<open>A process with nothing going on, and a world whose next answers are given.\<close>

definition demo_mproc :: mproc where
  "demo_mproc = \<lparr>pr_fd = 4, pr_accepting = True, pr_threads = [], pr_quit = 0, pr_notify = 0, pr_subscribed = False, pr_reads = [],
     pr_fstat = [], pr_tuning = demo_tuning, pr_fsck = None, pr_prio_of = \<lambda>_. MOG_PRIO_NONE, pr_woken = []\<rparr>"

definition size_world :: "errno option list \<Rightarrow> sock \<Rightarrow> world" where
  "size_world fs tx = demo_world\<lparr>w_fs := fs, w_tx := tx\<rparr>"

theorem mgmt_size_reply_witness:
  "mog_mgmt_parse (''size /dev1/a'' @ crlf @ ''x'')
     (mog_mgmt_init, size_world [Some ENOENT] \<lparr>sk_sent = [], sk_script = [Wrote 99]\<rparr>, demo_mproc) =
   Ret (MOG_PARSER_DONE, mog_mgmt_init\<lparr>m_mark0 := 5, m_mark1 := 12, m_cs := 74, m_offset := 14\<rparr>,
     set_errno ENOENT (size_world [] \<lparr>sk_sent = ''/dev1/a -1'' @ crlf, sk_script = []\<rparr>), demo_mproc)"
proof -
  have "mog_valid_path ''/dev1/a''"
    by (simp add: mog_valid_path_def path_traversal_found_def path_traversal_step_def)
  then have "\<not> sublist ''..'' ''/dev1/a''"
    by (simp add: valid_path_iff)
  moreover have "\<forall>c\<in>set ''dev1/a''. path_char c"
    by (simp add: path_char_def sc_def)
  moreover have "mog_stat ''/dev1/a'' (size_world [Some ENOENT] \<lparr>sk_sent = [], sk_script = [Wrote 99]\<rparr>) =
      Ret (None, set_errno ENOENT (size_world [] \<lparr>sk_sent = [], sk_script = [Wrote 99]\<rparr>))"
    by (simp add: mog_stat_def fs_call_def size_world_def demo_world_def)
  moreover have "mog_mgmt_writev [''/dev1/a'', '' -1'' @ crlf]
      (mog_mgmt_init\<lparr>m_mark0 := 5, m_mark1 := 12\<rparr>, set_errno ENOENT (size_world [] \<lparr>sk_sent = [], sk_script = [Wrote 99]\<rparr>), demo_mproc) =
      Ret (mog_mgmt_init\<lparr>m_mark0 := 5, m_mark1 := 12\<rparr>, set_errno ENOENT (size_world [] \<lparr>sk_sent = ''/dev1/a -1'' @ crlf, sk_script = []\<rparr>), demo_mproc)"
    by (simp add: mog_mgmt_writev_def mog_mgmt_init_def mog_mgmt_reset_parser_def mog_trywritev_def Let_def size_world_def set_errno_def crlf_def)
  ultimately show ?thesis
    using mgmt_size_reply [of mog_mgmt_init "''/dev1/a''" "''dev1/a''" crlf "''x''"
        "size_world [Some ENOENT] \<lparr>sk_sent = [], sk_script = [Wrote 99]\<rparr>" demo_mproc]
    by (simp add: mog_mgmt_init_def mog_mgmt_reset_parser_def crlf_def del: obind_Ret)
qed

section \<open>The parser returns\<close>

text \<open>The kernel's answers suffice for one command: the socket at last reports that it is full or broken, or was before.\<close>

definition answers_ok :: "world \<Rightarrow> bool" where
  "answers_ok w \<longleftrightarrow> (\<exists>e. e \<noteq> EINTR \<and> WErr e \<in> set (sk_script (w_tx w))) \<and> 4 \<le> length (w_fs w) \<and> w_expire w \<noteq> []"

lemma trywritev_Ret:
  assumes "\<exists>e. e \<noteq> EINTR \<and> WErr e \<in> set (sk_script sk)"
  shows "\<exists>r sk'. mog_trywritev iov sk = Ret (r, sk')"
proof (cases "concat iov = []")
  case True
  then show ?thesis by (simp add: mog_trywritev_def)
next
  case False
  then have "mog_trywritev iov sk = trywritev_loop (sk_script sk) (sk_sent sk) (length (concat iov)) iov"
    unfolding mog_trywritev_def Let_def length_concat [symmetric] by auto
  then show ?thesis
    using trywritev_loop_returns assms by metis
qed

lemma writev_Ret:
  "m_wbuf m = WNull \<Longrightarrow> \<exists>e. e \<noteq> EINTR \<and> WErr e \<in> set (sk_script (w_tx w)) \<Longrightarrow> \<exists>s. mog_mgmt_writev iov (m, w, pr) = Ret s"
  using trywritev_Ret [of "w_tx w" iov] by (auto simp: mog_mgmt_writev_def)

lemma fs_call_Ret:
  assumes "n < length (w_fs w)" "\<And>w. w_tx (snd (f w)) = w_tx w \<and> w_fs (snd (f w)) = w_fs w \<and> w_expire (snd (f w)) = w_expire w"
  shows "\<exists>r w'. fs_call f x w = Ret (r, w') \<and> w_tx w' = w_tx w \<and> n \<le> length (w_fs w') \<and> w_expire w' = w_expire w"
proof (cases "w_fs w")
  case (Cons a as)
  show ?thesis
  proof (cases a)
    case None
    obtain r w' where f: "f (w\<lparr>w_fs := as\<rparr>) = (r, w')"
      by fastforce
    then have "fs_call f x w = Ret (r, w')" "w_tx w' = w_tx w" "w_fs w' = as" "w_expire w' = w_expire w"
      using assms(2) [of "w\<lparr>w_fs := as\<rparr>"] Cons None by (simp_all add: fs_call_def)
    then show ?thesis
      using assms(1) Cons by auto
  next
    case (Some e)
    then show ?thesis
      using assms(1) Cons by (simp add: fs_call_def set_errno_def)
  qed
qed (use assms in simp)

lemma open_read_Ret:
  "Suc n \<le> length (w_fs w) \<Longrightarrow>
   \<exists>r w'. open_read p w = Ret (r, w') \<and> w_tx w' = w_tx w \<and> n \<le> length (w_fs w') \<and> w_expire w' = w_expire w"
  unfolding open_read_def
  by (rule fs_call_Ret) (auto simp: sys_open_read_def set_errno_def split: sum.splits)

lemma mog_open_read_Ret:
  assumes "Suc (Suc n) \<le> length (w_fs w)"
  shows "\<exists>r w'. mog_open_read p w = Ret (r, w') \<and> w_tx w' = w_tx w \<and> n \<le> length (w_fs w') \<and> w_expire w' = w_expire w"
proof -
  obtain r w1 where 1: "open_read p w = Ret (r, w1)" "w_tx w1 = w_tx w" "Suc n \<le> length (w_fs w1)" "w_expire w1 = w_expire w"
    using open_read_Ret [OF assms] by blast
  obtain r2 w2 where "open_read p (w1\<lparr>w_noatime := False\<rparr>) = Ret (r2, w2)" "w_tx w2 = w_tx w" "n \<le> length (w_fs w2)" "w_expire w2 = w_expire w"
    using open_read_Ret [of n "w1\<lparr>w_noatime := False\<rparr>" p] 1 by auto
  then show ?thesis
    using 1 by (auto simp: mog_open_read_def)
qed

lemma mog_file_open_read_Ret:
  assumes "4 \<le> length (w_fs w)" "w_expire w \<noteq> []"
  shows "\<exists>f w'. mog_file_open_read p w = Ret (f, w') \<and> w_tx w' = w_tx w"
proof -
  obtain r w1 where 1: "mog_open_read p w = Ret (r, w1)" "w_tx w1 = w_tx w" "2 \<le> length (w_fs w1)" "w_expire w1 = w_expire w"
    using mog_open_read_Ret [of 2 w p] assms(1) by auto
  obtain n ns where "w_expire w1 = n # ns"
    using assms(2) 1(4) by (metis neq_Nil_conv)
  then have "\<exists>again w2. mog_open_expire_retry w1 = Ret (again, w2) \<and> w_tx w2 = w_tx w \<and> w_fs w2 = w_fs w1"
    using 1(2) by (auto simp: mog_open_expire_retry_def)
  then obtain again w2 where 2: "mog_open_expire_retry w1 = Ret (again, w2)" "w_tx w2 = w_tx w" "w_fs w2 = w_fs w1"
    by blast
  obtain r3 w3 where "mog_open_read p w2 = Ret (r3, w3)" "w_tx w3 = w_tx w"
    using mog_open_read_Ret [of 0 w2 p] 1 2 by auto
  then show ?thesis
    using 1 2 by (auto simp: mog_file_open_read_def)
qed

lemma get_path_Ret:
  assumes "m_wbuf m = WNull" "answers_ok w"
  shows "(\<exists>p. get_path buf (m, w, pr) = Ret (Some p, m, w, pr)) \<or> (\<exists>s. get_path buf (m, w, pr) = Ret (None, s))"
  using assms writev_Ret [of m w "[''ERROR: uri invalid (contains ..)'' @ crlf]" pr] by (auto simp: get_path_def answers_ok_def)

lemma fn_size_Ret:
  assumes "m_wbuf m = WNull" "answers_ok w"
  shows "\<exists>s. mog_mgmt_fn_size buf (m, w, pr) = Ret s"
proof -
  have w: "\<exists>e. e \<noteq> EINTR \<and> WErr e \<in> set (sk_script (w_tx w))" "0 < length (w_fs w)"
    using assms(2) by (auto simp: answers_ok_def)
  have "\<exists>r w'. mog_stat p w = Ret (r, w') \<and> w_tx w' = w_tx w \<and> 0 \<le> length (w_fs w') \<and> w_expire w' = w_expire w" for p
    unfolding mog_stat_def by (rule fs_call_Ret [OF w(2)]) (auto simp: sys_stat_def set_errno_def split: sum.splits)
  note st = this
  show ?thesis
    using get_path_Ret [OF assms, of buf pr]
  proof (elim disjE exE)
    fix p
    assume p: "get_path buf (m, w, pr) = Ret (Some p, m, w, pr)"
    obtain r w1 where r: "mog_stat p w = Ret (r, w1)" "w_tx w1 = w_tx w"
      using st by blast
    then show ?thesis
      using p writev_Ret [OF assms(1), of w1] w(1) by (cases r) (auto simp: mog_mgmt_fn_size_def)
  next
    fix s
    assume "get_path buf (m, w, pr) = Ret (None, s)"
    then show ?thesis
      by (cases s) (simp add: mog_mgmt_fn_size_def)
  qed
qed

lemma fn_digest_Ret:
  assumes "m_wbuf m = WNull" "answers_ok w"
  shows "\<exists>s. mog_mgmt_fn_digest buf (m, w, pr) = Ret s"
proof -
  have w: "\<exists>e. e \<noteq> EINTR \<and> WErr e \<in> set (sk_script (w_tx w))" "4 \<le> length (w_fs w)" "w_expire w \<noteq> []"
    using assms(2) by (auto simp: answers_ok_def)
  show ?thesis
    using get_path_Ret [OF assms, of buf pr]
  proof (elim disjE exE)
    fix p
    assume p: "get_path buf (m, w, pr) = Ret (Some p, m, w, pr)"
    obtain f w1 where f: "mog_file_open_read p w = Ret (f, w1)" "w_tx w1 = w_tx w"
      using mog_file_open_read_Ret [OF w(2,3)] by blast
    then show ?thesis
      using p writev_Ret [OF assms(1), of w1] w(1) by (cases f) (auto simp: mog_mgmt_fn_digest_def)
  next
    fix s
    assume "get_path buf (m, w, pr) = Ret (None, s)"
    then show ?thesis
      by (cases s) (simp add: mog_mgmt_fn_digest_def)
  qed
qed

text \<open>
  The shape of the automaton. The states of \<^verbatim>\<open>invalid_line\<close> are entered by going back to the start of the line and
  are left only at its end. State 37, behind the carriage return of \<^verbatim>\<open>aio_threads\<close>, is entered at a carriage return that is marked.
\<close>

definition in_invalid :: "nat \<Rightarrow> bool" where
  "in_invalid n \<longleftrightarrow> n \<in> {71, 72, 73, 75, 76}"

definition is_command :: "mgmt_act \<Rightarrow> bool" where
  "is_command a \<longleftrightarrow> a \<in> {MA_blank, MA_digest, MA_aio_threads, MA_shutdown, MA_size, MA_watch}"

definition mtr_ok :: "nat \<Rightarrow> int \<Rightarrow> int \<Rightarrow> mgmt_act list \<Rightarrow> nat \<Rightarrow> bool" where
  "mtr_ok n a b as m \<longleftrightarrow>
     (in_invalid n \<longrightarrow> MA_restart \<notin> set as \<and> (in_invalid m \<or> m = 0)) \<and>
     list_all (\<lambda>a. is_command a \<longrightarrow> m = 74) as \<and>
     (m = 37 \<longrightarrow> as = [MA_mark1] \<and> a = 13 \<and> b = 13) \<and>
     (MA_aio_threads \<in> set as \<longrightarrow> as = [MA_mark1, MA_aio_threads] \<and> a = 10 \<and> b = 10 \<or> as = [MA_aio_threads] \<and> n = 37)"

definition mlab_ok :: "nat \<Rightarrow> int \<Rightarrow> int \<Rightarrow> mgmt_lab \<Rightarrow> bool" where
  "mlab_ok n a b l =
     (case l of
        MSt m \<Rightarrow> mtr_ok n a b [] m
      | MTr k \<Rightarrow> (case map_of mgmt_trs k of None \<Rightarrow> False | Some (as, m) \<Rightarrow> mtr_ok n a b as m))"

text \<open>The default of a row is tested as if it stood for no character.\<close>

definition mrow_ok :: "mgmt_row \<Rightarrow> bool" where
  "mrow_ok = (\<lambda>(n, rs, d). mlab_ok n 1 0 d \<and> list_all (\<lambda>(a, b, l). mlab_ok n a b l) rs)"

lemma mgmt_rows_ok: "list_all mrow_ok mgmt_rows"
  by code_simp

lemma mrow_lookup_ok:
  "list_all (\<lambda>(a, b, l). mlab_ok n a b l) rs \<Longrightarrow> mlab_ok n 1 0 d \<Longrightarrow>
   \<exists>a b. mlab_ok n a b (mrow_lookup rs d c) \<and> (a \<le> c \<and> c \<le> b \<or> a = 1 \<and> b = 0)"
proof (induction rs)
  case (Cons r rs)
  obtain a b l where r: "r = (a, b, l)"
    by (cases r)
  show ?case
  proof (cases "a \<le> c \<and> c \<le> b")
    case True
    then have "mlab_ok n a b (mrow_lookup (r # rs) d c)"
      using Cons.prems(1) r by simp
    then show ?thesis
      using True by blast
  next
    case False
    then have "mrow_lookup (r # rs) d c = mrow_lookup rs d c"
      using r by auto
    then show ?thesis
      using Cons r by simp
  qed
qed auto

text \<open>Where a run is: inside the buffer, with nothing to write, and in state 37 behind a marked carriage return.\<close>

definition mst_ok :: "bytes \<Rightarrow> nat \<Rightarrow> mog_mgmt \<Rightarrow> bool" where
  "mst_ok buf cs m \<longleftrightarrow> m_wbuf m = WNull \<and> (cs = 37 \<longrightarrow> m_mark1 m < length buf \<and> buf ! m_mark1 m = CHR 0x0D)"

definition run_ok :: "bytes \<Rightarrow> mgmt_vars \<Rightarrow> bool" where
  "run_ok buf v \<longleftrightarrow> 0 \<le> mp_p v \<and> mp_p v < int (length buf) \<and>
     (case mp_s v of (m, w, pr) \<Rightarrow> mst_ok buf (mp_cs v) m \<and> answers_ok w)"

text \<open>What a list of actions leaves, for a transition from \<open>v\<close> towards \<open>n\<close>.\<close>

definition ctl_fine :: "bytes \<Rightarrow> mgmt_vars \<Rightarrow> nat \<Rightarrow> mgmt_ctl \<Rightarrow> bool" where
  "ctl_fine buf v n k \<longleftrightarrow>
     (case k of
        MOut v1 \<Rightarrow> mp_p v1 \<le> int (length buf) \<and> (mp_done v1 \<or> mp_cs v1 \<in> {0, 74})
      | MGoto n1 v1 \<Rightarrow>
          (case mp_s v1 of (m, w, pr) \<Rightarrow> mst_ok buf n1 m \<and> answers_ok w) \<and>
          n1 \<noteq> 0 \<and> (n1 = n \<and> mp_p v1 = mp_p v \<or> in_invalid n1 \<and> mp_p v1 = -1 \<and> \<not> in_invalid (mp_cs v)))"

lemma command_fine:
  assumes "\<exists>s. f (mp_s v) = Ret s" "mp_p v < int (length buf)" "n = 74 \<or> mp_done v"
  shows "\<exists>k. command n f v = Ret (MJump k) \<and> ctl_fine buf u m k"
  using assms by (auto simp: command_def mbreak_def ctl_fine_def)

text \<open>Actions before the last one only set fields that no test depends on.\<close>

lemma do_mact_fine:
  assumes "0 \<le> mp_p v" "mp_p v < int (length buf)" "mp_s v = (m, w, pr)" "m_wbuf m = WNull" "answers_ok w"
    and "a = MA_restart \<longrightarrow> \<not> in_invalid (mp_cs v)" "is_command a \<longrightarrow> n = 74"
    and "a = MA_aio_threads \<longrightarrow> m_mark1 m < length buf \<and> buf ! m_mark1 m \<in> {CHR 0x0A, CHR 0x0D}"
  shows "(\<exists>k. do_mact a buf n v = Ret (MJump k) \<and> ctl_fine buf v n k) \<or>
    (\<exists>m'. do_mact a buf n v = Ret (MNext (v\<lparr>mp_s := (m', w, pr)\<rparr>)) \<and> m_wbuf m' = WNull \<and> (a = MA_mark1 \<longrightarrow> m_mark1 m' = nat (mp_p v)))"
proof -
  have w: "\<exists>s. mog_mgmt_writev iov (m, w, pr') = Ret s" for iov pr'
    using writev_Ret [OF assms(4)] assms(5) by (simp add: answers_ok_def)
  have c: "\<exists>k. command n f v = Ret (MJump k) \<and> ctl_fine buf v n k" if "is_command a" "\<exists>s. f (mp_s v) = Ret s" for f
    using that assms(7) by (intro command_fine [OF _ assms(2)]) auto
  show ?thesis
  proof (cases a)
    case MA_restart
    then show ?thesis
      using assms by (simp add: ctl_fine_def in_invalid_def mst_ok_def)
  next
    case MA_blank
    then show ?thesis using c [of mog_mgmt_fn_blank] w assms(3) by (simp add: is_command_def mog_mgmt_fn_blank_def)
  next
    case MA_digest
    then show ?thesis using c [of "mog_mgmt_fn_digest buf"] fn_digest_Ret [OF assms(4,5)] assms(3) by (simp add: is_command_def)
  next
    case MA_size
    then show ?thesis using c [of "mog_mgmt_fn_size buf"] fn_size_Ret [OF assms(4,5)] assms(3) by (simp add: is_command_def)
  next
    case MA_aio_threads
    then show ?thesis
      using c [of "mog_mgmt_fn_aio_threads buf"] w assms(3,8) by (simp add: is_command_def mog_mgmt_fn_aio_threads_def Let_def)
  next
    case MA_shutdown
    then show ?thesis
      using c [of "\<lambda>(m, w, pr). Ret (m, w, pr\<lparr>pr_quit := pr_quit pr + 1\<rparr>)"] assms(3) by (simp add: is_command_def)
  next
    case MA_watch
    then show ?thesis
      using c [of "\<lambda>(m, w, pr). if have_iostat \<noteq> 0 then Ret (m\<lparr>m_forward := FwdIostat\<rparr>, w, pr) else mog_mgmt_fn_watch_err (m, w, pr)"] assms(3)
      by (simp add: is_command_def have_iostat_def)
  next
    case MA_unknown
    have "\<exists>k. command n (mog_mgmt_fn_unknown buf) (v\<lparr>mp_done := True\<rparr>) = Ret (MJump k) \<and> ctl_fine buf v n k"
      by (rule command_fine) (use w assms(2,3) in \<open>simp_all add: mog_mgmt_fn_unknown_def\<close>)
    then show ?thesis using MA_unknown by simp
  next
    case MA_mark0
    then show ?thesis
      using assms by (intro disjI2 exI [of _ "m\<lparr>m_mark0 := nat (mp_p v)\<rparr>"]) (simp add: upd_mgmt_def)
  next
    case MA_mark1
    then show ?thesis
      using assms by (intro disjI2 exI [of _ "m\<lparr>m_mark1 := nat (mp_p v)\<rparr>"]) (simp add: upd_mgmt_def)
  next
    case (MA_alg x)
    then show ?thesis
      using assms by (intro disjI2 exI [of _ "m\<lparr>m_alg := x\<rparr>"]) (simp add: upd_mgmt_def)
  next
    case MA_prio_fsck
    then show ?thesis
      using assms by (intro disjI2 exI [of _ "fst (set_prio_fsck (m, w, pr))"]) (simp add: set_prio_fsck_def)
  qed
qed

lemma ctl_fine_upd [simp]: "ctl_fine buf (v\<lparr>mp_s := s\<rparr>) n k = ctl_fine buf v n k"
  by (cases k) (simp_all add: ctl_fine_def)

lemma run_plain:
  assumes "0 \<le> mp_p v" "mp_p v < int (length buf)" "mp_s v = (m, w, pr)" "m_wbuf m = WNull" "answers_ok w"
    and "n \<noteq> 37" "MA_aio_threads \<notin> set as" "in_invalid (mp_cs v) \<longrightarrow> MA_restart \<notin> set as"
    and "list_all (\<lambda>a. is_command a \<longrightarrow> n = 74) as"
  shows "\<exists>k. run_macts as buf n v = Ret k \<and> ctl_fine buf v n k"
  using assms
proof (induction as arbitrary: v m)
  case Nil
  then show ?case
    by (auto simp: mgoto_st_def ctl_fine_def mst_ok_def)
next
  case (Cons a as)
  have "(\<exists>k. do_mact a buf n v = Ret (MJump k) \<and> ctl_fine buf v n k) \<or>
    (\<exists>m'. do_mact a buf n v = Ret (MNext (v\<lparr>mp_s := (m', w, pr)\<rparr>)) \<and> m_wbuf m' = WNull \<and> (a = MA_mark1 \<longrightarrow> m_mark1 m' = nat (mp_p v)))"
    by (rule do_mact_fine) (use Cons.prems in auto)
  then show ?case
  proof (elim disjE exE conjE)
    fix m'
    assume n: "do_mact a buf n v = Ret (MNext (v\<lparr>mp_s := (m', w, pr)\<rparr>))" "m_wbuf m' = WNull"
    have "\<exists>k. run_macts as buf n (v\<lparr>mp_s := (m', w, pr)\<rparr>) = Ret k \<and> ctl_fine buf (v\<lparr>mp_s := (m', w, pr)\<rparr>) n k"
      by (rule Cons.IH [where m = m']) (use Cons.prems n(2) in auto)
    then show ?thesis
      using n(1) by simp
  qed auto
qed

lemma run_aio:
  assumes "0 \<le> mp_p v" "mp_p v < int (length buf)" "mp_s v = (m, w, pr)" "m_wbuf m = WNull" "answers_ok w"
    and "m_mark1 m < length buf" "buf ! m_mark1 m \<in> {CHR 0x0A, CHR 0x0D}"
  shows "\<exists>k. run_macts [MA_aio_threads] buf 74 v = Ret k \<and> ctl_fine buf v 74 k"
proof -
  have "\<exists>s. mog_mgmt_writev iov (m, w, pr') = Ret s" for iov pr'
    using writev_Ret [OF assms(4)] assms(5) by (simp add: answers_ok_def)
  then have "\<exists>s. mog_mgmt_fn_aio_threads buf (mp_s v) = Ret s"
    using assms(3,6,7) by (simp add: mog_mgmt_fn_aio_threads_def Let_def)
  then have "\<exists>k. command 74 (mog_mgmt_fn_aio_threads buf) v = Ret (MJump k) \<and> ctl_fine buf v 74 k"
    using assms(2) by (intro command_fine) auto
  then show ?thesis
    by auto
qed

lemma run_macts_fine:
  assumes "run_ok buf v" "mtr_ok (mp_cs v) a b as n" "a \<le> c \<and> c \<le> b \<or> a = 1 \<and> b = 0" "c = sc (buf ! nat (mp_p v))"
  shows "\<exists>k. run_macts as buf n v = Ret k \<and> ctl_fine buf v n k"
proof -
  obtain m w pr where s: "mp_s v = (m, w, pr)"
    by (cases "mp_s v")
  have v: "0 \<le> mp_p v" "mp_p v < int (length buf)" "mst_ok buf (mp_cs v) m" "m_wbuf m = WNull" "answers_ok w"
    using assms(1) s by (auto simp: run_ok_def mst_ok_def)
  have ch: "buf ! nat (mp_p v) = x" if "a = sc x" "b = sc x" "2 \<le> sc x" for x
    using that assms(3,4) sc_eq [of "buf ! nat (mp_p v)" x] by auto
  define v' where "v' = v\<lparr>mp_s := (m\<lparr>m_mark1 := nat (mp_p v)\<rparr>, w, pr)\<rparr>"
  have mk: "run_macts (MA_mark1 # as') buf n v = run_macts as' buf n v'" for as'
    by (simp add: upd_mgmt_def s v'_def)
  consider "n = 37" | "n \<noteq> 37" "as = [MA_mark1, MA_aio_threads]" | "n \<noteq> 37" "as = [MA_aio_threads]" "mp_cs v = 37"
    | "n \<noteq> 37" "MA_aio_threads \<notin> set as"
    using assms(2) unfolding mtr_ok_def by blast
  then show ?thesis
  proof cases
    case 1
    then have "as = [MA_mark1]" "buf ! nat (mp_p v) = CHR 0x0D"
      using assms(2) ch [of "CHR 0x0D"] by (simp_all add: mtr_ok_def sc_def is_command_def)
    then show ?thesis
      using 1 v mk [of "[]"] by (auto simp: v'_def mgoto_st_def ctl_fine_def mst_ok_def nat_less_iff)
  next
    case 2
    then have "buf ! nat (mp_p v) = CHR 0x0A" "n = 74"
      using assms(2) ch [of "CHR 0x0A"] by (simp_all add: mtr_ok_def sc_def is_command_def)
    then show ?thesis
      using 2(2) mk run_aio [of v' buf "m\<lparr>m_mark1 := nat (mp_p v)\<rparr>" w pr] v by (simp add: v'_def nat_less_iff)
  next
    case 3
    then show ?thesis
      using assms(2) run_aio [OF v(1,2) s v(4,5)] v(3) by (simp add: mtr_ok_def mst_ok_def is_command_def)
  next
    case 4
    then show ?thesis
      using assms(2) by (intro run_plain [OF v(1,2) s v(4,5)]) (auto simp: mtr_ok_def)
  qed
qed

text \<open>A step returns. It stays among the states of \<^verbatim>\<open>invalid_line\<close>, goes on, or goes back to the start of the line.\<close>

definition step_fine :: "bytes \<Rightarrow> mgmt_vars \<Rightarrow> mgmt_ctl \<Rightarrow> bool" where
  "step_fine buf v k \<longleftrightarrow>
     (case k of
        MOut v1 \<Rightarrow> v1 = v \<or> mp_p v1 \<le> int (length buf) \<and> (mp_done v1 \<or> mp_cs v1 \<in> {0, 74})
      | MGoto n1 v1 \<Rightarrow>
          (case mp_s v1 of (m, w, pr) \<Rightarrow> mst_ok buf n1 m \<and> answers_ok w) \<and>
          (mp_p v1 = mp_p v \<and> (in_invalid (mp_cs v) \<longrightarrow> in_invalid n1) \<or>
           in_invalid n1 \<and> mp_p v1 = -1 \<and> \<not> in_invalid (mp_cs v)))"

lemma trans_fine:
  assumes "run_ok buf v"
  shows "\<exists>k. mgmt_trans buf v = Ret k \<and> step_fine buf v k"
proof (cases "map_of mgmt_rows (mp_cs v)")
  case None
  then show ?thesis
    by (simp add: mgmt_trans_def step_fine_def)
next
  case (Some row)
  obtain rs d where row: "row = (rs, d)"
    by (cases row)
  define c where "c = sc (buf ! nat (mp_p v))"
  have "(mp_cs v, rs, d) \<in> set mgmt_rows"
    using Some row by (auto dest: map_of_SomeD)
  then have "mrow_ok (mp_cs v, rs, d)"
    using mgmt_rows_ok by (simp add: list_all_iff)
  then obtain a b where l: "mlab_ok (mp_cs v) a b (mrow_lookup rs d c)" "a \<le> c \<and> c \<le> b \<or> a = 1 \<and> b = 0"
    using mrow_lookup_ok [of "mp_cs v" rs d c] by (auto simp: mrow_ok_def)
  obtain as n where an: "mgoto_lab (mrow_lookup rs d c) buf v = run_macts as buf n v" "mtr_ok (mp_cs v) a b as n"
  proof (cases "mrow_lookup rs d c")
    case (MSt n)
    then show ?thesis
      using l(1) that [of "[]" n] by (simp add: mgoto_lab_def mlab_ok_def)
  next
    case (MTr k)
    then show ?thesis
      using l(1) that by (auto simp: mgoto_lab_def mlab_ok_def split: option.splits)
  qed
  obtain k where k: "run_macts as buf n v = Ret k" "ctl_fine buf v n k"
    using run_macts_fine [OF assms an(2) l(2)] c_def by auto
  have "mgmt_trans buf v = Ret k"
    using Some row an(1) k(1) by (simp add: mgmt_trans_def c_def)
  moreover have "step_fine buf v k"
    using k an(2) by (cases k) (auto simp: step_fine_def ctl_fine_def mtr_ok_def)
  ultimately show ?thesis by blast
qed

text \<open>What a run leaves.\<close>

definition left_fine :: "bytes \<Rightarrow> mgmt_vars \<Rightarrow> bool" where
  "left_fine buf v \<longleftrightarrow> mp_p v \<le> int (length buf) \<and>
     (mp_done v \<or> mp_cs v \<in> {0, 74} \<or> (case mp_s v of (m, w, pr) \<Rightarrow> mst_ok buf (mp_cs v) m \<and> answers_ok w))"

lemma exec_fine:
  assumes "run_ok buf v"
    and "(if in_invalid (mp_cs v) then 0 else length buf) + length buf < nat (mp_p v) + fuel"
  shows "\<exists>v'. mgmt_exec fuel buf v = Ret v' \<and> left_fine buf v'"
  using assms
proof (induction fuel arbitrary: v)
  case 0
  then show ?case by (simp add: run_ok_def nat_less_iff split: if_splits)
next
  case (Suc fuel)
  have p: "0 \<le> mp_p v" "mp_p v < int (length buf)"
    using Suc.prems(1) by (simp_all add: run_ok_def)
  obtain k where k: "mgmt_trans buf v = Ret k" "step_fine buf v k"
    using trans_fine [OF Suc.prems(1)] by blast
  show ?case
  proof (cases k)
    case (MOut v1)
    then show ?thesis
      using k p Suc.prems(1) by (auto simp: exec_Suc step_fine_def left_fine_def run_ok_def)
  next
    case (MGoto n v1)
    define v2 where "v2 = v1\<lparr>mp_p := mp_p v1 + 1, mp_cs := n\<rparr>"
    have s: "case mp_s v2 of (m, w, pr) \<Rightarrow> mst_ok buf (mp_cs v2) m \<and> answers_ok w"
      using k(2) MGoto by (simp add: step_fine_def v2_def)
    have q: "mp_p v2 = mp_p v + 1 \<and> (in_invalid (mp_cs v) \<longrightarrow> in_invalid (mp_cs v2)) \<or>
        mp_p v2 = 0 \<and> in_invalid (mp_cs v2) \<and> \<not> in_invalid (mp_cs v)"
      using k(2) MGoto by (auto simp: step_fine_def v2_def)
    have e: "mgmt_exec (Suc fuel) buf v = (if mp_p v2 = int (length buf) then Ret v2 else mgmt_exec fuel buf v2)"
      using k(1) MGoto by (simp add: exec_Suc v2_def)
    show ?thesis
    proof (cases "mp_p v2 = int (length buf)")
      case True
      then show ?thesis
        using e s by (simp add: left_fine_def)
    next
      case False
      have "run_ok buf v2"
        using q p s False by (auto simp: run_ok_def)
      moreover have "(if in_invalid (mp_cs v2) then 0 else length buf) + length buf < nat (mp_p v2) + fuel"
        using q p Suc.prems(2) by (auto simp: nat_add_distrib split: if_splits)
      ultimately show ?thesis
        using Suc.IH e False by simp
    qed
  qed
qed



section \<open>A failed file system check request\<close>

lemma md5_row_simps:
  "map_of mgmt_rows 4 = Some ([(68, 68, MSt 5)], MTr 0)"
  "map_of mgmt_rows 5 = Some ([(53, 53, MTr 9)], MTr 0)"
  "map_of mgmt_rows 6 = Some ([(32, 32, MSt 7)], MTr 0)"
  "map_of mgmt_rows 7 = Some ([(47, 47, MTr 11)], MTr 0)"
  "map_of mgmt_rows 8 = Some ([(10, 10, MTr 12), (13, 13, MTr 13), (32, 32, MTr 14), (45, 57, MSt 8), (65, 90, MSt 8), (97, 122, MSt 8)], MTr 0)"
  "map_of mgmt_rows 10 = Some ([(48, 57, MSt 11), (65, 90, MSt 11), (95, 95, MSt 11), (97, 101, MSt 11), (102, 102, MSt 12), (103, 122, MSt 11)], MTr 0)"
  "map_of mgmt_rows 12 = Some ([(10, 10, MTr 16), (13, 13, MSt 9), (48, 57, MSt 11), (65, 90, MSt 11), (95, 95, MSt 11), (97, 114, MSt 11), (115, 115, MSt 13), (116, 122, MSt 11)], MTr 0)"
  "map_of mgmt_rows 13 = Some ([(10, 10, MTr 16), (13, 13, MSt 9), (48, 57, MSt 11), (65, 90, MSt 11), (95, 95, MSt 11), (97, 98, MSt 11), (99, 99, MSt 14), (100, 122, MSt 11)], MTr 0)"
  "map_of mgmt_rows 14 = Some ([(10, 10, MTr 16), (13, 13, MSt 9), (48, 57, MSt 11), (65, 90, MSt 11), (95, 95, MSt 11), (97, 106, MSt 11), (107, 107, MTr 22), (108, 122, MSt 11)], MTr 0)"
  "map_of mgmt_rows 11 = Some ([(10, 10, MTr 16), (13, 13, MSt 9), (48, 57, MSt 11), (65, 90, MSt 11), (95, 95, MSt 11), (97, 122, MSt 11)], MTr 0)"
  "map_of mgmt_rows 9 = Some ([(10, 10, MTr 16)], MTr 0)"
  by (simp_all add: mgmt_rows_defs)

lemma md5_tr_simps:
  "map_of mgmt_trs 9 = Some ([MA_alg GC_MD5], 6)"
  "map_of mgmt_trs 11 = Some ([MA_mark0], 8)"
  "map_of mgmt_trs 14 = Some ([MA_mark1], 10)"
  "map_of mgmt_trs 22 = Some ([MA_prio_fsck], 11)"
  "map_of mgmt_trs 16 = Some ([MA_digest], 74)"
  by (simp_all add: mgmt_trs_defs)

lemma exec_tr:
  assumes "map_of mgmt_rows cs = Some (rs, d)" "mrow_lookup rs d (sc (buf ! p)) = MTr j" "map_of mgmt_trs j = Some ([a], n)" "n \<noteq> 0"
    and "do_mact a buf n (at p cs s) = Ret (MNext (at p cs s'))" "k = Suc g" "q = Suc p" "q < length buf"
  shows "mgmt_exec k buf (at p cs s) = mgmt_exec g buf (at q n s')"
proof -
  have "mgmt_trans buf (at p cs s) = Ret (MGoto n (at p cs s'))"
    unfolding trans_at [OF assms(1)] using assms(2-5) by (simp add: mgoto_lab_def mgoto_st_def)
  then show ?thesis
    unfolding assms(6,7) by (rule mexec_goto) (use assms(7,8) in simp)
qed

lemma exec_md5_head:
  assumes "buf = ''MD5 /'' @ rest" "rest \<noteq> []"
  shows "mgmt_exec (5 + f) buf (at 0 1 (m, w, pr)) = mgmt_exec f buf (at 5 8 (m\<lparr>m_alg := GC_MD5, m_mark0 := 4\<rparr>, w, pr))"
proof -
  let ?s = "(m, w, pr)" and ?s1 = "(m\<lparr>m_alg := GC_MD5\<rparr>, w, pr)"
  have b: "buf ! 0 = CHR ''M''" "buf ! 1 = CHR ''D''" "buf ! 2 = CHR ''5''" "buf ! 3 = CHR '' ''" "buf ! 4 = CHR ''/''" "5 < length buf"
    using assms by (auto simp: nth_append)
  have "mgmt_exec (5 + f) buf (at 0 1 ?s) = mgmt_exec (4 + f) buf (at 1 4 ?s)"
    by (rule exec_st [OF mgmt_row_simps(1)]) (use b in \<open>simp_all add: sc_def\<close>)
  also have "\<dots> = mgmt_exec (3 + f) buf (at 2 5 ?s)"
    by (rule exec_st [OF md5_row_simps(1)]) (use b in \<open>simp_all add: sc_def\<close>)
  also have "\<dots> = mgmt_exec (2 + f) buf (at 3 6 ?s1)"
    by (rule exec_tr [OF md5_row_simps(2) _ md5_tr_simps(1)]) (use b in \<open>simp_all add: sc_def upd_mgmt_def at_def\<close>)
  also have "\<dots> = mgmt_exec (1 + f) buf (at 4 7 ?s1)"
    by (rule exec_st [OF md5_row_simps(3)]) (use b in \<open>simp_all add: sc_def\<close>)
  also have "\<dots> = mgmt_exec f buf (at 5 8 (m\<lparr>m_alg := GC_MD5, m_mark0 := 4\<rparr>, w, pr))"
    by (rule exec_tr [OF md5_row_simps(4) _ md5_tr_simps(2)]) (use b in \<open>simp_all add: sc_def upd_mgmt_def at_def\<close>)
  finally show ?thesis .
qed

text \<open>The reason and the end of the line, at position \<open>p\<close>.\<close>

lemma exec_fsck_tail:
  assumes "buf = pre @ '' fsck'' @ crlf" "p = length pre"
  shows "mgmt_exec (7 + f) buf (at p 8 (m, w, pr)) =
    obind (mog_mgmt_fn_digest buf (set_prio_fsck (m\<lparr>m_mark1 := p\<rparr>, w, pr))) (\<lambda>s. Ret (at (7 + p) 74 s))"
proof -
  let ?s = "(m\<lparr>m_mark1 := p\<rparr>, w, pr)"
  have b: "buf ! p = CHR '' ''" "buf ! (1 + p) = CHR ''f''" "buf ! (2 + p) = CHR ''s''" "buf ! (3 + p) = CHR ''c''" "buf ! (4 + p) = CHR ''k''"
    "buf ! (5 + p) = CHR 0x0D" "buf ! (6 + p) = CHR 0x0A" "length buf = 7 + p"
    using assms by (simp_all add: nth_append crlf_def)
  have "mgmt_exec (7 + f) buf (at p 8 (m, w, pr)) = mgmt_exec (6 + f) buf (at (1 + p) 10 ?s)"
    by (rule exec_tr [OF md5_row_simps(5) _ md5_tr_simps(3)]) (use b in \<open>simp_all add: sc_def upd_mgmt_def at_def\<close>)
  also have "\<dots> = mgmt_exec (5 + f) buf (at (2 + p) 12 ?s)"
    by (rule exec_st [OF md5_row_simps(6)]) (use b in \<open>simp_all add: sc_def\<close>)
  also have "\<dots> = mgmt_exec (4 + f) buf (at (3 + p) 13 ?s)"
    by (rule exec_st [OF md5_row_simps(7)]) (use b in \<open>simp_all add: sc_def\<close>)
  also have "\<dots> = mgmt_exec (3 + f) buf (at (4 + p) 14 ?s)"
    by (rule exec_st [OF md5_row_simps(8)]) (use b in \<open>simp_all add: sc_def\<close>)
  also have "\<dots> = mgmt_exec (2 + f) buf (at (5 + p) 11 (set_prio_fsck ?s))"
    by (rule exec_tr [OF md5_row_simps(9) _ md5_tr_simps(4)]) (use b in \<open>simp_all add: sc_def at_def\<close>)
  also have "\<dots> = mgmt_exec (Suc f) buf (at (6 + p) 9 (set_prio_fsck ?s))"
    by (rule exec_st [OF md5_row_simps(10)]) (use b in \<open>simp_all add: sc_def\<close>)
  also have "\<dots> = obind (mog_mgmt_fn_digest buf (set_prio_fsck ?s)) (\<lambda>s. Ret (at (7 + p) 74 s))"
  proof -
    have "mgmt_trans buf (at (6 + p) 9 (set_prio_fsck ?s)) =
        obind (mog_mgmt_fn_digest buf (set_prio_fsck ?s)) (\<lambda>s. Ret (MOut (at (7 + p) 74 s)))"
      unfolding trans_at [OF md5_row_simps(11)]
      using b(7) by (cases "mog_mgmt_fn_digest buf (set_prio_fsck ?s)")
        (simp_all add: md5_tr_simps mgoto_lab_def at_def sc_def command_def mbreak_def)
    then show ?thesis
      by (cases "mog_mgmt_fn_digest buf (set_prio_fsck ?s)") (simp_all add: exec_Suc)
  qed
  finally show ?thesis .
qed

lemma parse_fsck:
  assumes "m_cs m = 1" "m_offset m = 0" "m_wbuf m = WNull"
    and "path = CHR ''/'' # tail" "\<forall>c\<in>set tail. path_char c" "buf = ''MD5 '' @ path @ '' fsck'' @ crlf"
  shows "mog_mgmt_parse buf (m, w, pr) =
    obind (mog_mgmt_fn_digest buf (set_prio_fsck (m\<lparr>m_alg := GC_MD5, m_mark0 := 4, m_mark1 := 4 + length path\<rparr>, w, pr)))
      (\<lambda>(m2, w2, pr2). Ret (MOG_PARSER_DONE, m2\<lparr>m_cs := 74, m_offset := length buf\<rparr>, w2, pr2))"
proof -
  let ?m = "m\<lparr>m_alg := GC_MD5, m_mark0 := 4\<rparr>"
  let ?d = "mog_mgmt_fn_digest buf (set_prio_fsck (?m\<lparr>m_mark1 := 5 + length tail\<rparr>, w, pr))"
  define f where "f = mgmt_fuel buf - (5 + (length tail + 7))"
  have b: "buf = ''MD5 /'' @ tail @ '' fsck'' @ crlf" "buf = (''MD5 /'' @ tail) @ '' fsck'' @ crlf" "length buf = 12 + length tail"
    using assms(4,6) by (simp_all add: crlf_def)
  have "mgmt_fuel buf = 5 + (length tail + (7 + f))"
    using b(3) by (simp add: f_def mgmt_fuel_def)
  moreover have "mgmt_exec (5 + (length tail + (7 + f))) buf (at 0 1 (m, w, pr)) = mgmt_exec (length tail + (7 + f)) buf (at 5 8 (?m, w, pr))"
    by (rule exec_md5_head [OF b(1)]) simp
  moreover have "mgmt_exec (length tail + (7 + f)) buf (at 5 8 (?m, w, pr)) = mgmt_exec (7 + f) buf (at (5 + length tail) 8 (?m, w, pr))"
    by (rule exec_path [OF md5_row_simps(5) _ _ assms(5), of 5 buf "'' fsck'' @ crlf"]) (use b(1) in \<open>auto simp: path_char_def\<close>)
  moreover have "mgmt_exec (7 + f) buf (at (5 + length tail) 8 (?m, w, pr)) = obind ?d (\<lambda>s. Ret (at (7 + (5 + length tail)) 74 s))"
    by (rule exec_fsck_tail [OF b(2)]) simp
  ultimately have e: "mgmt_exec (mgmt_fuel buf) buf (at 0 1 (m, w, pr)) = obind ?d (\<lambda>s. Ret (at (length buf) 74 s))"
    using b(3) by simp
  have "buf \<noteq> []"
    using b(3) by auto
  then have "mog_mgmt_parse buf (m, w, pr) =
      obind ?d (\<lambda>(m2, w2, pr2). Ret (MOG_PARSER_DONE, m2\<lparr>m_cs := 74, m_offset := length buf\<rparr>, w2, pr2))"
    using assms(1-3) e unfolding mog_mgmt_parse_def by (cases ?d) (auto simp: at_def Let_def simp del: obind_Ret)
  then show ?thesis
    using assms(4) by simp
qed

lemma quit_prio_aborts:
  assumes "m_wbuf m = WNull" "m_forward m = FwdNull" "m_rbuf m = None" "m_offset m = 0" "m_prio m = MOG_PRIO_FSCK"
    and "rheap_ok (w_heap w)" "w_rd w = RErr EAGAIN # as"
  shows "mog_mgmt_quit_step hash (n, m, w, pr) = Abort"
proof -
  obtain i hp b where "mog_rbuf_get MOG_RBUF_BASE_SIZE (w_heap w) = Ret (i, hp)" "rh_bufs hp i = Some b"
  proof (cases "rh_tls (w_heap w)")
    case None
    then show ?thesis
      using that by (simp add: mog_rbuf_get_def rbuf_replace_def mog_rbuf_new_def rbuf_alloc_def MOG_RBUF_BASE_SIZE_def)
  next
    case (Some i)
    then show ?thesis
      using that assms(6) by (auto simp: mog_rbuf_get_def rheap_ok_def)
  qed
  then have "mgmt_queue_step hash (m, w, pr) =
      Ret (MOG_NEXT_WAIT_RD, m, set_errno EAGAIN (w\<lparr>w_heap := hp, w_rd := as\<rparr>), pr)"
    using assms by (simp add: mgmt_queue_step_def sys_read_def set_errno_def MOG_RBUF_BASE_SIZE_def Let_def)
  then show ?thesis
    using assms(2,3,5) by (simp add: mog_mgmt_quit_step_def Let_def assert_then_def)
qed



end
