(* ===== verification/Spec2Isabelle.thy ===== *)
theory Spec2Isabelle
  imports Mog_Ioutil Mog_Http_Faults Mog_Quit Mog_Mgmt
begin

text \<open>
  A verification development for \<^verbatim>\<open>cmogstored\<close>, the storage daemon of a MogileFS cluster.

  \<^bold>\<open>The program.\<close> The daemon serves files below a document root over HTTP (GET, HEAD, PUT, DELETE, MKCOL) and answers
  a line protocol on a side channel (sizes, digests, device statistics, shutdown). Accept threads put new clients into one event
  queue; worker threads take clients out of it, run the step function of the client, and put the client back according to the step's
  answer. Clients live in a table indexed by descriptor. A graceful shutdown drains the clients in one thread.

  \<^bold>\<open>Conventions\<close> (\<^verbatim>\<open>Mog_Prelude\<close>). A C function is a HOL function over the state it touches. Its result is \<open>Ret x\<close>, \<open>Abort\<close> if an
  assertion or a \<^verbatim>\<open>CHECK\<close> fails or a null pointer is used, or \<open>Starved\<close> if it still waits for the kernel. System calls take their answers
  (bytes transferred, error numbers) from finite scripts, so that a theorem for all scripts holds for every behaviour of the
  kernel. Loops that only the kernel can end run over the script. Characters are compared as \<^verbatim>\<open>signed char\<close>, as the generated
  parsers do. 64-bit arithmetic wraps where the source can wrap.

  \<^bold>\<open>Output.\<close> \<^verbatim>\<open>Mog_Trywrite\<close> models \<^verbatim>\<open>trywrite.c\<close>: what the socket does not take is buffered and flushed later. The locale
  \<open>buffered_writer\<close> states the contract of a first attempt and is interpreted by \<^verbatim>\<open>mog_trywritev\<close> and \<^verbatim>\<open>mog_trysend\<close>: nothing is lost, repeated or
  reordered.

  \<^bold>\<open>Tables.\<close> \<^verbatim>\<open>Mog_Hash\<close> models \<^verbatim>\<open>lib/hash.c\<close> with growth and rehashing; the locale \<open>hash_client\<close> gives its users a finite map and is
  interpreted for the utilisation table of \<^verbatim>\<open>ioutil.c\<close> (\<^verbatim>\<open>Mog_Ioutil\<close>) and the digest queues of \<^verbatim>\<open>fsck_queue.c\<close> (\<^verbatim>\<open>Mog_Fsck\<close>). The latter run at most one
  digest on a device. \<^verbatim>\<open>Mog_Fdmap\<close> models \<^verbatim>\<open>fdmap.c\<close>; the locale \<open>descriptor_table\<close> is its interface, and the table refines a map from
  descriptors to client types. \<^verbatim>\<open>Mog_Alloc\<close> models the read buffers of \<^verbatim>\<open>alloc.c\<close> as a heap with an invariant.

  \<^bold>\<open>Parsers.\<close> The automata of the generated C files are data in \<^verbatim>\<open>Mog_Http_Table\<close> and \<^verbatim>\<open>Mog_Mgmt_Table\<close>, row by row, and functions in \<^verbatim>\<open>Mog_Path\<close>
  (\<^verbatim>\<open>valid_path.c\<close>, \<^verbatim>\<open>valid_put_path.c\<close>) and \<^verbatim>\<open>Mog_Chunk\<close> (\<^verbatim>\<open>chunk_parser.c\<close>). \<^verbatim>\<open>Mog_Http_Parser\<close> runs the request automaton with its actions, and
  \<^verbatim>\<open>Mog_Http_Parse\<close> shows that it always returns and does not depend on how the request was cut into pieces. The chunk
  parser decodes exactly the chunks. \<^verbatim>\<open>Mog_Base64\<close> (\<^verbatim>\<open>lib/base64.c\<close>) has the round trip for \<^verbatim>\<open>Content-MD5\<close>, and \<^verbatim>\<open>Mog_Date\<close>
  (\<^verbatim>\<open>http_date.c\<close>) the date of every second up to the year 9999.

  \<^bold>\<open>HTTP.\<close> \<^verbatim>\<open>Mog_Http_Types\<close> has the client \<^verbatim>\<open>struct mog_http\<close>, \<^verbatim>\<open>Mog_Fs\<close> the world of one client (file system, socket, scripts; \<^verbatim>\<open>fs.c\<close>, \<^verbatim>\<open>file.c\<close>,
  \<^verbatim>\<open>mkpath_for.c\<close>). \<^verbatim>\<open>Mog_Http_Get\<close>, \<^verbatim>\<open>Mog_Http_Put\<close> with \<^verbatim>\<open>Mog_Http_Write\<close>, and \<^verbatim>\<open>Mog_Http\<close> model \<^verbatim>\<open>http_get.c\<close>, \<^verbatim>\<open>http_put.c\<close>, \<^verbatim>\<open>http_dav.c\<close> and \<^verbatim>\<open>http.c\<close>.
  \<^verbatim>\<open>Mog_Put_Open\<close>, \<^verbatim>\<open>Mog_Put_Atomic\<close> and \<^verbatim>\<open>Mog_Http_Serve\<close> show that a PUT is atomic for readers, \<^verbatim>\<open>Mog_Get_Serve\<close> that a GET sends the header
  and exactly the bytes asked for. \<^verbatim>\<open>Mog_Http_Faults\<close> has requests that make an assertion fail or cut a response short.

  \<^bold>\<open>Side channel.\<close> \<^verbatim>\<open>Mog_Digest\<close> models \<^verbatim>\<open>digest.c\<close>; the hash functions are a parameter. \<^verbatim>\<open>Mog_Mgmt\<close> models \<^verbatim>\<open>mgmt_parser.rl\<close>, \<^verbatim>\<open>mgmt_fn.c\<close> and \<^verbatim>\<open>mgmt.c\<close>: the
  parser returns for every input, a size request gets its answer, and a file system check request for a missing file makes a
  later graceful shutdown fail.

  \<^bold>\<open>Threads.\<close> \<^verbatim>\<open>Mog_Queue\<close> is a step relation of accept and worker threads over the event queue of \<^verbatim>\<open>queue_epoll.c\<close>, \<^verbatim>\<open>activeq.h\<close> and \<^verbatim>\<open>queue_loop.c\<close>. In
  every reachable state at most one thread works on a client, and every open client is armed, held by a thread, just being accepted, or parked by its
  handler. \<^verbatim>\<open>Mog_Quit\<close> has the quit loop, which goes on exactly while a client is open as long as \<^verbatim>\<open>epoll_ctl\<close> works; if it fails, the loop can wait
  forever. Functions under a lock are one step.

  \<^bold>\<open>Bounds and fuel.\<close> The request and side-channel automata run with fuel that depends on the length of the buffer; their
  termination theorems show that it is enough. The side channel reads a line at most twice, as a command and as an unknown line,
  so twice the length and two suffices. Digest rounds and re-reads are bounded by the number of answers left.

  \<^bold>\<open>Not modelled.\<close> Configuration, option and listen address parsing, listeners, inheritance and upgrade, child processes
  and the pid file run at start-up or are system calls only. Thread creation, signals and wake-ups are those of POSIX. Mount entries, device
  scans and the \<^verbatim>\<open>iostat\<close> reader only feed the utilisation table. The kqueue back end implements the interface of the
  epoll one. Socket options, logging, I/O priorities and file advice do not change the modelled state. The other gnulib files are
  portability code.
\<close>

end
